(* ===== verification/Prelude.thy ===== *)
theory Prelude
  imports "HOL-Library.Word" "HOL-Library.List_Lexorder"
begin

text \<open>
  What every component of the model shares: the ways a call can go wrong, the sequencing of
  fallible calls, the wrap-around of \<^verbatim>\<open>size_t\<close>, the byte image of machine integers, and the
  overwriting of a part of a list. The associative containers of the C++ library are in \<open>Names\<close>.
\<close>

section \<open>Collections of facts\<close>

named_theorems ba_simps \<open>reading and updating a byte array\<close>
named_theorems codec_laws \<open>what the encoders and decoders promise\<close>
named_theorems node_simps \<open>operations of the port layer\<close>
named_theorems ctl_simps \<open>operations of the node controller\<close>

section \<open>Faults\<close>

text \<open>
  The code has one C++ exception (\<^verbatim>\<open>std::out_of_range\<close>); every other fault is a crash or undefined
  behaviour of the C++ abstract machine. A fault is the left summand of a result.
\<close>

datatype fault =
    OutOfRange        \<comment> \<open>\<^verbatim>\<open>throw std::out_of_range\<close>\<close>
  | NullDeref         \<comment> \<open>a null or empty pointer is dereferenced\<close>
  | DivideByZero      \<comment> \<open>\<^verbatim>\<open>x % 0\<close> on \<^verbatim>\<open>size_t\<close>\<close>
  | MemoryOverrun     \<comment> \<open>\<^verbatim>\<open>memcpy\<close> or a stream write outside the object\<close>
  | PureVirtualCall   \<comment> \<open>a pure virtual function is called in a destructor: the program is aborted\<close>

type_synonym 'a res = "fault + 'a"

definition rbind :: "'a res \<Rightarrow> ('a \<Rightarrow> 'b res) \<Rightarrow> 'b res" where
  "rbind r f = (case r of Inl e \<Rightarrow> Inl e | Inr a \<Rightarrow> f a)"

lemma rbind_simps [simp]:
  "rbind (Inl e) f = Inl e"
  "rbind (Inr a) f = f a"
  by (simp_all add: rbind_def)

lemma rbind_assoc: "rbind (rbind r f) g = rbind r (\<lambda>a. rbind (f a) g)"
  by (cases r) simp_all

lemma rbind_Inr_right [simp]: "rbind r Inr = r"
  by (cases r) simp_all

lemma rbind_eq_Inr_iff: "rbind r f = Inr b \<longleftrightarrow> (\<exists>a. r = Inr a \<and> f a = Inr b)"
  by (cases r) simp_all

lemma rbind_eq_Inl_iff: "rbind r f = Inl e \<longleftrightarrow> r = Inl e \<or> (\<exists>a. r = Inr a \<and> f a = Inl e)"
  by (cases r) simp_all

lemma rbind_cong [fundef_cong]: "r = r' \<Longrightarrow> (\<And>a. r' = Inr a \<Longrightarrow> f a = g a) \<Longrightarrow> rbind r f = rbind r' g"
  by (cases r') simp_all

lemma rbind_InrE:
  assumes "rbind r f = Inr b"
  obtains a where "r = Inr a" and "f a = Inr b"
  using assms by (auto simp: rbind_eq_Inr_iff)

section \<open>Machine integers\<close>

type_synonym byte = "8 word"
type_synonym u16 = "16 word"
type_synonym u32 = "32 word"
type_synonym u64 = "64 word"

text \<open>Byte strings: \<^verbatim>\<open>std::string\<close> is a sequence of \<^verbatim>\<open>char\<close>, compared as unsigned bytes.\<close>

type_synonym bytes = "byte list"

text \<open>Subtraction of \<^verbatim>\<open>size_t\<close> (64 bits): it wraps around where the difference is negative.\<close>

definition usub :: "nat \<Rightarrow> nat \<Rightarrow> nat" where
  "usub a b = (if b \<le> a then a - b else 2 ^ 64 - (b - a))"

lemma usub_le [simp]: "b \<le> a \<Longrightarrow> usub a b = a - b"
  by (simp add: usub_def)

lemma unat_eq_0_iff: "unat w = 0 \<longleftrightarrow> w = 0"
  by (simp add: unat_eq_zero)

text \<open>
  The object representation of an integer on the little-endian targets the code is built for
  (it \<^verbatim>\<open>memcpy\<close>s integers in host order): \<open>le_enc n w\<close> is the first \<open>n\<close> bytes of \<open>w\<close>.
\<close>

primrec le_enc :: "nat \<Rightarrow> 'a::len word \<Rightarrow> bytes" where
  "le_enc 0 w = []"
| "le_enc (Suc n) w = ucast w # le_enc n (drop_bit 8 w)"

primrec le_dec :: "bytes \<Rightarrow> 'a::len word" where
  "le_dec [] = 0"
| "le_dec (b # bs) = or (ucast b) (push_bit 8 (le_dec bs))"

lemma length_le_enc [simp]: "length (le_enc n w) = n"
  by (induction n arbitrary: w) simp_all

lemma le_enc_eq_Nil_iff [simp]: "le_enc n w = [] \<longleftrightarrow> n = 0"
  by (cases n) simp_all

lemma le_dec_le_enc_take: "le_dec (le_enc n w) = take_bit (8 * n) w"
proof (induction n arbitrary: w)
  case 0
  show ?case by simp
next
  case (Suc n)
  have "or (ucast (ucast w :: byte)) (push_bit 8 (take_bit (8 * n) (drop_bit 8 w)))
      = take_bit (8 * Suc n) w"
    by (rule bit_word_eqI)
       (auto simp: bit_or_iff bit_unsigned_iff bit_push_bit_iff bit_take_bit_iff bit_drop_bit_eq
         dest: bit_imp_le_length)
  with Suc show ?case by simp
qed

lemma le_dec_le_enc: "LENGTH('a) \<le> 8 * n \<Longrightarrow> le_dec (le_enc n w) = (w :: 'a::len word)"
  by (simp add: le_dec_le_enc_take take_bit_word_eq_self)

lemma le_dec_enc_u8 [simp]: "le_dec (le_enc (Suc 0) w) = (w :: byte)"
  using le_dec_le_enc [of "Suc 0" w] by simp

lemma le_dec_enc_u16 [simp]: "le_dec (le_enc 2 w) = (w :: u16)"
  by (simp add: le_dec_le_enc)

lemma le_dec_enc_u32 [simp]: "le_dec (le_enc 4 w) = (w :: u32)"
  by (simp add: le_dec_le_enc)

lemma le_dec_enc_u64 [simp]: "le_dec (le_enc 8 w) = (w :: u64)"
  by (simp add: le_dec_le_enc)

section \<open>Splicing a byte string into another\<close>

text \<open>What \<^verbatim>\<open>memcpy(dst + i, src, n)\<close> leaves in the destination object.\<close>

definition overlay :: "nat \<Rightarrow> 'a list \<Rightarrow> 'a list \<Rightarrow> 'a list" where
  "overlay i ys xs = take i xs @ ys @ drop (i + length ys) xs"

lemma length_overlay [simp]: "i + length ys \<le> length xs \<Longrightarrow> length (overlay i ys xs) = length xs"
  by (simp add: overlay_def)

lemma overlay_Nil [simp]: "overlay i [] xs = xs"
  by (simp add: overlay_def)

lemma overlay_append_right:
  "i + length ys \<le> length xs \<Longrightarrow> overlay i ys (xs @ zs) = overlay i ys xs @ zs"
  by (simp add: overlay_def)

lemma overlay_append_left:
  "overlay (length xs + i) ys (xs @ zs) = xs @ overlay i ys zs"
  by (simp add: overlay_def add.assoc)

lemma overlay_overlay:
  assumes "i + length ys + length zs \<le> length xs"
  shows "overlay (i + length ys) zs (overlay i ys xs) = overlay i (ys @ zs) xs"
  using assms by (auto simp: overlay_def ac_simps min_def)

lemma take_overlay_after:
  assumes "i + length ys \<le> n" and "i + length ys \<le> length xs"
  shows "take n (overlay i ys xs) = overlay i ys (take n xs)"
proof -
  have "i \<le> n" and "i \<le> length xs" and "length ys \<le> n - i"
    using assms by simp_all
  then show ?thesis
    by (simp add: overlay_def min_absorb1 min_absorb2 take_drop ac_simps)
qed

lemma overlay_at_end [simp]: "overlay (length xs) ys xs = xs @ ys"
  by (simp add: overlay_def)

lemma concat_update_overlay:
  assumes "\<forall>x\<in>set xss. length x = b" and "c < length xss" and "i + length ys \<le> b"
  shows "concat (xss[c := overlay i ys (xss ! c)]) = overlay (c * b + i) ys (concat xss)"
  using assms
proof (induction xss arbitrary: c)
  case Nil
  then show ?case by simp
next
  case (Cons x xss)
  show ?case
  proof (cases c)
    case 0
    with Cons.prems show ?thesis by (simp add: overlay_append_right)
  next
    case (Suc d)
    have "concat (xss[d := overlay i ys (xss ! d)]) = overlay (d * b + i) ys (concat xss)"
      using Cons.prems Suc by (intro Cons.IH) auto
    moreover have "overlay (length x + (d * b + i)) ys (x @ concat xss) = x @ overlay (d * b + i) ys (concat xss)"
      by (rule overlay_append_left)
    ultimately show ?thesis using Suc Cons.prems by (simp add: add.assoc)
  qed
qed

lemma length_concat_uniform:
  "\<forall>x\<in>set xss. length x = b \<Longrightarrow> length (concat xss) = b * length xss"
  by (induction xss) simp_all

lemma take_drop_concat_uniform:
  assumes "\<forall>x\<in>set xss. length x = b" and "c < length xss" and "i + n \<le> b"
  shows "take n (drop (c * b + i) (concat xss)) = take n (drop i (xss ! c))"
  using assms
proof (induction xss arbitrary: c)
  case Nil
  then show ?case by simp
next
  case (Cons x xss)
  show ?case
  proof (cases c)
    case 0
    with Cons.prems show ?thesis by simp
  next
    case (Suc d)
    have "take n (drop (d * b + i) (concat xss)) = take n (drop i (xss ! d))"
      using Cons.prems Suc by (intro Cons.IH) auto
    then show ?thesis using Suc Cons.prems by (simp add: add.assoc)
  qed
qed

text \<open>Positions in a sequence of blocks of size \<open>b\<close>.\<close>

lemma block_inside: "p < b * n \<Longrightarrow> p div b < (n::nat)"
  by (metis less_mult_imp_div_less mult.commute)

lemma block_step:
  assumes "0 < b" and "p mod b + k \<le> (b::nat)"
  shows "(p + k) div b = (if p mod b + k = b then Suc (p div b) else p div b)"
proof -
  have "p + k = (p mod b + k) + p div b * b"
    by (metis add.assoc add.commute mod_mult_div_eq mult.commute)
  moreover have "((p mod b + k) + p div b * b) div b = p div b + (p mod b + k) div b"
    using assms(1) by (intro div_mult_self1) simp
  ultimately have "(p + k) div b = p div b + (p mod b + k) div b"
    by simp
  with assms show ?thesis by auto
qed

text \<open>The number of blocks of size \<open>b\<close> that hold \<open>d\<close> bytes.\<close>

lemma ceil_div:
  assumes "0 < b" and "0 < (d::nat)"
  shows "d \<le> b * ((d + b - 1) div b)" and "0 < (d + b - 1) div b"
proof -
  have "d + b - 1 < b + b * ((d + b - 1) div b)"
    using assms(1) by (rule dividend_less_times_div)
  then show "d \<le> b * ((d + b - 1) div b)" by linarith
  then show "0 < (d + b - 1) div b"
    using assms(2) by (metis gr0I mult_0_right not_le)
qed

lemma take_take_drop_split:
  "m \<le> n \<Longrightarrow> take n (drop i xs) = take m (drop i xs) @ take (n - m) (drop (i + m) xs)"
  by (metis add.commute drop_drop le_add_diff_inverse take_add)

end
