(* ===== verification/Names.thy ===== *)
theory Names
  imports Prelude
begin

text \<open>
  Port and node names (\<^verbatim>\<open>src/core/ports/name.h\<close>, \<^verbatim>\<open>name.cc\<close>), their hash (\<^verbatim>\<open>src/core/hash.cc\<close>), the
  byte swap of \<^verbatim>\<open>src/core/util.h\<close>, and the associative containers the components keep their state
  in: an unordered map is a partial function, an ordered map the list of its entries in key order.
\<close>

unbundle bit_operations_syntax

section \<open>Names\<close>

datatype name = Name (nm_v1: u64) (nm_v2: u64)

type_synonym port_name = name
type_synonym node_name = name

definition kInvalidName :: name where
  "kInvalidName = Name 0 0"

text \<open>\<^verbatim>\<open>operator<\<close>: \<^verbatim>\<open>std::tie(a.v1, a.v2) < std::tie(b.v1, b.v2)\<close>.\<close>

definition name_less :: "name \<Rightarrow> name \<Rightarrow> bool" where
  "name_less a b \<longleftrightarrow> nm_v1 a < nm_v1 b \<or> \<not> nm_v1 b < nm_v1 a \<and> nm_v2 a < nm_v2 b"

instantiation name :: linorder
begin

definition less_name :: "name \<Rightarrow> name \<Rightarrow> bool" where
  "less_name = name_less"

definition less_eq_name :: "name \<Rightarrow> name \<Rightarrow> bool" where
  "less_eq_name a b \<longleftrightarrow> \<not> name_less b a"

instance
  by standard (auto simp: less_name_def less_eq_name_def name_less_def name.expand)

end

section \<open>Hashing\<close>

text \<open>\<^verbatim>\<open>HashInts64Impl\<close> for a 64-bit \<^verbatim>\<open>size_t\<close>.\<close>

definition hash_ints64_impl :: "u64 \<Rightarrow> u64 \<Rightarrow> u64" where
  "hash_ints64_impl value1 value2 =
     (let short_random1 = 842304669 :: u32; short_random2 = 619063811 :: u32;
          short_random3 = 937041849 :: u32; short_random4 = 3309708029 :: u32;
          value1a = ucast (value1 AND 0xffffffff) :: u32;
          value1b = ucast (drop_bit 32 value1 AND 0xffffffff) :: u32;
          value2a = ucast (value2 AND 0xffffffff) :: u32;
          value2b = ucast (drop_bit 32 value2 AND 0xffffffff) :: u32;
          product1 = ucast value1a * ucast short_random1;
          product2 = ucast value1b * ucast short_random2;
          product3 = ucast value2a * ucast short_random3;
          product4 = ucast value2b * ucast short_random4
      in product1 + product2 + product3 + product4)"

definition hash_ints64 :: "u64 \<Rightarrow> u64 \<Rightarrow> u64" where
  "hash_ints64 value1 value2 = hash_ints64_impl value1 value2"

definition hash_name :: "name \<Rightarrow> u64" where
  "hash_name nm = hash_ints64 (nm_v1 nm) (nm_v2 nm)"

section \<open>Byte swapping\<close>

text \<open>
  \<^verbatim>\<open>bswap_n\<close> reverses the bytes of an \<open>n\<close>-bit word. \<^verbatim>\<open>ByteSwap\<close> at a one-byte type widens to 16
  bits, swaps and narrows again.
\<close>

definition bswap :: "nat \<Rightarrow> 'a::len word \<Rightarrow> 'a word" where
  "bswap n v = le_dec (rev (le_enc n v))"

definition byte_swap8 :: "byte \<Rightarrow> byte" where
  "byte_swap8 value = ucast (bswap 2 (ucast value :: u16))"

definition byte_swap16 :: "u16 \<Rightarrow> u16" where
  "byte_swap16 value = bswap 2 value"

definition byte_swap32 :: "u32 \<Rightarrow> u32" where
  "byte_swap32 value = bswap 4 value"

definition byte_swap64 :: "u64 \<Rightarrow> u64" where
  "byte_swap64 value = bswap 8 value"

definition endian_cast :: "'a \<Rightarrow> 'a" where
  "endian_cast value = value"

section \<open>Containers\<close>

text \<open>\<^verbatim>\<open>std::unordered_map\<close>.\<close>

definition um_emplace :: "'k \<Rightarrow> 'v \<Rightarrow> ('k \<rightharpoonup> 'v) \<Rightarrow> ('k \<rightharpoonup> 'v)" where
  "um_emplace k v m = (case m k of None \<Rightarrow> m(k \<mapsto> v) | Some _ \<Rightarrow> m)"

definition um_erase :: "'k \<Rightarrow> ('k \<rightharpoonup> 'v) \<Rightarrow> ('k \<rightharpoonup> 'v)" where
  "um_erase k m = m(k := None)"

text \<open>\<^verbatim>\<open>operator[]\<close>: the value under the key, made by default when it was absent.\<close>

definition um_index :: "'v \<Rightarrow> 'k \<Rightarrow> ('k \<rightharpoonup> 'v) \<Rightarrow> 'v \<times> ('k \<rightharpoonup> 'v)" where
  "um_index d k m = (case m k of None \<Rightarrow> (d, m(k \<mapsto> d)) | Some v \<Rightarrow> (v, m))"

text \<open>\<^verbatim>\<open>std::map\<close>: the entries in increasing order of their keys.\<close>

type_synonym ('k, 'v) omap = "('k \<times> 'v) list"

fun om_find :: "'k \<Rightarrow> ('k, 'v) omap \<Rightarrow> 'v option" where
  "om_find k [] = None"
| "om_find k ((k', v) # m) = (if k' = k then Some v else om_find k m)"

fun om_emplace :: "'k::linorder \<Rightarrow> 'v \<Rightarrow> ('k, 'v) omap \<Rightarrow> ('k, 'v) omap" where
  "om_emplace k v [] = [(k, v)]"
| "om_emplace k v ((k', v') # m) =
     (if k < k' then (k, v) # (k', v') # m
      else if k' < k then (k', v') # om_emplace k v m
      else (k', v') # m)"

definition om_erase :: "'k \<Rightarrow> ('k, 'v) omap \<Rightarrow> ('k, 'v) omap" where
  "om_erase k m = filter (\<lambda>(k', v). k' \<noteq> k) m"

definition om_index :: "'v \<Rightarrow> 'k::linorder \<Rightarrow> ('k, 'v) omap \<Rightarrow> 'v \<times> ('k, 'v) omap" where
  "om_index d k m = (case om_find k m of None \<Rightarrow> (d, om_emplace k d m) | Some v \<Rightarrow> (v, m))"

definition om_inv :: "('k::linorder, 'v) omap \<Rightarrow> bool" where
  "om_inv m \<longleftrightarrow> sorted_wrt (<) (map fst m)"

text \<open>The laws the components rely on.\<close>

locale assoc_map =
  fixes ok :: "'m \<Rightarrow> bool"
    and find :: "'k \<Rightarrow> 'm \<Rightarrow> 'v option"
    and emplace :: "'k \<Rightarrow> 'v \<Rightarrow> 'm \<Rightarrow> 'm"
    and erase :: "'k \<Rightarrow> 'm \<Rightarrow> 'm"
  assumes find_emplace: "ok m \<Longrightarrow> find k (emplace k' v m) = (if k = k' \<and> find k' m = None then Some v else find k m)"
    and find_erase: "ok m \<Longrightarrow> find k (erase k' m) = (if k = k' then None else find k m)"
    and ok_emplace: "ok m \<Longrightarrow> ok (emplace k v m)"
    and ok_erase: "ok m \<Longrightarrow> ok (erase k m)"
begin

text \<open>\<^verbatim>\<open>emplace\<close> never changes a value that is there: the first entry under a key wins.\<close>

lemma first_wins: "ok m \<Longrightarrow> find k m = Some w \<Longrightarrow> find k (emplace k' v m) = Some w"
  by (auto simp: find_emplace)

lemma emplace_emplace_same: "ok m \<Longrightarrow> find k' (emplace k w (emplace k v m)) = find k' (emplace k v m)"
  by (simp add: find_emplace ok_emplace)

lemma erase_after_emplace: "ok m \<Longrightarrow> find k m = None \<Longrightarrow> find k' (erase k (emplace k v m)) = find k' m"
  by (simp add: find_emplace find_erase ok_emplace)

text \<open>Moving an entry to another key, as the handshake does with reserved ports.\<close>

lemma rekey:
  assumes "ok m" and "find old m = Some v" and "find new m = None"
  shows "find k (erase old (emplace new v m)) = (if k = new then Some v else if k = old then None else find k m)"
  using assms by (auto simp: find_emplace find_erase ok_emplace)

lemma rekey_collision:
  assumes "ok m" and "find new m = Some w"
  shows "find k (erase old (emplace new v m)) = (if k = old then None else find k m)"
  using assms by (auto simp: find_emplace find_erase ok_emplace)

end

interpretation um: assoc_map "\<lambda>_. True" "\<lambda>k m. m k" um_emplace um_erase
  by unfold_locales (auto simp: um_emplace_def um_erase_def split: option.splits)

lemma om_find_notin: "k \<notin> fst ` set m \<Longrightarrow> om_find k m = None"
  by (induction m) auto

lemma om_find_emplace:
  "om_inv m \<Longrightarrow> om_find k (om_emplace k' v m) = (if k = k' \<and> om_find k' m = None then Some v else om_find k m)"
proof (induction k' v m rule: om_emplace.induct)
  case (2 k' v k'' v' m)
  then have "om_find k' m = None" if "k' < k''"
    using that by (intro om_find_notin) (auto simp: om_inv_def)
  with 2 show ?case by (auto simp: om_inv_def)
qed simp

lemma keys_om_emplace: "fst ` set (om_emplace k v m) = insert k (fst ` set m)"
  by (induction k v m rule: om_emplace.induct) auto

lemma om_inv_emplace: "om_inv m \<Longrightarrow> om_inv (om_emplace k v m)"
proof (induction k v m rule: om_emplace.induct)
  case (2 k v k' v' m)
  then show ?case
    using keys_om_emplace [of k v m] by (auto simp: om_inv_def simp flip: image_set)
qed (simp add: om_inv_def)

lemma om_find_erase: "om_find k (om_erase k' m) = (if k = k' then None else om_find k m)"
  by (induction m) (auto simp: om_erase_def)

lemma om_inv_erase: "om_inv m \<Longrightarrow> om_inv (om_erase k m)"
  by (induction m) (auto simp: om_inv_def om_erase_def)

interpretation om: assoc_map om_inv om_find om_emplace om_erase
  by unfold_locales (simp_all add: om_find_emplace om_find_erase om_inv_emplace om_inv_erase)

section \<open>Reversing the bytes of a word\<close>

lemma nth_le_enc: "i < n \<Longrightarrow> le_enc n w ! i = ucast (drop_bit (8 * i) w)"
proof (induction n arbitrary: i w)
  case (Suc n)
  then show ?case by (cases i) (simp_all add: algebra_simps)
qed simp

lemma bit_le_dec:
  "bit (le_dec bs :: 'a::len word) k \<longleftrightarrow> k < LENGTH('a) \<and> k div 8 < length bs \<and> bit (bs ! (k div 8)) (k mod 8)"
proof (induction bs arbitrary: k)
  case (Cons b bs)
  show ?case
  proof (cases "k < 8")
    case True
    then show ?thesis by (auto simp: bit_or_iff bit_ucast_iff bit_push_bit_iff)
  next
    case False
    then have "k div 8 = Suc ((k - 8) div 8)" "k mod 8 = (k - 8) mod 8" "\<not> bit b k"
      by (simp_all add: le_div_geq le_mod_geq bit_imp_le_length [of b k] not_le) (use False bit_imp_le_length [of b k] in auto)
    with False show ?thesis by (auto simp: bit_or_iff bit_ucast_iff bit_push_bit_iff Cons.IH)
  qed
qed simp

lemma le_enc_le_dec:
  assumes "8 * length bs \<le> LENGTH('a)"
  shows "le_enc (length bs) (le_dec bs :: 'a::len word) = bs"
proof (rule nth_equalityI)
  fix i assume i: "i < length (le_enc (length bs) (le_dec bs :: 'a word))"
  show "le_enc (length bs) (le_dec bs :: 'a word) ! i = bs ! i"
  proof (rule bit_word_eqI)
    fix n assume "n < LENGTH(8)"
    then show "bit (le_enc (length bs) (le_dec bs :: 'a word) ! i) n \<longleftrightarrow> bit (bs ! i) n"
      using i assms by (simp add: nth_le_enc bit_ucast_iff bit_drop_bit_eq bit_le_dec)
  qed
qed simp

lemma bswap_bswap:
  assumes "LENGTH('a) = 8 * n"
  shows "bswap n (bswap n (v :: 'a::len word)) = v"
proof -
  have "le_enc n (le_dec (rev (le_enc n v)) :: 'a word) = rev (le_enc n v)"
    using le_enc_le_dec [of "rev (le_enc n v)", where 'a = 'a] assms by simp
  then show ?thesis using assms by (simp add: bswap_def le_dec_le_enc)
qed

section \<open>Properties\<close>

text \<open>
  \<^verbatim>\<open>ByteSwap\<close> is its own inverse at 16, 32 and 64 bits; at 8 bits it widens, swaps and narrows,
  so that every byte becomes zero.
\<close>

lemma byte_swap_involutive:
  "byte_swap16 (byte_swap16 a) = a \<and> byte_swap32 (byte_swap32 b) = b \<and> byte_swap64 (byte_swap64 c) = c
   \<and> byte_swap8 d = 0"
proof -
  have "byte_swap8 d = 0"
  proof (rule bit_word_eqI)
    fix n assume "n < LENGTH(8)"
    have "\<not> bit d (8 + n)" by (auto dest: bit_imp_le_length)
    then show "bit (byte_swap8 d) n \<longleftrightarrow> bit (0 :: byte) n"
      by (simp add: byte_swap8_def bswap_def numeral_2_eq_2 bit_ucast_iff bit_or_iff bit_push_bit_iff bit_drop_bit_eq)
  qed
  then show ?thesis by (simp add: byte_swap16_def byte_swap32_def byte_swap64_def bswap_bswap)
qed

end
