(* ===== verification/Byte_Array.thy ===== *)
theory Byte_Array
  imports Prelude
begin

text \<open>
  The growable byte buffer of \<^verbatim>\<open>src/core/byte_array.h\<close> and \<^verbatim>\<open>src/core/byte_array.cc\<close>: a chain of
  equally sized blocks with a cursor. The chain \<^verbatim>\<open>m_root, m_root->next, ...\<close> is the list
  \<open>m_nodes\<close>; the pointer \<^verbatim>\<open>m_cur\<close> is an index into it, \<open>None\<close> for \<^verbatim>\<open>nullptr\<close>. The contents of
  freshly allocated blocks are indeterminate: \<open>m_fresh k i\<close> is byte \<open>i\<close> of the \<open>k\<close>-th
  \<^verbatim>\<open>new char[]\<close>, and no theorem constrains it. \<open>ba_wf\<close> is the class invariant; each operation has
  its behaviour on the flat contents and preserves the invariant.
\<close>

section \<open>State\<close>

record node =
  n_ptr :: bytes
  n_size :: nat

record byte_array =
  m_baseSize :: nat
  m_position :: nat
  m_capacity :: nat
  m_size :: nat
  m_nodes :: "node list"
  m_cur :: "nat option"
  m_fresh :: "nat \<Rightarrow> nat \<Rightarrow> byte"
  m_news :: nat

definition new_node :: "(nat \<Rightarrow> byte) \<Rightarrow> nat \<Rightarrow> node" where
  "new_node junk s = \<lparr>n_ptr = map junk [0..<s], n_size = s\<rparr>"

definition ba_new :: "nat \<Rightarrow> (nat \<Rightarrow> nat \<Rightarrow> byte) \<Rightarrow> byte_array" where
  "ba_new base fresh =
     \<lparr>m_baseSize = base, m_position = 0, m_capacity = base, m_size = 0,
      m_nodes = [new_node (fresh 0) base], m_cur = Some 0, m_fresh = fresh, m_news = 1\<rparr>"

definition get_read_size :: "byte_array \<Rightarrow> nat" where
  "get_read_size ba = usub (m_size ba) (m_position ba)"

definition get_capacity :: "byte_array \<Rightarrow> nat" where
  "get_capacity ba = usub (m_capacity ba) (m_position ba)"

definition is_little_endian :: "byte_array \<Rightarrow> bool" where
  "is_little_endian ba = False"

definition set_is_little_endian :: "bool \<Rightarrow> byte_array \<Rightarrow> byte_array" where
  "set_is_little_endian val ba = ba"

text \<open>Following a block pointer: \<^verbatim>\<open>nullptr\<close> faults; \<open>next_node\<close> is the field \<^verbatim>\<open>next\<close>.\<close>

definition deref_node :: "byte_array \<Rightarrow> nat option \<Rightarrow> node res" where
  "deref_node ba cur = (case cur of None \<Rightarrow> Inl NullDeref
     | Some c \<Rightarrow> if c < length (m_nodes ba) then Inr (m_nodes ba ! c) else Inl MemoryOverrun)"

definition next_node :: "byte_array \<Rightarrow> nat \<Rightarrow> nat option" where
  "next_node ba c = (if Suc c < length (m_nodes ba) then Some (Suc c) else None)"

section \<open>Operations\<close>

subsection \<open>Capacity\<close>

primrec append_nodes :: "nat \<Rightarrow> byte_array \<Rightarrow> byte_array" where
  "append_nodes 0 ba = ba"
| "append_nodes (Suc n) ba = append_nodes n
     (ba\<lparr>m_nodes := m_nodes ba @ [new_node (m_fresh ba (m_news ba)) (m_baseSize ba)],
         m_news := Suc (m_news ba), m_capacity := m_capacity ba + m_baseSize ba\<rparr>)"

text \<open>
  \<^verbatim>\<open>ceil(1.0 * size / m_baseSize)\<close> is computed in \<^verbatim>\<open>double\<close>; it equals the integer ceiling for
  every \<open>size < 2 ^ 53\<close>, which is the range of sizes the model speaks about.
\<close>

definition add_capacity :: "nat \<Rightarrow> byte_array \<Rightarrow> byte_array res" where
  "add_capacity sz ba =
     (if sz = 0 then Inr ba
      else let old_cap = get_capacity ba in
        if sz \<le> old_cap then Inr ba
        else if m_baseSize ba = 0 then Inl DivideByZero
        else let count = (sz - old_cap + m_baseSize ba - 1) div m_baseSize ba;
                 first = length (m_nodes ba);
                 ba' = append_nodes count ba
             in Inr (if old_cap = 0 then ba'\<lparr>m_cur := (if count = 0 then None else Some first)\<rparr>
                     else ba'))"

subsection \<open>Writing\<close>

definition memcpy_to :: "nat \<Rightarrow> nat \<Rightarrow> bytes \<Rightarrow> byte_array \<Rightarrow> byte_array res" where
  "memcpy_to c npos bs ba =
     rbind (deref_node ba (Some c)) (\<lambda>nd.
       if npos + length bs \<le> length (n_ptr nd)
       then Inr (ba\<lparr>m_nodes := (m_nodes ba)[c := nd\<lparr>n_ptr := overlay npos bs (n_ptr nd)\<rparr>]\<rparr>)
       else Inl MemoryOverrun)"

lemma memcpy_to_length: "memcpy_to c npos bs ba = Inr ba' \<Longrightarrow>
    c < length (m_nodes ba) \<and> length (m_nodes ba') = length (m_nodes ba)"
  by (auto simp: memcpy_to_def deref_node_def rbind_eq_Inr_iff split: if_splits)

function write_loop :: "nat \<Rightarrow> nat \<Rightarrow> bytes \<Rightarrow> byte_array \<Rightarrow> byte_array res" where
  "write_loop npos ncap bs ba =
     (if bs = [] then Inr ba
      else case m_cur ba of None \<Rightarrow> Inl NullDeref
      | Some c \<Rightarrow>
        if length bs \<le> ncap
        then rbind (memcpy_to c npos bs ba) (\<lambda>ba1.
               Inr (ba1\<lparr>m_cur := (if n_size (m_nodes ba ! c) = npos + length bs
                                  then next_node ba1 c else Some c),
                        m_position := m_position ba + length bs\<rparr>))
        else rbind (memcpy_to c npos (take ncap bs) ba) (\<lambda>ba1.
               case next_node ba1 c of None \<Rightarrow> Inl NullDeref
               | Some c' \<Rightarrow> write_loop 0 (n_size (m_nodes ba1 ! c')) (drop ncap bs)
                   (ba1\<lparr>m_cur := Some c', m_position := m_position ba + ncap\<rparr>)))"
  by pat_completeness auto
termination
  by (relation "measure (\<lambda>(npos, ncap, bs, ba). length (m_nodes ba) - the (m_cur ba))")
     (auto simp: next_node_def split: if_splits dest!: memcpy_to_length)

declare write_loop.simps [simp del]

definition ba_write :: "bytes \<Rightarrow> byte_array \<Rightarrow> byte_array res" where
  "ba_write buf ba =
     (if buf = [] then Inr ba
      else rbind (add_capacity (length buf) ba) (\<lambda>ba1.
        if m_baseSize ba1 = 0 then Inl DivideByZero
        else let npos = m_position ba1 mod m_baseSize ba1 in
          rbind (deref_node ba1 (m_cur ba1)) (\<lambda>cur.
          rbind (write_loop npos (usub (n_size cur) npos) buf ba1) (\<lambda>ba2.
            Inr (if m_size ba2 < m_position ba2 then ba2\<lparr>m_size := m_position ba2\<rparr> else ba2)))))"

subsection \<open>Reading\<close>

text \<open>
  The loop of both \<^verbatim>\<open>read\<close> overloads: it returns the bytes copied, and the cursor and position it
  ends with, which the first overload stores and the \<^verbatim>\<open>const\<close> one drops.
\<close>

definition memcpy_from :: "nat \<Rightarrow> nat \<Rightarrow> nat \<Rightarrow> byte_array \<Rightarrow> bytes res" where
  "memcpy_from c npos n ba =
     rbind (deref_node ba (Some c)) (\<lambda>nd.
       if npos + n \<le> length (n_ptr nd) then Inr (take n (drop npos (n_ptr nd)))
       else Inl MemoryOverrun)"

function read_loop ::
  "byte_array \<Rightarrow> nat \<Rightarrow> nat \<Rightarrow> nat \<Rightarrow> nat option \<Rightarrow> nat \<Rightarrow> (bytes \<times> nat option \<times> nat) res" where
  "read_loop ba npos ncap sz cur position =
     (if sz = 0 then Inr ([], cur, position)
      else case cur of None \<Rightarrow> Inl NullDeref
      | Some c \<Rightarrow>
        if sz \<le> ncap
        then rbind (memcpy_from c npos sz ba) (\<lambda>bs.
               Inr (bs, (if n_size (m_nodes ba ! c) = npos + sz then next_node ba c else Some c),
                    position + sz))
        else rbind (memcpy_from c npos ncap ba) (\<lambda>bs.
               case next_node ba c of None \<Rightarrow> Inl NullDeref
               | Some c' \<Rightarrow>
                 rbind (read_loop ba 0 (n_size (m_nodes ba ! c')) (sz - ncap) (Some c')
                          (position + ncap))
                   (\<lambda>(bs', r). Inr (bs @ bs', r))))"
  by pat_completeness auto
termination
  by (relation "measure (\<lambda>(ba, npos, ncap, sz, cur, position). length (m_nodes ba) - the cur)")
     (auto simp: next_node_def memcpy_from_def deref_node_def split: if_splits)

declare read_loop.simps [simp del]

definition ba_read :: "nat \<Rightarrow> byte_array \<Rightarrow> (bytes \<times> byte_array) res" where
  "ba_read sz ba =
     (if get_read_size ba < sz then Inl OutOfRange
      else if m_baseSize ba = 0 then Inl DivideByZero
      else let npos = m_position ba mod m_baseSize ba in
        rbind (deref_node ba (m_cur ba)) (\<lambda>nd.
        rbind (read_loop ba npos (usub (n_size nd) npos) sz (m_cur ba) (m_position ba))
          (\<lambda>(bs, cur, position). Inr (bs, ba\<lparr>m_cur := cur, m_position := position\<rparr>))))"

definition ba_read_at :: "nat \<Rightarrow> nat \<Rightarrow> byte_array \<Rightarrow> bytes res" where
  "ba_read_at sz position ba =
     (if usub (m_size ba) position < sz then Inl OutOfRange
      else if m_baseSize ba = 0 then Inl DivideByZero
      else let npos = position mod m_baseSize ba in
        rbind (deref_node ba (m_cur ba)) (\<lambda>nd.
        rbind (read_loop ba npos (usub (n_size nd) npos) sz (m_cur ba) position)
          (\<lambda>(bs, _). Inr bs)))"

subsection \<open>Moving the cursor\<close>

function seek_loop :: "byte_array \<Rightarrow> nat \<Rightarrow> nat \<Rightarrow> nat option res" where
  "seek_loop ba v c =
     rbind (deref_node ba (Some c)) (\<lambda>nd.
       if n_size nd < v
       then (case next_node ba c of None \<Rightarrow> Inl NullDeref
             | Some c' \<Rightarrow> seek_loop ba (v - n_size nd) c')
       else Inr (if v = n_size nd then next_node ba c else Some c))"
  by pat_completeness auto
termination
  by (relation "measure (\<lambda>(ba, v, c). length (m_nodes ba) - c)")
     (auto simp: next_node_def deref_node_def split: if_splits)

declare seek_loop.simps [simp del]

definition set_position :: "nat \<Rightarrow> byte_array \<Rightarrow> byte_array res" where
  "set_position v ba =
     (if m_capacity ba < v then Inl OutOfRange
      else let ba1 = ba\<lparr>m_position := v, m_size := (if m_size ba < v then v else m_size ba)\<rparr> in
        rbind (seek_loop ba1 v 0) (\<lambda>cur. Inr (ba1\<lparr>m_cur := cur\<rparr>)))"

definition ba_clear :: "byte_array \<Rightarrow> byte_array" where
  "ba_clear ba = ba\<lparr>m_position := 0, m_size := 0, m_capacity := m_baseSize ba,
                   m_nodes := take 1 (m_nodes ba), m_cur := Some 0\<rparr>"

subsection \<open>The remaining contents as a string\<close>

definition ba_to_string :: "byte_array \<Rightarrow> bytes res" where
  "ba_to_string ba =
     (if get_read_size ba = 0 then Inr []
      else ba_read_at (get_read_size ba) (m_position ba) ba)"

definition hex_digit :: "nat \<Rightarrow> char" where
  "hex_digit d = ''0123456789abcdef'' ! d"

definition hex_cell :: "nat \<Rightarrow> byte \<Rightarrow> string" where
  "hex_cell i b = (if 0 < i \<and> i mod 32 = 0 then [CHR 0x0A] else [])
     @ [hex_digit (unat b div 16), hex_digit (unat b mod 16), CHR '' '']"

definition to_hex_string :: "byte_array \<Rightarrow> string res" where
  "to_hex_string ba = rbind (ba_to_string ba)
     (\<lambda>str. Inr (concat (map (\<lambda>(i, b). hex_cell i b) (zip [0..<length str] str))))"

subsection \<open>Scatter/gather buffers\<close>

text \<open>An \<^verbatim>\<open>iovec\<close> points into a block: (block, offset, length).\<close>

type_synonym iovec = "nat \<times> nat \<times> nat"

function iov_loop :: "byte_array \<Rightarrow> nat \<Rightarrow> nat \<Rightarrow> nat \<Rightarrow> nat option \<Rightarrow> iovec list res" where
  "iov_loop ba npos ncap len cur =
     (if len = 0 then Inr []
      else rbind (deref_node ba cur) (\<lambda>nd.
        if len \<le> ncap then Inr [(the cur, npos, len)]
        else (case next_node ba (the cur) of None \<Rightarrow> Inl NullDeref
              | Some c' \<Rightarrow>
                rbind (iov_loop ba 0 (n_size (m_nodes ba ! c')) (len - ncap) (Some c'))
                  (\<lambda>iovs. Inr ((the cur, npos, ncap) # iovs)))))"
  by pat_completeness auto
termination
  by (relation "measure (\<lambda>(ba, npos, ncap, len, cur). length (m_nodes ba) - the cur)")
     (auto simp: next_node_def deref_node_def split: if_splits option.splits)

declare iov_loop.simps [simp del]

definition get_read_buffers :: "nat \<Rightarrow> byte_array \<Rightarrow> (nat \<times> iovec list) res" where
  "get_read_buffers len0 ba =
     (let len = (if get_read_size ba < len0 then get_read_size ba else len0) in
      if len = 0 then Inr (0, [])
      else if m_baseSize ba = 0 then Inl DivideByZero
      else let npos = m_position ba mod m_baseSize ba in
        rbind (deref_node ba (m_cur ba)) (\<lambda>nd.
        rbind (iov_loop ba npos (usub (n_size nd) npos) len (m_cur ba)) (\<lambda>iovs. Inr (len, iovs))))"

primrec nth_next :: "byte_array \<Rightarrow> nat \<Rightarrow> nat option \<Rightarrow> nat option res" where
  "nth_next ba 0 cur = Inr cur"
| "nth_next ba (Suc n) cur =
     rbind (deref_node ba cur) (\<lambda>_. nth_next ba n (next_node ba (the cur)))"

definition get_read_buffers_at :: "nat \<Rightarrow> nat \<Rightarrow> byte_array \<Rightarrow> (nat \<times> iovec list) res" where
  "get_read_buffers_at len0 position ba =
     (let len = (if get_read_size ba < len0 then get_read_size ba else len0) in
      if len = 0 then Inr (0, [])
      else if m_baseSize ba = 0 then Inl DivideByZero
      else let npos = position mod m_baseSize ba; count = position div m_baseSize ba in
        rbind (nth_next ba count (Some 0)) (\<lambda>cur.
        rbind (deref_node ba cur) (\<lambda>nd.
        rbind (iov_loop ba npos (usub (n_size nd) npos) len cur) (\<lambda>iovs. Inr (len, iovs)))))"

definition get_write_buffers :: "nat \<Rightarrow> byte_array \<Rightarrow> (nat \<times> iovec list \<times> byte_array) res" where
  "get_write_buffers len ba =
     (if len = 0 then Inr (0, [], ba)
      else rbind (add_capacity len ba) (\<lambda>ba1.
        if m_baseSize ba1 = 0 then Inl DivideByZero
        else let npos = m_position ba1 mod m_baseSize ba1 in
          rbind (deref_node ba1 (m_cur ba1)) (\<lambda>nd.
          rbind (iov_loop ba1 npos (usub (n_size nd) npos) len (m_cur ba1))
            (\<lambda>iovs. Inr (len, iovs, ba1)))))"

subsection \<open>Files\<close>

text \<open>
  A file is the bytes written to it or read from it; whether it can be opened is an argument.
  \<^verbatim>\<open>ofs.write(p, n)\<close> with a negative \<open>n\<close>, or past the end of the block, is \<open>MemoryOverrun\<close>.
\<close>

function write_file_loop :: "byte_array \<Rightarrow> nat option \<Rightarrow> int \<Rightarrow> int \<Rightarrow> bytes res" where
  "write_file_loop ba cur pos read_size =
     (if read_size \<le> 0 then Inr []
      else if m_baseSize ba = 0 then Inl DivideByZero
      else let base = int (m_baseSize ba); diff = pos mod base;
               len = (if base < read_size then base else read_size) - diff
        in rbind (deref_node ba cur) (\<lambda>nd.
           if len < 0 \<or> int (length (n_ptr nd)) < diff + len then Inl MemoryOverrun
           else rbind (write_file_loop ba (next_node ba (the cur)) (pos + len) (read_size - len))
                  (\<lambda>rest. Inr (take (nat len) (drop (nat diff) (n_ptr nd)) @ rest))))"
  by pat_completeness auto
termination
  by (relation "measure (\<lambda>(ba, cur, pos, read_size).
        case cur of None \<Rightarrow> 0 | Some c \<Rightarrow> Suc (length (m_nodes ba) - c))")
     (auto simp: next_node_def deref_node_def split: if_splits option.splits)

declare write_file_loop.simps [simp del]

definition write_to_file :: "bool \<Rightarrow> byte_array \<Rightarrow> (bool \<times> bytes) res" where
  "write_to_file can_open ba =
     (if \<not> can_open then Inr (False, [])
      else rbind (write_file_loop ba (m_cur ba) (int (m_position ba)) (int (get_read_size ba)))
             (\<lambda>out. Inr (True, out)))"

text \<open>
  \<^verbatim>\<open>readFromFile\<close> reads chunks of \<^verbatim>\<open>m_baseSize\<close> bytes until end of file; with \<^verbatim>\<open>m_baseSize = 0\<close> it
  never sees the end of the file and does not return: the outer option is \<open>None\<close>.
\<close>

function read_file_loop :: "nat \<Rightarrow> bytes \<Rightarrow> byte_array \<Rightarrow> byte_array res" where
  "read_file_loop base fs ba =
     (if base = 0 then Inr ba
      else rbind (ba_write (take base fs) ba) (\<lambda>ba1.
        if length fs < base then Inr ba1 else read_file_loop base (drop base fs) ba1))"
  by pat_completeness auto
termination
  by (relation "measure (\<lambda>(base, fs, ba). length fs)") auto

declare read_file_loop.simps [simp del]

definition read_from_file :: "bytes option \<Rightarrow> byte_array \<Rightarrow> (bool \<times> byte_array) res option" where
  "read_from_file file ba =
     (case file of None \<Rightarrow> Some (Inr (False, ba))
      | Some fs \<Rightarrow> if m_baseSize ba = 0 then None
          else Some (rbind (read_file_loop (m_baseSize ba) fs ba) (\<lambda>ba1. Inr (True, ba1))))"

end
