(* ===== verification/Byte_Array_Spec.thy ===== *)
theory Byte_Array_Spec
  imports Byte_Array
begin

text \<open>
  Correctness of the byte array: the class invariant \<open>ba_wf\<close>, and what each operation does to the
  flat contents \<open>ba_flat\<close> (all blocks, in order) and to the data \<open>ba_data\<close> (the first \<^verbatim>\<open>m_size\<close>
  bytes of it). The clients use only the laws \<open>ba_write_spec\<close>, \<open>ba_read_spec\<close>,
  \<open>set_position_spec\<close> and \<open>ba_to_string_spec\<close>.
\<close>

section \<open>Invariant and abstraction\<close>

definition ba_flat :: "byte_array \<Rightarrow> bytes" where
  "ba_flat ba = concat (map n_ptr (m_nodes ba))"

definition ba_data :: "byte_array \<Rightarrow> bytes" where
  "ba_data ba = take (m_size ba) (ba_flat ba)"

definition cur_at :: "byte_array \<Rightarrow> nat \<Rightarrow> nat option" where
  "cur_at ba p = (if p < m_capacity ba then Some (p div m_baseSize ba) else None)"

definition ba_blocks :: "byte_array \<Rightarrow> bool" where
  "ba_blocks ba \<longleftrightarrow> 0 < m_baseSize ba \<and> m_nodes ba \<noteq> []
     \<and> (\<forall>n\<in>set (m_nodes ba). n_size n = m_baseSize ba \<and> length (n_ptr n) = m_baseSize ba)
     \<and> m_capacity ba = m_baseSize ba * length (m_nodes ba)"

definition ba_layout :: "byte_array \<Rightarrow> bool" where
  "ba_layout ba \<longleftrightarrow> ba_blocks ba \<and> m_position ba \<le> m_capacity ba
     \<and> m_cur ba = cur_at ba (m_position ba)"

definition ba_wf :: "byte_array \<Rightarrow> bool" where
  "ba_wf ba \<longleftrightarrow> ba_layout ba \<and> m_position ba \<le> m_size ba \<and> m_size ba \<le> m_capacity ba"

text \<open>What these notions do not depend on.\<close>

lemma cur_at_update [simp]:
  "cur_at (ba\<lparr>m_nodes := x1\<rparr>) p = cur_at ba p"
  "cur_at (ba\<lparr>m_cur := x2\<rparr>) p = cur_at ba p"
  "cur_at (ba\<lparr>m_position := x3\<rparr>) p = cur_at ba p"
  "cur_at (ba\<lparr>m_size := x4\<rparr>) p = cur_at ba p"
  "cur_at (ba\<lparr>m_news := x5\<rparr>) p = cur_at ba p"
  by (simp_all add: cur_at_def)

lemma ba_blocks_update [simp]:
  "ba_blocks (ba\<lparr>m_cur := x2\<rparr>) = ba_blocks ba"
  "ba_blocks (ba\<lparr>m_position := x3\<rparr>) = ba_blocks ba"
  "ba_blocks (ba\<lparr>m_size := x4\<rparr>) = ba_blocks ba"
  "ba_blocks (ba\<lparr>m_news := x5\<rparr>) = ba_blocks ba"
  "ba_blocks (ba\<lparr>m_cur := x2, m_position := x3, m_nodes := x1\<rparr>) = ba_blocks (ba\<lparr>m_nodes := x1\<rparr>)"
  by (simp_all add: ba_blocks_def)

lemma ba_flat_update [simp]:
  "ba_flat (ba\<lparr>m_cur := x2\<rparr>) = ba_flat ba"
  "ba_flat (ba\<lparr>m_position := x3\<rparr>) = ba_flat ba"
  "ba_flat (ba\<lparr>m_size := x4\<rparr>) = ba_flat ba"
  "ba_flat (ba\<lparr>m_capacity := x6\<rparr>) = ba_flat ba"
  "ba_flat (ba\<lparr>m_news := x5\<rparr>) = ba_flat ba"
  "ba_flat (ba\<lparr>m_cur := x2, m_position := x3, m_nodes := x1\<rparr>) = ba_flat (ba\<lparr>m_nodes := x1\<rparr>)"
  by (simp_all add: ba_flat_def)

lemma ba_blocks_length_flat: "ba_blocks ba \<Longrightarrow> length (ba_flat ba) = m_capacity ba"
  using length_concat_uniform [of "map n_ptr (m_nodes ba)" "m_baseSize ba"]
  by (simp add: ba_blocks_def ba_flat_def)

lemma ba_wf_length_data [ba_simps]: "ba_wf ba \<Longrightarrow> length (ba_data ba) = m_size ba"
  by (simp add: ba_wf_def ba_layout_def ba_data_def ba_blocks_length_flat)

lemma ba_wf_bounds:
  assumes "ba_wf ba"
  shows "m_position ba \<le> m_size ba" and "m_size ba \<le> m_capacity ba" and "0 < m_baseSize ba"
  using assms by (simp_all add: ba_wf_def ba_layout_def ba_blocks_def)

lemma ba_blocks_node:
  assumes "ba_blocks ba" and "c < length (m_nodes ba)"
  shows "n_size (m_nodes ba ! c) = m_baseSize ba" and "length (n_ptr (m_nodes ba ! c)) = m_baseSize ba"
  using assms by (simp_all add: ba_blocks_def)

lemma cur_at_block:
  assumes "ba_blocks ba" and "p < m_capacity ba"
  shows "cur_at ba p = Some (p div m_baseSize ba)" and "p div m_baseSize ba < length (m_nodes ba)"
  using assms by (simp_all add: cur_at_def ba_blocks_def block_inside)

lemma deref_cur_at:
  assumes "ba_blocks ba" and "p < m_capacity ba"
  shows "deref_node ba (cur_at ba p) = Inr (m_nodes ba ! (p div m_baseSize ba))"
  using cur_at_block [OF assms] by (simp add: deref_node_def)

text \<open>The cursor after \<open>k\<close> bytes that stay inside the current block.\<close>

lemma cur_at_advance:
  assumes "ba_blocks ba" and "p < m_capacity ba" and "p mod m_baseSize ba + k \<le> m_baseSize ba"
  shows "cur_at ba (p + k) =
    (if m_baseSize ba = p mod m_baseSize ba + k then next_node ba (p div m_baseSize ba)
     else Some (p div m_baseSize ba))"
proof -
  let ?b = "m_baseSize ba" and ?n = "length (m_nodes ba)"
  have b: "0 < ?b" and cap: "m_capacity ba = ?b * ?n"
    using assms(1) by (simp_all add: ba_blocks_def)
  have div: "(p + k) div ?b = (if p mod ?b + k = ?b then Suc (p div ?b) else p div ?b)"
    using b assms(3) by (rule block_step)
  have lt: "(p + k < m_capacity ba) = ((p + k) div ?b < ?n)"
    using b cap by (simp add: div_less_iff_less_mult mult.commute)
  show ?thesis
    using cur_at_block(2) [OF assms(1,2)]
    by (auto simp: cur_at_def lt div next_node_def eq_commute [of ?b])
qed

lemma ba_new_wf: "0 < base \<Longrightarrow> ba_wf (ba_new base fresh)"
  by (simp add: ba_wf_def ba_layout_def ba_blocks_def ba_new_def new_node_def cur_at_def)

lemma ba_new_data [simp]: "ba_data (ba_new base fresh) = []"
  by (simp add: ba_data_def ba_new_def)

lemma ba_new_sel [simp]:
  "m_baseSize (ba_new base fresh) = base" "m_position (ba_new base fresh) = 0"
  "m_size (ba_new base fresh) = 0" "m_capacity (ba_new base fresh) = base"
  by (simp_all add: ba_new_def)

text \<open>A buffer whose data is not a whole number of blocks has room after its data.\<close>

lemma ba_wf_slack:
  assumes "ba_wf ba" and "m_size ba mod m_baseSize ba \<noteq> 0"
  shows "m_size ba < m_capacity ba"
proof -
  have "m_capacity ba mod m_baseSize ba = 0" "m_size ba \<le> m_capacity ba"
    using assms(1) by (simp_all add: ba_wf_def ba_layout_def ba_blocks_def)
  with assms(2) show ?thesis by (metis le_neq_implies_less)
qed

section \<open>Capacity\<close>

lemma append_nodes_frame:
  "\<exists>new. append_nodes k ba = ba\<lparr>m_nodes := m_nodes ba @ new, m_news := m_news ba + k,
      m_capacity := m_capacity ba + m_baseSize ba * k\<rparr> \<and> length new = k
    \<and> (\<forall>n\<in>set new. n_size n = m_baseSize ba \<and> length (n_ptr n) = m_baseSize ba)"
proof (induction k arbitrary: ba)
  case 0
  then show ?case by simp
next
  case (Suc k)
  let ?nd = "new_node (m_fresh ba (m_news ba)) (m_baseSize ba)"
  let ?ba = "ba\<lparr>m_nodes := m_nodes ba @ [?nd], m_news := Suc (m_news ba),
    m_capacity := m_capacity ba + m_baseSize ba\<rparr>"
  obtain new where "append_nodes k ?ba = ?ba\<lparr>m_nodes := m_nodes ?ba @ new,
      m_news := m_news ?ba + k, m_capacity := m_capacity ?ba + m_baseSize ?ba * k\<rparr>"
    and "length new = k"
    and "\<forall>n\<in>set new. n_size n = m_baseSize ba \<and> length (n_ptr n) = m_baseSize ba"
    using Suc.IH [of ?ba] by auto
  then show ?case
    by (intro exI [of _ "?nd # new"]) (simp add: new_node_def)
qed

lemma add_capacity_spec:
  assumes "ba_layout ba"
  obtains new where
    "add_capacity n ba = Inr (ba\<lparr>m_nodes := m_nodes ba @ new, m_news := m_news ba + length new,
       m_capacity := m_capacity ba + m_baseSize ba * length new,
       m_cur := cur_at (ba\<lparr>m_capacity := m_capacity ba + m_baseSize ba * length new\<rparr>) (m_position ba)\<rparr>)"
    and "\<forall>x\<in>set new. n_size x = m_baseSize ba \<and> length (n_ptr x) = m_baseSize ba"
    and "m_position ba + n \<le> m_capacity ba + m_baseSize ba * length new"
    and "new = [] \<longleftrightarrow> m_position ba + n \<le> m_capacity ba"
proof (cases "m_position ba + n \<le> m_capacity ba")
  case True
  then show thesis
    using assms by (intro that [of "[]"]) (auto simp: add_capacity_def get_capacity_def Let_def ba_layout_def cur_at_def)
next
  case False
  let ?b = "m_baseSize ba" and ?d = "m_position ba + n - m_capacity ba"
  let ?k = "(?d + ?b - 1) div ?b"
  have b: "0 < ?b" and pos: "m_position ba \<le> m_capacity ba"
    and cap: "m_capacity ba = ?b * length (m_nodes ba)"
    using assms by (simp_all add: ba_layout_def ba_blocks_def)
  have k: "?d \<le> ?b * ?k" "0 < ?k"
    using ceil_div [OF b, of ?d] False by simp_all
  obtain new where new: "append_nodes ?k ba = ba\<lparr>m_nodes := m_nodes ba @ new,
      m_news := m_news ba + ?k, m_capacity := m_capacity ba + ?b * ?k\<rparr>" "length new = ?k"
    "\<forall>x\<in>set new. n_size x = ?b \<and> length (n_ptr x) = ?b"
    using append_nodes_frame by blast
  have gc: "get_capacity ba = m_capacity ba - m_position ba"
    using pos by (simp add: get_capacity_def)
  have rest: "n - get_capacity ba = ?d" "\<not> n \<le> get_capacity ba" "n \<noteq> 0"
    using False pos by (simp_all add: gc)
  have cur: "(if get_capacity ba = 0 then Some (length (m_nodes ba)) else m_cur ba)
      = cur_at (ba\<lparr>m_capacity := m_capacity ba + ?b * ?k\<rparr>) (m_position ba)"
  proof (cases "m_position ba = m_capacity ba")
    case True
    then show ?thesis using b k cap gc by (simp add: cur_at_def)
  next
    case False
    then show ?thesis using assms pos gc by (simp add: cur_at_def ba_layout_def)
  qed
  show thesis
  proof (rule that [of new])
    show "add_capacity n ba = Inr (ba\<lparr>m_nodes := m_nodes ba @ new, m_news := m_news ba + length new,
       m_capacity := m_capacity ba + ?b * length new,
       m_cur := cur_at (ba\<lparr>m_capacity := m_capacity ba + ?b * length new\<rparr>) (m_position ba)\<rparr>)"
      using rest new(1,2) cur b k(2)
      by (cases "get_capacity ba = 0") (simp_all add: add_capacity_def Let_def)
    show "m_position ba + n \<le> m_capacity ba + ?b * length new"
      using k(1) pos False new(2) by simp
    show "new = [] \<longleftrightarrow> m_position ba + n \<le> m_capacity ba"
      using False k(2) new(2) by (auto simp del: length_greater_0_conv)
  qed (use new(3) in simp)
qed

section \<open>Writing\<close>

lemma memcpy_to_spec:
  assumes "ba_blocks ba" and "c < length (m_nodes ba)" and "i + length bs \<le> m_baseSize ba"
  obtains nodes where "memcpy_to c i bs ba = Inr (ba\<lparr>m_nodes := nodes\<rparr>)"
    and "ba_blocks (ba\<lparr>m_nodes := nodes\<rparr>)" and "length nodes = length (m_nodes ba)"
    and "ba_flat (ba\<lparr>m_nodes := nodes\<rparr>) = overlay (c * m_baseSize ba + i) bs (ba_flat ba)"
proof -
  let ?nd = "m_nodes ba ! c"
  let ?nodes = "(m_nodes ba)[c := ?nd\<lparr>n_ptr := overlay i bs (n_ptr ?nd)\<rparr>]"
  have nd: "n_size ?nd = m_baseSize ba" "length (n_ptr ?nd) = m_baseSize ba"
    using assms(1,2) by (simp_all add: ba_blocks_node)
  have "memcpy_to c i bs ba = Inr (ba\<lparr>m_nodes := ?nodes\<rparr>)"
    using assms nd by (simp add: memcpy_to_def deref_node_def)
  moreover have "ba_blocks (ba\<lparr>m_nodes := ?nodes\<rparr>)"
    using assms nd by (auto simp: ba_blocks_def dest!: subsetD [OF set_update_subset_insert])
  moreover have "ba_flat (ba\<lparr>m_nodes := ?nodes\<rparr>) = overlay (c * m_baseSize ba + i) bs (ba_flat ba)"
    using concat_update_overlay [of "map n_ptr (m_nodes ba)" "m_baseSize ba" c i bs] assms
    by (simp add: ba_flat_def map_update ba_blocks_def)
  ultimately show thesis by (intro that [of ?nodes]) simp_all
qed

lemma write_loop_spec:
  assumes "ba_layout ba" and "bs \<noteq> []" and "m_position ba + length bs \<le> m_capacity ba"
  shows "\<exists>nodes. write_loop (m_position ba mod m_baseSize ba)
        (m_baseSize ba - m_position ba mod m_baseSize ba) bs ba
      = Inr (ba\<lparr>m_nodes := nodes, m_position := m_position ba + length bs,
               m_cur := cur_at ba (m_position ba + length bs)\<rparr>)
    \<and> ba_blocks (ba\<lparr>m_nodes := nodes\<rparr>) \<and> length nodes = length (m_nodes ba)
    \<and> ba_flat (ba\<lparr>m_nodes := nodes\<rparr>) = overlay (m_position ba) bs (ba_flat ba)"
  using assms
proof (induction "length bs" arbitrary: bs ba rule: less_induct)
  case less
  let ?b = "m_baseSize ba" and ?p = "m_position ba"
  let ?c = "?p div ?b" and ?i = "?p mod ?b"
  have bl: "ba_blocks ba" and b: "0 < ?b"
    using less.prems(1) by (simp_all add: ba_layout_def ba_blocks_def)
  have pc: "?p < m_capacity ba"
    using less.prems(2,3) by (cases bs) simp_all
  have c: "m_cur ba = Some ?c" "?c < length (m_nodes ba)"
    using less.prems(1) cur_at_block [OF bl pc] by (simp_all add: ba_layout_def)
  have i: "?i < ?b" using b by simp
  have ci: "?c * ?b + ?i = ?p" by (simp add: div_mult_mod_eq)
  note unfold_loop = write_loop.simps [of ?i "?b - ?i" bs ba]
  show ?case
  proof (cases "length bs \<le> ?b - ?i")
    case True
    then have fits: "?i + length bs \<le> ?b" using i by linarith
    obtain nodes where nodes: "memcpy_to ?c ?i bs ba = Inr (ba\<lparr>m_nodes := nodes\<rparr>)"
        "ba_blocks (ba\<lparr>m_nodes := nodes\<rparr>)" "length nodes = length (m_nodes ba)"
        "ba_flat (ba\<lparr>m_nodes := nodes\<rparr>) = overlay ?p bs (ba_flat ba)"
      using memcpy_to_spec [OF bl c(2) fits] ci by metis
    have "cur_at ba (?p + length bs) = (if ?b = ?i + length bs then next_node (ba\<lparr>m_nodes := nodes\<rparr>) ?c else Some ?c)"
      using cur_at_advance [OF bl pc fits] nodes(3) by (simp add: next_node_def)
    then show ?thesis
      using True nodes c bl less.prems(2)
      by (intro exI [of _ nodes]) (simp add: unfold_loop ba_blocks_node)
  next
    case False
    let ?k = "?b - ?i"
    have tk: "length (take ?k bs) = ?k" using False by simp
    then have fits: "?i + length (take ?k bs) \<le> ?b" using i by simp
    obtain nodes where nodes: "memcpy_to ?c ?i (take ?k bs) ba = Inr (ba\<lparr>m_nodes := nodes\<rparr>)"
        "ba_blocks (ba\<lparr>m_nodes := nodes\<rparr>)" "length nodes = length (m_nodes ba)"
        "ba_flat (ba\<lparr>m_nodes := nodes\<rparr>) = overlay ?p (take ?k bs) (ba_flat ba)"
      using memcpy_to_spec [OF bl c(2) fits] ci by metis
    have pk: "?p + ?k = Suc ?c * ?b" unfolding mult_Suc using ci i by linarith
    have room: "?p + ?k < m_capacity ba" using False less.prems(3) by simp
    have nxt: "next_node (ba\<lparr>m_nodes := nodes\<rparr>) ?c = Some (Suc ?c)" "Suc ?c < length nodes"
    proof -
      have "(?p + ?k) div ?b < length (m_nodes ba)"
        using cur_at_block(2) [OF bl room] .
      then show "Suc ?c < length nodes" using b nodes(3) by (simp add: pk)
      then show "next_node (ba\<lparr>m_nodes := nodes\<rparr>) ?c = Some (Suc ?c)"
        by (simp add: next_node_def)
    qed
    let ?ba = "ba\<lparr>m_nodes := nodes, m_cur := Some (Suc ?c), m_position := ?p + ?k\<rparr>"
    have md: "(?p + ?k) mod ?b = 0" "(?p + ?k) div ?b = Suc ?c" using b by (simp_all add: pk)
    have lay: "ba_layout ?ba"
      using nodes(2) room md nxt by (simp add: ba_layout_def ba_blocks_def cur_at_def)
    have "\<exists>nodes'. write_loop 0 ?b (drop ?k bs) ?ba
      = Inr (?ba\<lparr>m_nodes := nodes', m_position := m_position ?ba + length (drop ?k bs),
               m_cur := cur_at ?ba (m_position ?ba + length (drop ?k bs))\<rparr>)
    \<and> ba_blocks (?ba\<lparr>m_nodes := nodes'\<rparr>) \<and> length nodes' = length (m_nodes ?ba)
    \<and> ba_flat (?ba\<lparr>m_nodes := nodes'\<rparr>) = overlay (m_position ?ba) (drop ?k bs) (ba_flat ?ba)"
      using less.hyps [of "drop ?k bs" ?ba] lay False i less.prems(3) md(1) by simp
    then obtain nodes' where nodes': "write_loop 0 ?b (drop ?k bs) ?ba
        = Inr (ba\<lparr>m_nodes := nodes', m_position := ?p + length bs, m_cur := cur_at ba (?p + length bs)\<rparr>)"
      "ba_blocks (ba\<lparr>m_nodes := nodes'\<rparr>)" "length nodes' = length (m_nodes ba)"
      "ba_flat (ba\<lparr>m_nodes := nodes'\<rparr>) = overlay (?p + ?k) (drop ?k bs) (overlay ?p (take ?k bs) (ba_flat ba))"
      using False nodes(3,4) by auto
    have sz: "n_size (nodes ! Suc ?c) = ?b"
      using ba_blocks_node(1) [OF nodes(2), of "Suc ?c"] nxt by simp
    have "overlay (?p + ?k) (drop ?k bs) (overlay ?p (take ?k bs) (ba_flat ba)) = overlay ?p bs (ba_flat ba)"
      using overlay_overlay [of ?p "take ?k bs" "drop ?k bs" "ba_flat ba"] less.prems(3) tk False
      by (simp add: ba_blocks_length_flat [OF bl])
    then show ?thesis
      using nodes' nodes(1) nxt sz False c less.prems(2)
      by (intro exI [of _ nodes']) (simp add: unfold_loop)
  qed
qed

lemma ba_data_overlay:
  assumes "ba_wf ba" and "m_position ba + length bs \<le> length (ba_flat ba @ new)"
  shows "take (max (m_size ba) (m_position ba + length bs)) (overlay (m_position ba) bs (ba_flat ba @ new))
       = overlay (m_position ba) bs (ba_data ba)"
proof -
  let ?p = "m_position ba" and ?s = "m_size ba" and ?f = "ba_flat ba"
  have len: "length ?f = m_capacity ba" and ps: "?p \<le> ?s" "?s \<le> length ?f"
    using assms(1) by (simp_all add: ba_wf_def ba_layout_def ba_blocks_length_flat)
  show ?thesis
  proof (cases "?p + length bs \<le> ?s")
    case True
    then have "take ?s (overlay ?p bs (?f @ new)) = overlay ?p bs (take ?s (?f @ new))"
      using ps by (intro take_overlay_after) simp_all
    with True ps show ?thesis by (simp add: ba_data_def max_def)
  next
    case False
    then have "overlay ?p bs (take ?s ?f) = take ?p ?f @ bs"
      using ps by (simp add: overlay_def min_absorb1)
    moreover have "take (?p + length bs) (overlay ?p bs (?f @ new)) = take ?p ?f @ bs"
      using ps by (simp add: overlay_def min_absorb1)
    ultimately show ?thesis using False by (simp add: ba_data_def max_def)
  qed
qed

theorem ba_write_spec:
  assumes "ba_wf ba"
  obtains ba' where "ba_write bs ba = Inr ba'" and "ba_wf ba'"
    and "ba_data ba' = overlay (m_position ba) bs (ba_data ba)"
    and "m_position ba' = m_position ba + length bs"
    and "m_size ba' = max (m_size ba) (m_position ba + length bs)"
    and "m_baseSize ba' = m_baseSize ba"
proof (cases "bs = []")
  case True
  then show thesis
    using assms by (intro that [of ba]) (simp_all add: ba_write_def ba_wf_def)
next
  case False
  let ?p = "m_position ba" and ?b = "m_baseSize ba"
  have lay: "ba_layout ba" and bl: "ba_blocks ba" and b: "0 < ?b"
    using assms by (simp_all add: ba_wf_def ba_layout_def ba_blocks_def)
  obtain new where new:
    "add_capacity (length bs) ba = Inr (ba\<lparr>m_nodes := m_nodes ba @ new, m_news := m_news ba + length new,
       m_capacity := m_capacity ba + ?b * length new,
       m_cur := cur_at (ba\<lparr>m_capacity := m_capacity ba + ?b * length new\<rparr>) ?p\<rparr>)"
    "\<forall>x\<in>set new. n_size x = ?b \<and> length (n_ptr x) = ?b"
    "?p + length bs \<le> m_capacity ba + ?b * length new"
    using add_capacity_spec [OF lay] by metis
  define ba1 where "ba1 = ba\<lparr>m_nodes := m_nodes ba @ new, m_news := m_news ba + length new,
       m_capacity := m_capacity ba + ?b * length new,
       m_cur := cur_at (ba\<lparr>m_capacity := m_capacity ba + ?b * length new\<rparr>) ?p\<rparr>"
  have sel: "m_baseSize ba1 = ?b" "m_position ba1 = ?p" "m_size ba1 = m_size ba"
    "m_capacity ba1 = m_capacity ba + ?b * length new" "m_cur ba1 = cur_at ba1 ?p"
    by (simp_all add: ba1_def cur_at_def)
  have bl1: "ba_blocks ba1"
    using bl new(2) by (auto simp: ba_blocks_def ba1_def algebra_simps)
  have room: "?p + length bs \<le> m_capacity ba1" using new(3) by (simp add: sel)
  then have pc: "?p < m_capacity ba1" using False by (cases bs) simp_all
  have lay1: "ba_layout ba1" using bl1 pc sel by (simp add: ba_layout_def)
  have flat1: "ba_flat ba1 = ba_flat ba @ concat (map n_ptr new)"
    by (simp add: ba_flat_def ba1_def)
  obtain nodes where nodes: "write_loop (?p mod ?b) (?b - ?p mod ?b) bs ba1
      = Inr (ba1\<lparr>m_nodes := nodes, m_position := ?p + length bs, m_cur := cur_at ba1 (?p + length bs)\<rparr>)"
    "ba_blocks (ba1\<lparr>m_nodes := nodes\<rparr>)" "length nodes = length (m_nodes ba1)"
    "ba_flat (ba1\<lparr>m_nodes := nodes\<rparr>) = overlay ?p bs (ba_flat ba1)"
    using write_loop_spec [OF lay1 False] room sel by auto
  have cur: "deref_node ba1 (m_cur ba1) = Inr (m_nodes ba1 ! (?p div ?b))"
    "n_size (m_nodes ba1 ! (?p div ?b)) = ?b"
    using deref_cur_at [OF bl1 pc] ba_blocks_node(1) [OF bl1 cur_at_block(2) [OF bl1 pc]] sel by simp_all
  let ?ba = "ba1\<lparr>m_nodes := nodes, m_position := ?p + length bs, m_cur := cur_at ba1 (?p + length bs),
    m_size := max (m_size ba) (?p + length bs)\<rparr>"
  have "ba_write bs ba = Inr ?ba"
    using False new(1) b cur nodes(1) sel
    by (auto simp: ba_write_def ba1_def [symmetric] max_def less_imp_le)
  moreover have "ba_wf ?ba"
    using nodes(2) room assms sel by (simp add: ba_wf_def ba_layout_def max_def)
  moreover have "ba_data ?ba = overlay ?p bs (ba_data ba)"
    using ba_data_overlay [OF assms, of bs "concat (map n_ptr new)"] nodes(4) room
      ba_blocks_length_flat [OF bl1]
    by (simp add: ba_data_def flat1)
  ultimately show thesis
    by (intro that [of ?ba]) (simp_all add: sel)
qed

section \<open>Moving and reading\<close>

definition ba_seek :: "nat \<Rightarrow> byte_array \<Rightarrow> byte_array" where
  "ba_seek p ba = ba\<lparr>m_cur := cur_at ba p, m_position := p\<rparr>"

lemma ba_seek_sel [simp]:
  "m_position (ba_seek p ba) = p" "m_size (ba_seek p ba) = m_size ba"
  "m_capacity (ba_seek p ba) = m_capacity ba" "m_baseSize (ba_seek p ba) = m_baseSize ba"
  "ba_data (ba_seek p ba) = ba_data ba"
  by (simp_all add: ba_seek_def ba_data_def)

lemma ba_seek_seek [simp]: "ba_seek q (ba_seek p ba) = ba_seek q ba"
  by (simp add: ba_seek_def)

lemma ba_seek_wf [simp]: "ba_wf ba \<Longrightarrow> p \<le> m_size ba \<Longrightarrow> ba_wf (ba_seek p ba)"
  by (simp add: ba_wf_def ba_layout_def ba_seek_def)

lemma ba_seek_id: "ba_wf ba \<Longrightarrow> ba_seek (m_position ba) ba = ba"
  by (simp add: ba_wf_def ba_layout_def ba_seek_def)

lemma read_loop_spec:
  assumes "ba_blocks ba" and "0 < n" and "p + n \<le> m_capacity ba"
  shows "read_loop ba (p mod m_baseSize ba) (m_baseSize ba - p mod m_baseSize ba) n (cur_at ba p) p
       = Inr (take n (drop p (ba_flat ba)), cur_at ba (p + n), p + n)"
  using assms(2,3)
proof (induction n arbitrary: p rule: less_induct)
  case (less n)
  let ?b = "m_baseSize ba" and ?c = "p div m_baseSize ba" and ?i = "p mod m_baseSize ba"
  have b: "0 < ?b" using assms(1) by (simp add: ba_blocks_def)
  have pc: "p < m_capacity ba" using less.prems by simp
  note cur = cur_at_block [OF assms(1) pc]
  note nd = ba_blocks_node [OF assms(1) cur(2)]
  have i: "?i < ?b" using b by simp
  have copy: "memcpy_from ?c ?i k ba = Inr (take k (drop p (ba_flat ba)))" if "?i + k \<le> ?b" for k
    using take_drop_concat_uniform [of "map n_ptr (m_nodes ba)" ?b ?c ?i k] assms(1) cur(2) nd that
    by (simp add: memcpy_from_def deref_node_def ba_flat_def ba_blocks_def div_mult_mod_eq)
  note unfold_loop = read_loop.simps [of ba ?i "?b - ?i" n "Some ?c" p]
  show ?case
  proof (cases "n \<le> ?b - ?i")
    case True
    then have fits: "?i + n \<le> ?b" using i by linarith
    show ?thesis
      using True cur nd less.prems copy [OF fits] cur_at_advance [OF assms(1) pc fits]
      by (simp add: unfold_loop)
  next
    case False
    let ?k = "?b - ?i"
    have room: "p + ?k < m_capacity ba" using False less.prems by simp
    have pk: "p + ?k = Suc ?c * ?b"
      unfolding mult_Suc using i div_mult_mod_eq [of p ?b] by linarith
    have md: "(p + ?k) mod ?b = 0" "(p + ?k) div ?b = Suc ?c" using b by (simp_all add: pk)
    note cur' = cur_at_block [OF assms(1) room]
    have "read_loop ba 0 ?b (n - ?k) (Some (Suc ?c)) (p + ?k)
        = Inr (take (n - ?k) (drop (p + ?k) (ba_flat ba)), cur_at ba (p + n), p + n)"
      using less.IH [of "n - ?k" "p + ?k"] False i less.prems cur'(1) md by simp
    moreover have "next_node ba ?c = Some (Suc ?c)"
      using cur'(2) by (simp add: next_node_def md)
    moreover have "n_size (m_nodes ba ! Suc ?c) = ?b"
      using ba_blocks_node(1) [OF assms(1), of "Suc ?c"] cur'(2) by (simp add: md)
    moreover have "take n (drop p (ba_flat ba))
        = take ?k (drop p (ba_flat ba)) @ take (n - ?k) (drop (p + ?k) (ba_flat ba))"
      using False by (intro take_take_drop_split) simp
    ultimately show ?thesis
      using False cur copy [of ?k] i less.prems by (simp add: unfold_loop)
  qed
qed

lemma ba_data_read:
  "p + n \<le> m_size ba \<Longrightarrow> take n (drop p (ba_flat ba)) = take n (drop p (ba_data ba))"
  by (simp add: ba_data_def drop_take min_absorb1)

theorem ba_read_spec:
  assumes "ba_wf ba"
  shows "ba_read n ba =
    (if m_size ba < m_position ba + n then Inl OutOfRange
     else if m_position ba = m_capacity ba then Inl NullDeref
     else Inr (take n (drop (m_position ba) (ba_data ba)), ba_seek (m_position ba + n) ba))"
proof -
  let ?p = "m_position ba"
  have wf: "?p \<le> m_size ba" "m_size ba \<le> m_capacity ba" "ba_blocks ba" "m_cur ba = cur_at ba ?p"
    "m_baseSize ba \<noteq> 0"
    using assms by (simp_all add: ba_wf_def ba_layout_def ba_blocks_def)
  have range: "get_read_size ba < n \<longleftrightarrow> m_size ba < ?p + n"
    using wf(1) by (auto simp: get_read_size_def)
  show ?thesis
  proof (cases "m_size ba < ?p + n \<or> ?p = m_capacity ba")
    case True
    then show ?thesis
      using wf range by (auto simp: ba_read_def deref_node_def cur_at_def)
  next
    case False
    then have pc: "?p < m_capacity ba" using wf by simp
    have nd: "n_size (m_nodes ba ! (?p div m_baseSize ba)) = m_baseSize ba"
      using ba_blocks_node(1) [OF wf(3) cur_at_block(2) [OF wf(3) pc]] .
    have loop: "read_loop ba (?p mod m_baseSize ba) (m_baseSize ba - ?p mod m_baseSize ba) n (cur_at ba ?p) ?p
       = Inr (take n (drop ?p (ba_flat ba)), cur_at ba (?p + n), ?p + n)"
    proof (cases "n = 0")
      case True
      then show ?thesis by (simp add: read_loop.simps)
    next
      case n: False
      then show ?thesis using False wf by (intro read_loop_spec) simp_all
    qed
    then show ?thesis
      using False wf range nd deref_cur_at [OF wf(3) pc] ba_data_read [of ?p n ba]
      by (simp add: ba_read_def Let_def ba_seek_def)
  qed
qed

lemma seek_loop_spec:
  assumes "ba_blocks ba" and "c < length (m_nodes ba)" and "c * m_baseSize ba + v \<le> m_capacity ba"
  shows "seek_loop ba v c = Inr (cur_at ba (c * m_baseSize ba + v))"
  using assms(2,3)
proof (induction v arbitrary: c rule: less_induct)
  case (less v)
  let ?b = "m_baseSize ba"
  have b: "0 < ?b" and cap: "m_capacity ba = ?b * length (m_nodes ba)"
    using assms(1) by (simp_all add: ba_blocks_def)
  have nd: "deref_node ba (Some c) = Inr (m_nodes ba ! c)" "n_size (m_nodes ba ! c) = ?b"
    using less.prems(1) ba_blocks_node(1) [OF assms(1)] by (simp_all add: deref_node_def)
  have pc: "c * ?b < m_capacity ba"
    using b cap less.prems(1) by (simp add: mult.commute [of c])
  show ?case
  proof (cases "?b < v")
    case True
    have "?b * Suc c < ?b * length (m_nodes ba)"
      using True less.prems(2) cap by (simp add: algebra_simps)
    then have "Suc c < length (m_nodes ba)" by (simp only: nat_mult_less_cancel_disj)
    moreover from this have "seek_loop ba (v - ?b) (Suc c) = Inr (cur_at ba (Suc c * ?b + (v - ?b)))"
      using True b less.prems by (intro less.IH) simp_all
    ultimately show ?thesis
      using True nd by (simp add: seek_loop.simps [of ba v c] next_node_def algebra_simps)
  next
    case False
    have "cur_at ba (c * ?b + v) = (if v = ?b then next_node ba c else Some c)"
      using cur_at_advance [OF assms(1) pc, of v] False b by (simp add: eq_commute [of v ?b])
    then show ?thesis
      using False nd by (simp add: seek_loop.simps [of ba v c])
  qed
qed

theorem set_position_spec:
  assumes "ba_wf ba"
  shows "set_position v ba =
    (if m_capacity ba < v then Inl OutOfRange
     else Inr (ba_seek v (ba\<lparr>m_size := max (m_size ba) v\<rparr>)))"
proof -
  let ?ba = "ba\<lparr>m_position := v, m_size := max (m_size ba) v\<rparr>"
  have bl: "ba_blocks ?ba" and ne: "0 < length (m_nodes ?ba)"
    using assms by (simp_all add: ba_wf_def ba_layout_def ba_blocks_def)
  have "seek_loop ?ba v 0 = Inr (cur_at ?ba v)" if "v \<le> m_capacity ba"
    using seek_loop_spec [OF bl ne, of v] that by simp
  moreover have "(if m_size ba < v then v else m_size ba) = max (m_size ba) v"
    by (simp add: max_def)
  ultimately show ?thesis
    by (simp add: set_position_def Let_def ba_seek_def)
qed

lemma set_position_within [ba_simps]:
  "ba_wf ba \<Longrightarrow> v \<le> m_size ba \<Longrightarrow> set_position v ba = Inr (ba_seek v ba)"
  using ba_wf_bounds(2) [of ba] by (simp add: set_position_spec max_absorb1)

lemma set_position_wf:
  assumes "ba_wf ba" and "set_position v ba = Inr ba'"
  shows "ba_wf ba'"
  using assms
  by (auto simp: set_position_spec ba_wf_def ba_layout_def ba_seek_def max_def split: if_splits)

lemma ba_clear_wf: "ba_wf ba \<Longrightarrow> ba_wf (ba_clear ba) \<and> ba_data (ba_clear ba) = []"
  by (cases "m_nodes ba")
     (auto simp: ba_wf_def ba_layout_def ba_blocks_def ba_clear_def cur_at_def ba_data_def)

lemma ba_read_at_spec:
  assumes "ba_wf ba" and "0 < n" and "m_position ba + n \<le> m_size ba"
  shows "ba_read_at n (m_position ba) ba = Inr (take n (drop (m_position ba) (ba_data ba)))"
proof -
  have "m_position ba \<noteq> m_capacity ba" using assms ba_wf_bounds(2) [of ba] by simp
  then have "ba_read n ba = Inr (take n (drop (m_position ba) (ba_data ba)), ba_seek (m_position ba + n) ba)"
    using ba_read_spec [OF assms(1), of n] assms(3) by simp
  then show ?thesis
    by (auto simp: ba_read_def ba_read_at_def get_read_size_def Let_def rbind_eq_Inr_iff split: if_splits)
qed

theorem ba_to_string_spec:
  assumes "ba_wf ba"
  shows "ba_to_string ba = Inr (drop (m_position ba) (ba_data ba))"
proof -
  have le: "m_position ba \<le> m_size ba" using assms by (rule ba_wf_bounds)
  have len: "length (ba_data ba) = m_size ba" using assms by (rule ba_wf_length_data)
  show ?thesis
    using le len ba_read_at_spec [OF assms, of "m_size ba - m_position ba"]
    by (auto simp: ba_to_string_def get_read_size_def)
qed

section \<open>Scatter/gather buffers\<close>

text \<open>The bytes a list of \<^verbatim>\<open>iovec\<close>s points at.\<close>

definition iov_bytes :: "byte_array \<Rightarrow> iovec list \<Rightarrow> bytes" where
  "iov_bytes ba iovs = concat (map (\<lambda>(c, i, n). take n (drop i (n_ptr (m_nodes ba ! c)))) iovs)"

lemma iov_loop_spec:
  assumes "ba_blocks ba" and "0 < n" and "p + n \<le> m_capacity ba"
  shows "\<exists>iovs. iov_loop ba (p mod m_baseSize ba) (m_baseSize ba - p mod m_baseSize ba) n (cur_at ba p)
       = Inr iovs \<and> iov_bytes ba iovs = take n (drop p (ba_flat ba))
     \<and> (\<forall>(c, i, k) \<in> set iovs. c < length (m_nodes ba) \<and> i + k \<le> m_baseSize ba)"
  using assms(2,3)
proof (induction n arbitrary: p rule: less_induct)
  case (less n)
  let ?b = "m_baseSize ba" and ?c = "p div m_baseSize ba" and ?i = "p mod m_baseSize ba"
  have b: "0 < ?b" using assms(1) by (simp add: ba_blocks_def)
  have pc: "p < m_capacity ba" using less.prems by simp
  note cur = cur_at_block [OF assms(1) pc]
  have i: "?i < ?b" using b by simp
  have part: "take k (drop ?i (n_ptr (m_nodes ba ! ?c))) = take k (drop p (ba_flat ba))" if "?i + k \<le> ?b" for k
    using take_drop_concat_uniform [of "map n_ptr (m_nodes ba)" ?b ?c ?i k] assms(1) cur(2) that
    by (simp add: ba_flat_def ba_blocks_def div_mult_mod_eq)
  note unfold_loop = iov_loop.simps [of ba ?i "?b - ?i" n "Some ?c"]
  show ?case
  proof (cases "n \<le> ?b - ?i")
    case True
    then have fits: "?i + n \<le> ?b" using i by linarith
    with True cur less.prems part [OF fits] show ?thesis
      by (simp add: unfold_loop deref_node_def iov_bytes_def)
  next
    case False
    let ?k = "?b - ?i"
    have room: "p + ?k < m_capacity ba" using False less.prems by simp
    have pk: "p + ?k = Suc ?c * ?b"
      unfolding mult_Suc using i div_mult_mod_eq [of p ?b] by linarith
    have md: "(p + ?k) mod ?b = 0" "(p + ?k) div ?b = Suc ?c" using b by (simp_all add: pk)
    note cur' = cur_at_block [OF assms(1) room]
    have "\<exists>iovs. iov_loop ba 0 ?b (n - ?k) (Some (Suc ?c)) = Inr iovs
      \<and> iov_bytes ba iovs = take (n - ?k) (drop (p + ?k) (ba_flat ba))
      \<and> (\<forall>(c, i, k) \<in> set iovs. c < length (m_nodes ba) \<and> i + k \<le> ?b)"
      using less.IH [of "n - ?k" "p + ?k"] False i less.prems cur'(1) md by simp
    then obtain iovs where "iov_loop ba 0 ?b (n - ?k) (Some (Suc ?c)) = Inr iovs"
      "iov_bytes ba iovs = take (n - ?k) (drop (p + ?k) (ba_flat ba))"
      "\<forall>(c, i, k) \<in> set iovs. c < length (m_nodes ba) \<and> i + k \<le> ?b"
      by blast
    moreover have "next_node ba ?c = Some (Suc ?c)"
      using cur'(2) by (simp add: next_node_def md)
    moreover have "n_size (m_nodes ba ! Suc ?c) = ?b"
      using ba_blocks_node(1) [OF assms(1), of "Suc ?c"] cur'(2) by (simp add: md)
    moreover have "take n (drop p (ba_flat ba))
        = take ?k (drop p (ba_flat ba)) @ take (n - ?k) (drop (p + ?k) (ba_flat ba))"
      using False by (intro take_take_drop_split) simp
    ultimately show ?thesis
      using False cur part [of ?k] i less.prems
      by (intro exI [of _ "(?c, ?i, ?k) # iovs"]) (simp add: unfold_loop deref_node_def iov_bytes_def)
  qed
qed

theorem get_read_buffers_spec:
  assumes "ba_wf ba"
  shows "\<exists>iovs. get_read_buffers len ba = Inr (min len (m_size ba - m_position ba), iovs)
    \<and> iov_bytes ba iovs = take len (drop (m_position ba) (ba_data ba))
    \<and> (\<forall>(c, i, k) \<in> set iovs. c < length (m_nodes ba) \<and> i + k \<le> m_baseSize ba)"
proof -
  let ?p = "m_position ba"
  define n where "n = min len (m_size ba - ?p)"
  have wf: "?p \<le> m_size ba" "m_size ba \<le> m_capacity ba" "ba_blocks ba" "m_cur ba = cur_at ba ?p"
    "m_baseSize ba \<noteq> 0" "length (ba_data ba) = m_size ba"
    using assms by (simp_all add: ba_wf_def ba_layout_def ba_blocks_def ba_wf_length_data)
  have capped: "(if get_read_size ba < len then get_read_size ba else len) = n"
    using wf(1) by (simp add: get_read_size_def n_def)
  show ?thesis
  proof (cases "n = 0")
    case True
    then have "get_read_buffers len ba = Inr (n, [])" by (simp add: get_read_buffers_def capped)
    moreover have "take len (drop ?p (ba_data ba)) = []" using True wf(6) by (auto simp: n_def)
    ultimately show ?thesis using True n_def by (intro exI [of _ "[]"]) (simp add: iov_bytes_def)
  next
    case False
    then have pc: "?p < m_capacity ba" and fit: "?p + n \<le> m_size ba" using wf by (auto simp: n_def)
    obtain iovs where "iov_loop ba (?p mod m_baseSize ba) (m_baseSize ba - ?p mod m_baseSize ba) n (cur_at ba ?p)
       = Inr iovs" "iov_bytes ba iovs = take n (drop ?p (ba_flat ba))"
       "\<forall>(c, i, k) \<in> set iovs. c < length (m_nodes ba) \<and> i + k \<le> m_baseSize ba"
      using iov_loop_spec [OF wf(3), of n ?p] False fit wf(2) by fastforce
    moreover have "n_size (m_nodes ba ! (?p div m_baseSize ba)) = m_baseSize ba"
      using ba_blocks_node(1) [OF wf(3) cur_at_block(2) [OF wf(3) pc]] .
    moreover have "take n (drop ?p (ba_flat ba)) = take len (drop ?p (ba_data ba))"
      using ba_data_read [OF fit] wf(6) by (simp add: n_def min_def)
    ultimately show ?thesis
      using False wf deref_cur_at [OF wf(3) pc]
      by (intro exI [of _ iovs]) (simp add: get_read_buffers_def capped Let_def flip: n_def)
  qed
qed

end
