(* ===== verification/Byte_Array_IO.thy ===== *)
theory Byte_Array_IO
  imports Byte_Array_Spec
begin

text \<open>
  The remaining operations of \<^verbatim>\<open>src/core/byte_array.cc\<close> against the abstract contents: buffers at
  a position, buffers to write into, files. Then the states a byte array can be in (a step relation
  over its operations) and the properties of the component.
\<close>

section \<open>Writing past the end and files\<close>

lemma overlay_twice:
  assumes "p \<le> length xs"
  shows "overlay (p + length ys) zs (overlay p ys xs) = overlay p (ys @ zs) xs"
  using assms by (simp add: overlay_def min_absorb2 ac_simps)

lemma read_file_loop_spec:
  assumes "ba_wf ba" and "0 < base"
  shows "\<exists>ba'. read_file_loop base fs ba = Inr ba' \<and> ba_wf ba'
     \<and> ba_data ba' = overlay (m_position ba) fs (ba_data ba)
     \<and> m_position ba' = m_position ba + length fs \<and> m_baseSize ba' = m_baseSize ba"
  using assms
proof (induction base fs ba rule: read_file_loop.induct)
  case (1 base fs ba)
  obtain ba1 where w: "ba_write (take base fs) ba = Inr ba1" and ba1: "ba_wf ba1"
    "ba_data ba1 = overlay (m_position ba) (take base fs) (ba_data ba)"
    "m_position ba1 = m_position ba + length (take base fs)" "m_baseSize ba1 = m_baseSize ba"
    using ba_write_spec [OF 1(2), of "take base fs"] by metis
  show ?case
  proof (cases "length fs < base")
    case True
    with w ba1 1(3) show ?thesis by (simp add: read_file_loop.simps [of base fs])
  next
    case False
    have p: "m_position ba \<le> length (ba_data ba)"
      using ba_wf_bounds(1) [OF 1(2)] ba_wf_length_data [OF 1(2)] by simp
    obtain ba' where "read_file_loop base (drop base fs) ba1 = Inr ba'" "ba_wf ba'"
      "ba_data ba' = overlay (m_position ba1) (drop base fs) (ba_data ba1)"
      "m_position ba' = m_position ba1 + length (drop base fs)" "m_baseSize ba' = m_baseSize ba1"
      using 1(1) [OF _ w False ba1(1)] 1(3) by blast
    with w ba1 1(3) False overlay_twice [OF p, of "take base fs" "drop base fs"] show ?thesis
      by (simp add: read_file_loop.simps [of base fs] min_def)
  qed
qed

text \<open>One iteration of the loop of \<^verbatim>\<open>writeToFile\<close>, over natural numbers.\<close>

lemma write_file_step:
  fixes p :: nat
  assumes "ba_blocks ba" and "0 < n" and "c < length (m_nodes ba)"
  defines "i \<equiv> p mod m_baseSize ba" and "m \<equiv> min (m_baseSize ba) n"
  shows "write_file_loop ba (Some c) (int p) (int n) =
    (if m < i then Inl MemoryOverrun
     else rbind (write_file_loop ba (next_node ba c) (int (p + (m - i))) (int (n - (m - i))))
       (\<lambda>rest. Inr (take (m - i) (drop i (n_ptr (m_nodes ba ! c))) @ rest)))"
proof -
  have b: "0 < m_baseSize ba" using assms(1) by (simp add: ba_blocks_def)
  have "(if int (m_baseSize ba) < int n then int (m_baseSize ba) else int n) = int m"
    by (simp add: m_def min_def)
  moreover have "int p mod int (m_baseSize ba) = int i"
    by (simp add: i_def zmod_int)
  moreover have mn: "m \<le> n" "m \<le> m_baseSize ba" by (simp_all add: m_def)
  ultimately have body: "write_file_loop ba (Some c) (int p) (int n) =
    (if int m - int i < 0 \<or> int (m_baseSize ba) < int m then Inl MemoryOverrun
     else rbind (write_file_loop ba (next_node ba c) (int p + (int m - int i)) (int n - (int m - int i)))
       (\<lambda>rest. Inr (take (nat (int m - int i)) (drop i (n_ptr (m_nodes ba ! c))) @ rest)))"
    using assms(2,3) b ba_blocks_node(2) [OF assms(1,3)]
    by (subst write_file_loop.simps) (simp add: Let_def deref_node_def)
  show ?thesis
  proof (cases "m < i")
    case False
    then obtain k where "m = i + k" by (metis le_iff_add not_less)
    then show ?thesis using mn by (simp add: body of_nat_diff)
  qed (simp add: body)
qed

lemma write_file_loop_aligned:
  assumes "ba_blocks ba" and "p mod m_baseSize ba = 0" and "p + n \<le> m_capacity ba"
  shows "write_file_loop ba (cur_at ba p) (int p) (int n) = Inr (take n (drop p (ba_flat ba)))"
  using assms(2,3)
proof (induction n arbitrary: p rule: less_induct)
  case (less n)
  let ?b = "m_baseSize ba"
  have b: "0 < ?b" using assms(1) by (simp add: ba_blocks_def)
  show ?case
  proof (cases "n = 0")
    case False
    define k where "k = min ?b n"
    have k: "0 < k" "k \<le> n" "k \<le> ?b" using False b by (simp_all add: k_def)
    have pc: "p < m_capacity ba" using less.prems(2) False by simp
    note cur = cur_at_block [OF assms(1) pc]
    have part: "take k (n_ptr (m_nodes ba ! (p div ?b))) = take k (drop p (ba_flat ba))"
      using take_drop_concat_uniform [of "map n_ptr (m_nodes ba)" ?b "p div ?b" 0 k] assms(1) cur(2) k
        less.prems(1) div_mult_mod_eq [of p ?b] by (simp add: ba_flat_def ba_blocks_def)
    have rest: "write_file_loop ba (next_node ba (p div ?b)) (int (p + k)) (int (n - k))
        = Inr (take (n - k) (drop (p + k) (ba_flat ba)))"
    proof (cases "n - k = 0")
      case True
      then show ?thesis using k by (simp add: write_file_loop.simps)
    next
      case more: False
      then have kb: "k = ?b" by (simp add: k_def min_def split: if_splits)
      have "cur_at ba (p + k) = next_node ba (p div ?b)"
        using cur_at_advance [OF assms(1) pc, of k] less.prems(1) kb by simp
      then show ?thesis using less.IH [of "n - k" "p + k"] less.prems k kb by simp
    qed
    show ?thesis
      using write_file_step [OF assms(1) _ cur(2), of n p] False rest part less.prems(1)
        take_take_drop_split [OF k(2), of p "ba_flat ba"]
      by (simp add: cur(1) flip: k_def)
  qed (simp add: write_file_loop.simps)
qed

text \<open>A first partial block, when the data reaches its end.\<close>

lemma write_to_file_whole:
  assumes "ba_wf ba" and "m_position ba mod m_baseSize ba = 0 \<or> m_baseSize ba \<le> m_size ba - m_position ba"
  shows "write_to_file True ba = Inr (True, drop (m_position ba) (ba_data ba))"
proof -
  let ?p = "m_position ba" and ?b = "m_baseSize ba" and ?n = "m_size ba - m_position ba"
  have wf: "?p \<le> m_size ba" "m_size ba \<le> m_capacity ba" "ba_blocks ba" "m_cur ba = cur_at ba ?p" "0 < ?b"
    using assms by (simp_all add: ba_wf_def ba_layout_def ba_blocks_def)
  have all: "take ?n (drop ?p (ba_flat ba)) = drop ?p (ba_data ba)"
    using wf(1) by (simp add: ba_data_def drop_take)
  have "write_file_loop ba (cur_at ba ?p) (int ?p) (int ?n) = Inr (take ?n (drop ?p (ba_flat ba)))"
  proof (cases "?p mod ?b = 0")
    case True
    then show ?thesis using write_file_loop_aligned [OF wf(3), of ?p ?n] wf by simp
  next
    case False
    define k where "k = ?b - ?p mod ?b"
    have i: "?p mod ?b < ?b" using wf(5) by simp
    have n: "?b \<le> ?n" "0 < ?n" using assms(2) False wf(5) by linarith+
    have k: "k < ?b" "k \<le> ?n" "?p mod ?b + k = ?b" using i n False by (simp_all add: k_def)
    have pc: "?p < m_capacity ba" using wf n by linarith
    note cur = cur_at_block [OF wf(3) pc]
    have part: "take k (drop (?p mod ?b) (n_ptr (m_nodes ba ! (?p div ?b)))) = take k (drop ?p (ba_flat ba))"
      using take_drop_concat_uniform [of "map n_ptr (m_nodes ba)" ?b "?p div ?b" "?p mod ?b" k] wf(3) cur(2) k
      by (simp add: ba_flat_def ba_blocks_def)
    have pk: "(?p + k) mod ?b = 0" using k(3) by (metis mod_add_left_eq mod_self)
    have rest: "write_file_loop ba (next_node ba (?p div ?b)) (int (?p + k)) (int (?n - k))
        = Inr (take (?n - k) (drop (?p + k) (ba_flat ba)))"
      using write_file_loop_aligned [OF wf(3) pk, of "?n - k"] k wf cur_at_advance [OF wf(3) pc, of k] by simp
    have "min ?b ?n = ?b" using n by simp
    then show ?thesis
      using write_file_step [OF wf(3) n(2) cur(2), of ?p] rest part i
        take_take_drop_split [OF k(2), of ?p "ba_flat ba"]
      by (simp only: cur(1) flip: k_def) (simp del: of_nat_add of_nat_diff)
  qed
  then show ?thesis
    using wf all by (simp add: write_to_file_def get_read_size_def)
qed

text \<open>
  From inside a block with less than a block left it never succeeds: the length handed to the stream is negative,
  at once or in the next block, or the loop runs past the last block.
\<close>

lemma write_file_loop_None: "0 < n \<Longrightarrow> ba_blocks ba \<Longrightarrow> write_file_loop ba None p (int n) = Inl NullDeref"
  by (subst write_file_loop.simps) (simp add: ba_blocks_def deref_node_def)

lemma write_file_loop_negative:
  assumes "ba_blocks ba" and "0 < n" and "n < p mod m_baseSize ba" and "c < length (m_nodes ba)"
  shows "write_file_loop ba (Some c) (int p) (int n) = Inl MemoryOverrun"
proof -
  have "min (m_baseSize ba) n < p mod m_baseSize ba" using assms(3) by simp
  then show ?thesis using write_file_step [OF assms(1,2,4), of p] by simp
qed

lemma write_file_loop_stuck:
  assumes "ba_blocks ba" and "0 < n" and "p mod m_baseSize ba = n" and "c < length (m_nodes ba)"
  shows "write_file_loop ba (Some c) (int p) (int n) = Inl NullDeref"
  using assms(4)
proof (induction "length (m_nodes ba) - c" arbitrary: c rule: less_induct)
  case less
  have "n < m_baseSize ba" using assms(1,3) by (auto simp: ba_blocks_def)
  then have "write_file_loop ba (Some c) (int p) (int n) = rbind (write_file_loop ba (next_node ba c) (int p) (int n)) Inr"
    using write_file_step [OF assms(1,2) less.prems, of p] assms(3) by (simp add: min_def)
  moreover have "write_file_loop ba (next_node ba c) (int p) (int n) = Inl NullDeref"
  proof (cases "Suc c < length (m_nodes ba)")
    case True
    then show ?thesis using less.hyps [of "Suc c"] less.prems by (simp add: next_node_def)
  qed (simp add: next_node_def write_file_loop_None assms(1,2))
  ultimately show ?case by simp
qed

lemma write_to_file_partial:
  assumes "ba_wf ba" and "m_position ba mod m_baseSize ba \<noteq> 0"
    and "0 < m_size ba - m_position ba" and "m_size ba - m_position ba < m_baseSize ba"
  shows "write_to_file True ba = Inl MemoryOverrun \<or> write_to_file True ba = Inl NullDeref"
proof -
  define p where "p = m_position ba"
  define n where "n = m_size ba - m_position ba"
  let ?b = "m_baseSize ba" and ?c = "p div m_baseSize ba"
  have wf: "p \<le> m_size ba" "m_size ba \<le> m_capacity ba" "ba_blocks ba" "m_cur ba = cur_at ba p"
    using assms by (simp_all add: ba_wf_def ba_layout_def p_def)
  have n: "0 < n" "n < ?b" and i: "p mod ?b \<noteq> 0" using assms by (simp_all add: n_def p_def)
  have pc: "p < m_capacity ba" using wf assms(3) by (simp add: p_def)
  note cur = cur_at_block [OF wf(3) pc]
  have eq: "write_to_file True ba = rbind (write_file_loop ba (Some ?c) (int p) (int n)) (\<lambda>out. Inr (True, out))"
    using wf(1,4) cur(1) by (simp add: write_to_file_def get_read_size_def n_def flip: p_def)
  consider "n < p mod ?b" | "p mod ?b = n" | "p mod ?b < n" by linarith
  then show ?thesis
  proof cases
    case 1
    then show ?thesis using write_file_loop_negative [OF wf(3) n(1) _ cur(2)] by (simp add: eq)
  next
    case 2
    then show ?thesis using write_file_loop_stuck [OF wf(3) n(1) _ cur(2)] by (simp add: eq)
  next
    case 3
    define q where "q = p + (n - p mod ?b)"
    have q: "q = ?c * ?b + n" using 3 div_mult_mod_eq [of p ?b] unfolding q_def by linarith
    then have "q mod ?b = n" using n(2) by (metis mod_less mod_mult_self3)
    moreover have "min ?b n = n" using n(2) by simp
    ultimately have step: "write_file_loop ba (Some ?c) (int p) (int n) = rbind (write_file_loop ba (next_node ba ?c) (int q) (int (p mod ?b)))
        (\<lambda>rest. Inr (take (n - p mod ?b) (drop (p mod ?b) (n_ptr (m_nodes ba ! ?c))) @ rest))"
      using write_file_step [OF wf(3) n(1) cur(2), of p] 3 by (simp add: q_def del: of_nat_add)
    show ?thesis
    proof (cases "Suc ?c < length (m_nodes ba)")
      case True
      then have "write_file_loop ba (next_node ba ?c) (int q) (int (p mod ?b)) = Inl MemoryOverrun"
        using write_file_loop_negative [OF wf(3), of "p mod ?b" q "Suc ?c"] i 3 \<open>q mod ?b = n\<close> by (simp add: next_node_def)
      then show ?thesis by (simp add: eq step)
    next
      case False
      then show ?thesis using write_file_loop_None [OF _ wf(3), of "p mod ?b"] i by (simp add: eq step next_node_def)
    qed
  qed
qed

text \<open>When \<^verbatim>\<open>writeToFile\<close> writes what is left, and what it does otherwise.\<close>

definition file_writable :: "byte_array \<Rightarrow> bool" where
  "file_writable ba \<longleftrightarrow> m_size ba \<le> m_position ba \<or> m_position ba mod m_baseSize ba = 0
     \<or> m_baseSize ba \<le> m_size ba - m_position ba"

lemma write_to_file_outcome:
  assumes "ba_wf ba"
  shows "if file_writable ba then write_to_file True ba = Inr (True, drop (m_position ba) (ba_data ba))
    else write_to_file True ba = Inl MemoryOverrun \<or> write_to_file True ba = Inl NullDeref"
proof (cases "m_size ba \<le> m_position ba")
  case True
  then have "m_position ba = m_size ba" using ba_wf_bounds(1) [OF assms] by simp
  then show ?thesis
    using ba_wf_length_data [OF assms] by (simp add: file_writable_def write_to_file_def get_read_size_def write_file_loop.simps)
next
  case False
  then show ?thesis
    using write_to_file_whole [OF assms] write_to_file_partial [OF assms] by (auto simp: file_writable_def)
qed

section \<open>Reading at a given position\<close>

text \<open>It starts in the block of the cursor, whatever the position is; it stays inside the blocks.\<close>

lemma memcpy_from_inside:
  assumes "ba_blocks ba" and "c < length (m_nodes ba)" and "i + n \<le> m_baseSize ba"
  shows "\<exists>bs. memcpy_from c i n ba = Inr bs"
  using assms ba_blocks_node [OF assms(1,2)] by (simp add: memcpy_from_def deref_node_def)

lemma read_loop_faults:
  assumes "ba_blocks ba" and "npos + ncap = m_baseSize ba" and "\<forall>c. cur = Some c \<longrightarrow> c < length (m_nodes ba)"
    and "read_loop ba npos ncap sz cur position = Inl f"
  shows "f = NullDeref"
  using assms
proof (induction ba npos ncap sz cur position rule: read_loop.induct)
  case (1 ba npos ncap sz cur position)
  show ?case
  proof (cases "sz = 0 \<or> cur = None")
    case True
    with "1.prems"(4) show ?thesis
      unfolding read_loop.simps [of ba npos ncap sz cur position] by (auto split: if_splits)
  next
    case False
    then obtain c where c: "cur = Some c" "0 < sz" "c < length (m_nodes ba)" using "1.prems"(3) by auto
    show ?thesis
    proof (cases "sz \<le> ncap")
      case True
      then have "\<exists>bs. memcpy_from c npos sz ba = Inr bs"
        using memcpy_from_inside [OF "1.prems"(1) c(3)] "1.prems"(2) by simp
      with c True "1.prems"(4) show ?thesis
        unfolding read_loop.simps [of ba npos ncap sz cur position] by (auto split: if_splits)
    next
      case more: False
      obtain xs where xs: "memcpy_from c npos ncap ba = Inr xs"
        using memcpy_from_inside [OF "1.prems"(1) c(3), of npos ncap] "1.prems"(2) by auto
      show ?thesis
      proof (cases "next_node ba c")
        case None
        with c more xs "1.prems"(4) show ?thesis
          unfolding read_loop.simps [of ba npos ncap sz cur position] by (auto split: if_splits)
      next
        case (Some d)
        then have d: "d < length (m_nodes ba)" by (auto simp: next_node_def split: if_splits)
        have "n_size (m_nodes ba ! d) = m_baseSize ba" using ba_blocks_node(1) [OF "1.prems"(1) d] .
        moreover have "read_loop ba 0 (n_size (m_nodes ba ! d)) (sz - ncap) (Some d) (position + ncap) = Inl f"
          using c more xs Some "1.prems"(4)
          unfolding read_loop.simps [of ba npos ncap sz cur position]
          by (auto simp: rbind_eq_Inl_iff split: if_splits)
        ultimately show ?thesis
          using "1.IH" [of c xs d] c more xs Some d "1.prems"(1) by auto
      qed
    qed
  qed
qed

lemma ba_read_at_faults:
  assumes "ba_wf ba" and "ba_read_at n position ba = Inl f"
  shows "f = OutOfRange \<and> usub (m_size ba) position < n \<or> f = NullDeref"
proof (cases "usub (m_size ba) position < n")
  case False
  let ?i = "position mod m_baseSize ba"
  have wf: "ba_blocks ba" "m_cur ba = cur_at ba (m_position ba)" "0 < m_baseSize ba"
    using assms(1) by (simp_all add: ba_wf_def ba_layout_def ba_blocks_def)
  show ?thesis
  proof (cases "m_position ba < m_capacity ba")
    case True
    note cur = cur_at_block [OF wf(1) True]
    have "?i + (m_baseSize ba - ?i) = m_baseSize ba" using wf(3) by (simp add: less_imp_le)
    moreover have "read_loop ba ?i (m_baseSize ba - ?i) n (m_cur ba) position = Inl f"
      using assms(2) False wf(3) deref_cur_at [OF wf(1) True] ba_blocks_node(1) [OF wf(1) cur(2)]
      by (auto simp: ba_read_at_def Let_def wf(2) rbind_eq_Inl_iff less_imp_le)
    ultimately show ?thesis using read_loop_faults [OF wf(1), of ?i "m_baseSize ba - ?i" "m_cur ba" n position f] cur wf(2) by simp
  next
    case False
    then have "m_cur ba = None" by (simp add: wf(2) cur_at_def)
    then show ?thesis using assms(2) \<open>\<not> usub (m_size ba) position < n\<close> wf(3) by (simp add: ba_read_at_def Let_def deref_node_def)
  qed
qed (use assms(2) in \<open>simp add: ba_read_at_def\<close>)

section \<open>Buffers at a position, buffers to write into\<close>

lemma nth_next_spec: "c + k < length (m_nodes ba) \<Longrightarrow> nth_next ba k (Some c) = Inr (Some (c + k))"
  by (induction k arbitrary: c) (simp_all add: deref_node_def next_node_def)

lemma iov_from:
  assumes "ba_blocks ba" and "0 < n" and "p + n \<le> m_capacity ba"
  obtains nd iovs where "deref_node ba (cur_at ba p) = Inr nd"
    and "iov_loop ba (p mod m_baseSize ba) (usub (n_size nd) (p mod m_baseSize ba)) n (cur_at ba p) = Inr iovs"
    and "iov_bytes ba iovs = take n (drop p (ba_flat ba))"
    and "\<forall>(c, i, k) \<in> set iovs. c < length (m_nodes ba) \<and> i + k \<le> m_baseSize ba"
proof -
  have pc: "p < m_capacity ba" and b: "0 < m_baseSize ba" using assms by (simp_all add: ba_blocks_def)
  have "p mod m_baseSize ba \<le> m_baseSize ba" using b by (simp add: less_imp_le)
  then have "usub (n_size (m_nodes ba ! (p div m_baseSize ba))) (p mod m_baseSize ba) = m_baseSize ba - p mod m_baseSize ba"
    using ba_blocks_node(1) [OF assms(1) cur_at_block(2) [OF assms(1) pc]] by simp
  then show thesis
    using iov_loop_spec [OF assms] deref_cur_at [OF assms(1) pc] that by auto
qed

lemma get_read_buffers_at_spec:
  assumes "ba_wf ba" and "position \<le> m_position ba"
  shows "\<exists>iovs. get_read_buffers_at len position ba = Inr (min len (m_size ba - m_position ba), iovs)
    \<and> iov_bytes ba iovs = take (min len (m_size ba - m_position ba)) (drop position (ba_data ba))"
proof -
  define n where "n = min len (m_size ba - m_position ba)"
  have wf: "m_position ba \<le> m_size ba" "m_size ba \<le> m_capacity ba" "ba_blocks ba" "0 < m_baseSize ba"
    using assms by (simp_all add: ba_wf_def ba_layout_def ba_blocks_def)
  have capped: "(if get_read_size ba < len then get_read_size ba else len) = n"
    using wf(1) by (simp add: get_read_size_def n_def)
  show ?thesis
  proof (cases "n = 0")
    case True
    then show ?thesis
      by (intro exI [of _ "[]"]) (simp add: get_read_buffers_at_def capped iov_bytes_def flip: n_def)
  next
    case False
    then have fit: "position + n \<le> m_size ba" using assms(2) by (auto simp: n_def)
    then have pc: "position < m_capacity ba" using False wf by linarith
    note cur = cur_at_block [OF wf(3) pc]
    obtain nd iovs where "deref_node ba (cur_at ba position) = Inr nd"
      "iov_loop ba (position mod m_baseSize ba) (usub (n_size nd) (position mod m_baseSize ba)) n (cur_at ba position) = Inr iovs"
      "iov_bytes ba iovs = take n (drop position (ba_flat ba))"
      "\<forall>(c, i, k) \<in> set iovs. c < length (m_nodes ba) \<and> i + k \<le> m_baseSize ba"
      by (rule iov_from [OF wf(3), of n position]) (use False fit wf(2) in simp_all)
    then show ?thesis
      using False wf(4) cur nth_next_spec [of 0 "position div m_baseSize ba" ba] ba_data_read [OF fit]
      by (intro exI [of _ iovs]) (simp add: get_read_buffers_at_def capped Let_def flip: n_def)
  qed
qed

lemma add_capacity_wf:
  assumes "ba_wf ba"
  obtains ba' where "add_capacity n ba = Inr ba'" and "ba_wf ba'" and "ba_data ba' = ba_data ba"
    and "m_position ba' = m_position ba" and "m_size ba' = m_size ba" and "m_baseSize ba' = m_baseSize ba"
    and "m_position ba + n \<le> m_capacity ba'"
proof -
  have wf: "ba_layout ba" "ba_blocks ba" "m_position ba \<le> m_size ba" "m_size ba \<le> m_capacity ba"
    using assms by (simp_all add: ba_wf_def ba_layout_def)
  obtain new where cap: "add_capacity n ba = Inr (ba\<lparr>m_nodes := m_nodes ba @ new, m_news := m_news ba + length new,
       m_capacity := m_capacity ba + m_baseSize ba * length new,
       m_cur := cur_at (ba\<lparr>m_capacity := m_capacity ba + m_baseSize ba * length new\<rparr>) (m_position ba)\<rparr>)"
    (is "_ = Inr ?ba'")
    and new: "\<forall>x\<in>set new. n_size x = m_baseSize ba \<and> length (n_ptr x) = m_baseSize ba"
    and room: "m_position ba + n \<le> m_capacity ba + m_baseSize ba * length new"
    using add_capacity_spec [OF wf(1)] by metis
  have bl: "ba_blocks ?ba'" using wf(2) new by (auto simp: ba_blocks_def distrib_left)
  have cur: "m_cur ?ba' = cur_at ?ba' (m_position ?ba')" by (simp add: cur_at_def)
  have "ba_wf ?ba'"
    unfolding ba_wf_def ba_layout_def using bl cur wf by simp
  moreover have "ba_data ?ba' = ba_data ba"
    using wf(4) ba_blocks_length_flat [OF wf(2)] by (simp add: ba_data_def ba_flat_def)
  ultimately show thesis using cap room by (intro that [of ?ba']) simp_all
qed

lemma get_write_buffers_spec:
  assumes "ba_wf ba"
  shows "\<exists>iovs ba'. get_write_buffers len ba = Inr (len, iovs, ba') \<and> ba_wf ba'
    \<and> ba_data ba' = ba_data ba \<and> m_position ba' = m_position ba \<and> m_size ba' = m_size ba
    \<and> m_position ba + len \<le> m_capacity ba'
    \<and> iov_bytes ba' iovs = take len (drop (m_position ba) (ba_flat ba'))"
proof (cases "len = 0")
  case True
  then show ?thesis
    using assms ba_wf_bounds [OF assms]
    by (intro exI [of _ "[]"] exI [of _ ba]) (simp add: get_write_buffers_def iov_bytes_def)
next
  case False
  obtain ba' where ba': "add_capacity len ba = Inr ba'" "ba_wf ba'" "ba_data ba' = ba_data ba"
    "m_position ba' = m_position ba" "m_size ba' = m_size ba" "m_position ba + len \<le> m_capacity ba'"
    using add_capacity_wf [OF assms] by metis
  then have wf: "ba_blocks ba'" "m_cur ba' = cur_at ba' (m_position ba)" "m_baseSize ba' \<noteq> 0"
    by (simp_all add: ba_wf_def ba_layout_def ba_blocks_def)
  obtain nd iovs where "deref_node ba' (cur_at ba' (m_position ba)) = Inr nd"
    "iov_loop ba' (m_position ba mod m_baseSize ba') (usub (n_size nd) (m_position ba mod m_baseSize ba')) len
       (cur_at ba' (m_position ba)) = Inr iovs"
    "iov_bytes ba' iovs = take len (drop (m_position ba) (ba_flat ba'))"
    "\<forall>(c, i, k) \<in> set iovs. c < length (m_nodes ba') \<and> i + k \<le> m_baseSize ba'"
    by (rule iov_from [OF wf(1) _ ba'(6)]) (use False in simp)
  then show ?thesis
    using False ba' wf(2,3)
    by (intro exI [of _ iovs] exI [of _ ba']) (simp add: get_write_buffers_def Let_def)
qed

section \<open>Reachable states\<close>

text \<open>
  A byte array is made by the constructor and changed by the public operations; a call that throws
  ends the run.
\<close>

inductive ba_step :: "byte_array \<Rightarrow> byte_array \<Rightarrow> bool" where
  step_write: "ba_write bs ba = Inr ba' \<Longrightarrow> ba_step ba ba'"
| step_read: "ba_read n ba = Inr (bs, ba') \<Longrightarrow> ba_step ba ba'"
| step_seek: "set_position v ba = Inr ba' \<Longrightarrow> ba_step ba ba'"
| step_clear: "ba_step ba (ba_clear ba)"
| step_grow: "get_write_buffers n ba = Inr (m, iovs, ba') \<Longrightarrow> ba_step ba ba'"
| step_load: "read_from_file fs ba = Some (Inr (b, ba')) \<Longrightarrow> ba_step ba ba'"

inductive ba_reach :: "nat \<Rightarrow> byte_array \<Rightarrow> bool" for base where
  reach_new: "ba_reach base (ba_new base fresh)"
| reach_step: "ba_reach base ba \<Longrightarrow> ba_step ba ba' \<Longrightarrow> ba_reach base ba'"

inductive_cases ba_stepE: "ba_step ba ba'"

lemma ba_read_wf: "ba_wf ba \<Longrightarrow> ba_read n ba = Inr (bs, ba') \<Longrightarrow> ba_wf ba'"
  by (auto simp: ba_read_spec split: if_splits intro!: ba_seek_wf)

lemma ba_step_wf: "ba_step ba ba' \<Longrightarrow> ba_wf ba \<Longrightarrow> ba_wf ba'"
proof (induction rule: ba_step.induct)
  case (step_write bs ba ba')
  then show ?case using ba_write_spec [of ba bs] by (metis Inr_inject)
next
  case (step_grow n ba m iovs ba')
  then show ?case using get_write_buffers_spec [of ba n] by auto
next
  case (step_load fs ba b ba')
  then show ?case
  proof (cases fs)
    case (Some str)
    then have "read_file_loop (m_baseSize ba) str ba = Inr ba'"
      using step_load ba_wf_bounds(3) [of ba] by (simp add: read_from_file_def rbind_eq_Inr_iff)
    then show ?thesis
      using read_file_loop_spec [of ba "m_baseSize ba" str] step_load ba_wf_bounds(3) [of ba] by auto
  qed (simp add: read_from_file_def)
next
  case (step_read n ba bs ba')
  then show ?case by (simp add: ba_read_wf)
next
  case (step_seek v ba ba')
  then show ?case by (simp add: set_position_wf)
next
  case (step_clear ba)
  then show ?case by (simp add: ba_clear_wf)
qed

lemma ba_reach_wf: "ba_reach base ba \<Longrightarrow> 0 < base \<Longrightarrow> ba_wf ba"
  by (induction rule: ba_reach.induct) (auto intro: ba_new_wf ba_step_wf)

section \<open>Properties\<close>

text \<open>
  C13: Every byte array the public operations can produce is well-formed: its blocks all have the
  base size, the cursor is the block of the position, position and size are within the capacity.
  In such a state writing, rendering, scatter/gather from the position or before it and loading a file never fail;
  seeking fails only past the capacity, with a range error; reading fails with a range error or, when the cursor is
  past the last block, on a null pointer, and so does reading at a position that is given. \<^verbatim>\<open>writeToFile\<close> succeeds
  exactly when nothing is left, the position is at the start of a block or a whole block is left; otherwise it
  hands the stream a negative length or dereferences a null pointer. No operation divides by zero.
\<close>

theorem ba_reachable_safe:
  assumes "ba_reach base ba" and "0 < base"
  shows "ba_wf ba \<and> (\<exists>ba'. ba_write bs ba = Inr ba') \<and> (\<exists>str. ba_to_string ba = Inr str)
    \<and> (\<exists>r. get_read_buffers n ba = Inr r) \<and> (\<exists>r. get_write_buffers n ba = Inr r)
    \<and> (p \<le> m_position ba \<longrightarrow> (\<exists>r. get_read_buffers_at n p ba = Inr r))
    \<and> (\<exists>r. read_from_file contents ba = Some (Inr r))
    \<and> (\<forall>f. set_position v ba = Inl f \<longrightarrow> f = OutOfRange \<and> m_capacity ba < v)
    \<and> (\<forall>f. ba_read n ba = Inl f \<longrightarrow>
          f = OutOfRange \<and> m_size ba < m_position ba + n \<or> f = NullDeref \<and> m_position ba = m_capacity ba)
    \<and> (\<forall>f. ba_read_at n q ba = Inl f \<longrightarrow> f = OutOfRange \<and> usub (m_size ba) q < n \<or> f = NullDeref)
    \<and> (if file_writable ba then \<exists>out. write_to_file True ba = Inr (True, out)
       else write_to_file True ba = Inl MemoryOverrun \<or> write_to_file True ba = Inl NullDeref)"
proof -
  have wf: "ba_wf ba" using assms by (rule ba_reach_wf)
  obtain ba' where 1: "ba_write bs ba = Inr ba'" using ba_write_spec [OF wf] by metis
  obtain r1 r2 where 2: "get_read_buffers n ba = Inr r1" "get_write_buffers n ba = Inr r2"
    using get_read_buffers_spec [OF wf, of n] get_write_buffers_spec [OF wf, of n] by blast
  have 3: "p \<le> m_position ba \<longrightarrow> (\<exists>r. get_read_buffers_at n p ba = Inr r)"
    using get_read_buffers_at_spec [OF wf, of p n] by blast
  have 4: "\<exists>r. read_from_file contents ba = Some (Inr r)"
  proof (cases contents)
    case (Some str)
    obtain ba' where "read_file_loop (m_baseSize ba) str ba = Inr ba'"
      using read_file_loop_spec [OF wf ba_wf_bounds(3) [OF wf], of str] by blast
    then show ?thesis using ba_wf_bounds(3) [OF wf] by (intro exI [of _ "(True, ba')"]) (simp add: read_from_file_def Some)
  next
    case None
    then show ?thesis by (intro exI [of _ "(False, ba)"]) (simp add: read_from_file_def)
  qed
  have 5: "\<forall>f. set_position v ba = Inl f \<longrightarrow> f = OutOfRange \<and> m_capacity ba < v"
    by (simp add: set_position_spec [OF wf])
  have 6: "\<forall>f. ba_read n ba = Inl f \<longrightarrow>
      f = OutOfRange \<and> m_size ba < m_position ba + n \<or> f = NullDeref \<and> m_position ba = m_capacity ba"
    by (simp add: ba_read_spec [OF wf])
  have 7: "if file_writable ba then \<exists>out. write_to_file True ba = Inr (True, out)
      else write_to_file True ba = Inl MemoryOverrun \<or> write_to_file True ba = Inl NullDeref"
    using write_to_file_outcome [OF wf] by auto
  show ?thesis using wf 1 2 3 4 5 6 7 ba_to_string_spec [OF wf] ba_read_at_faults [OF wf] by blast
qed

text \<open>Three bytes in a block of eight, and the cursor at the last of them.\<close>

definition sample_array :: byte_array where
  "sample_array = (case rbind (ba_write [1, 2, 3] (ba_new 8 (\<lambda>_ _. 0))) (set_position 2) of Inr ba \<Rightarrow> ba | Inl _ \<Rightarrow> ba_new 8 (\<lambda>_ _. 0))"

lemma sample_array_made: "rbind (ba_write [1, 2, 3] (ba_new 8 (\<lambda>_ _. 0))) (set_position 2) = Inr sample_array"
  and sample_array_sel: "m_size sample_array = 3" "m_position sample_array = 2" "m_baseSize sample_array = 8"
    "ba_data sample_array = [1, 2, 3]" "ba_wf sample_array"
proof -
  obtain ba1 where 1: "ba_write [1, 2, 3] (ba_new 8 (\<lambda>_ _. 0)) = Inr ba1" "ba_wf ba1" "ba_data ba1 = [1, 2, 3]"
    "m_size ba1 = 3" "m_baseSize ba1 = 8"
    using ba_write_spec [OF ba_new_wf [of 8 "\<lambda>_ _. 0"], of "[1, 2, 3]"] by (force simp: overlay_def)
  then have s: "sample_array = ba_seek 2 ba1" by (simp add: sample_array_def set_position_within)
  show "rbind (ba_write [1, 2, 3] (ba_new 8 (\<lambda>_ _. 0))) (set_position 2) = Inr sample_array"
    "m_size sample_array = 3" "m_position sample_array = 2" "m_baseSize sample_array = 8"
    "ba_data sample_array = [1, 2, 3]" "ba_wf sample_array"
    by (simp_all add: s 1 set_position_within)
qed

lemma sample_array_reach: "ba_reach 8 sample_array"
proof -
  obtain ba1 where "ba_write [1, 2, 3] (ba_new 8 (\<lambda>_ _. 0)) = Inr ba1" "set_position 2 ba1 = Inr sample_array"
    using sample_array_made by (auto simp: rbind_eq_Inr_iff)
  then show ?thesis by (blast intro: reach_new reach_step step_write step_seek)
qed

theorem ba_reachable_safe_witness:
  "(\<exists>ba'. ba_write [9] sample_array = Inr ba') \<and> (\<exists>r. read_from_file (Some [4, 5]) sample_array = Some (Inr r))
   \<and> (write_to_file True sample_array = Inl MemoryOverrun \<or> write_to_file True sample_array = Inl NullDeref)"
  using ba_reachable_safe [OF sample_array_reach, where bs = "[9]" and contents = "Some [4, 5]"]
  by (auto simp: file_writable_def sample_array_sel)

text \<open>
  C10: Writing replaces the bytes at the position and extends the data past its end, whatever the
  block boundaries; the position moves past what was written and the size is the larger of the two.
\<close>

theorem ba_write_overlays:
  assumes "ba_wf ba"
  shows "\<exists>ba'. ba_write bs ba = Inr ba' \<and> ba_wf ba'
    \<and> ba_data ba' = take (m_position ba) (ba_data ba) @ bs @ drop (m_position ba + length bs) (ba_data ba)
    \<and> m_position ba' = m_position ba + length bs
    \<and> m_size ba' = max (m_size ba) (m_position ba + length bs)"
  using ba_write_spec [OF assms, of bs] by (metis overlay_def)

theorem ba_write_overlays_witness:
  "\<exists>ba'. ba_write [7, 8, 9] (ba_new 2 (\<lambda>_ _. 0)) = Inr ba' \<and> ba_data ba' = [7, 8, 9]"
  using ba_write_overlays [OF ba_new_wf, of 2 "[7, 8, 9]" "\<lambda>_ _. 0"] by auto

text \<open>
  C28: The three outcomes of reading: a range error when fewer bytes are left than asked for, a null
  dereference when the cursor is past the last block (also when nothing is asked for), and
  otherwise the next bytes of the data, the position moved past them.
\<close>

theorem ba_read_outcome:
  assumes "ba_wf ba"
  shows "ba_read n ba =
    (if m_size ba < m_position ba + n then Inl OutOfRange
     else if m_position ba = m_capacity ba then Inl NullDeref
     else Inr (take n (drop (m_position ba) (ba_data ba)),
               ba\<lparr>m_cur := cur_at ba (m_position ba + n), m_position := m_position ba + n\<rparr>))"
  using ba_read_spec [OF assms] by (simp add: ba_seek_def)

theorem ba_read_outcome_witness:
  "ba_read 2 sample_array = Inl OutOfRange \<and> (\<exists>ba'. ba_read 1 sample_array = Inr ([3], ba') \<and> m_position ba' = 3)"
proof -
  have "m_capacity sample_array \<noteq> 2" using ba_wf_slack [OF sample_array_sel(5)] sample_array_sel by simp
  then show ?thesis using ba_read_outcome [OF sample_array_sel(5)] by (simp add: sample_array_sel)
qed

text \<open>
  Bytes written and then sought back to are read unchanged, wherever the blocks end, as long as
  they do not end exactly at the capacity.
\<close>

lemma ba_write_seek_read:
  assumes "ba_wf ba" and "ba_write bs ba = Inr ba1" and "m_position ba + length bs < m_capacity ba1"
  shows "rbind (set_position (m_position ba) ba1) (ba_read (length bs)) = Inr (bs, ba1)"
proof -
  obtain ba' where "ba_write bs ba = Inr ba'" "ba_wf ba'"
    "ba_data ba' = overlay (m_position ba) bs (ba_data ba)"
    "m_position ba' = m_position ba + length bs" "m_size ba' = max (m_size ba) (m_position ba + length bs)"
    using ba_write_spec [OF assms(1), of bs] by metis
  then have 1: "ba_wf ba1" "ba_data ba1 = overlay (m_position ba) bs (ba_data ba)"
    "m_position ba1 = m_position ba + length bs" "m_position ba + length bs \<le> m_size ba1"
    using assms(2) by simp_all
  have "m_position ba \<le> length (ba_data ba)"
    using assms(1) ba_wf_bounds(1) ba_wf_length_data by metis
  then have "take (length bs) (drop (m_position ba) (ba_data ba1)) = bs"
    by (simp add: 1(2) overlay_def min_absorb2)
  moreover have "ba_seek (m_position ba + length bs) ba1 = ba1"
    using ba_seek_id [OF 1(1)] 1(3) by simp
  ultimately show ?thesis
    using 1 assms(3) ba_read_spec [of "ba_seek (m_position ba) ba1" "length bs"]
    by (simp add: set_position_within)
qed

text \<open>
  C29: The three ways of looking at the remaining data agree, as far as the last of them goes: \<^verbatim>\<open>toString\<close> returns
  it, the buffers of \<^verbatim>\<open>getReadBuffers\<close> cover it inside the blocks, always; \<^verbatim>\<open>writeToFile\<close> writes it when nothing is
  left, the position is at the start of a block or a whole block is left, and in every other state fails.
\<close>

theorem ba_views_agree:
  assumes "ba_wf ba"
  shows "\<exists>rest iovs. rest = drop (m_position ba) (ba_data ba) \<and> ba_to_string ba = Inr rest
    \<and> get_read_buffers (length rest) ba = Inr (length rest, iovs) \<and> iov_bytes ba iovs = rest
    \<and> (if rest = [] \<or> m_position ba mod m_baseSize ba = 0 \<or> m_baseSize ba \<le> length rest
       then write_to_file True ba = Inr (True, rest)
       else write_to_file True ba = Inl MemoryOverrun \<or> write_to_file True ba = Inl NullDeref)"
proof -
  have n: "length (drop (m_position ba) (ba_data ba)) = m_size ba - m_position ba"
    using ba_wf_length_data [OF assms(1)] by simp
  obtain iovs where "get_read_buffers (m_size ba - m_position ba) ba = Inr (m_size ba - m_position ba, iovs)"
    "iov_bytes ba iovs = take (m_size ba - m_position ba) (drop (m_position ba) (ba_data ba))"
    using get_read_buffers_spec [OF assms(1), of "m_size ba - m_position ba"] by auto
  then show ?thesis
    using ba_to_string_spec [OF assms(1)] write_to_file_outcome [OF assms] n ba_wf_length_data [OF assms]
    by (simp add: file_writable_def)
qed

theorem ba_views_agree_witness:
  "ba_to_string sample_array = Inr [3]
   \<and> (\<exists>iovs. get_read_buffers 1 sample_array = Inr (1, iovs) \<and> iov_bytes sample_array iovs = [3])
   \<and> (\<nexists>out. write_to_file True sample_array = Inr out)
   \<and> write_to_file True (ba_seek 0 sample_array) = Inr (True, [1, 2, 3])"
  using ba_views_agree [OF sample_array_sel(5)] ba_views_agree [of "ba_seek 0 sample_array"] sample_array_sel(5)
  by (auto simp: sample_array_sel)

text \<open>The length handed to the stream is negative where fewer bytes are left than the offset in the block.\<close>

lemma write_to_file_overrun:
  assumes "ba_wf ba" and "0 < m_size ba - m_position ba"
    and "m_size ba - m_position ba < m_position ba mod m_baseSize ba"
  shows "write_to_file True ba = Inl MemoryOverrun"
proof -
  have wf: "m_position ba \<le> m_size ba" "m_size ba \<le> m_capacity ba" "ba_blocks ba" "m_cur ba = cur_at ba (m_position ba)"
    using assms by (simp_all add: ba_wf_def ba_layout_def)
  then have "m_position ba < m_capacity ba" using assms(2) by linarith
  note cur = cur_at_block [OF wf(3) this]
  show ?thesis
    using write_file_loop_negative [OF wf(3) assms(2,3) cur(2)] wf(1,4) cur(1)
    by (simp add: write_to_file_def get_read_size_def)
qed

text \<open>
  C30: \<^verbatim>\<open>readFromFile\<close> returns for every file and writes the whole of it at the position, in chunks
  of the base size.
\<close>

theorem read_from_file_loads:
  assumes "ba_wf ba"
  shows "\<exists>ba'. read_from_file (Some str) ba = Some (Inr (True, ba')) \<and> ba_wf ba'
    \<and> ba_data ba' = overlay (m_position ba) str (ba_data ba) \<and> m_position ba' = m_position ba + length str"
  using read_file_loop_spec [OF assms, of "m_baseSize ba" str] ba_wf_bounds(3) [OF assms]
  by (auto simp: read_from_file_def)

theorem read_from_file_loads_witness:
  "\<exists>ba'. read_from_file (Some [1, 2, 3]) (ba_new 2 (\<lambda>_ _. 0)) = Some (Inr (True, ba')) \<and> ba_data ba' = [1, 2, 3]"
  using read_from_file_loads [OF ba_new_wf, of 2 "[1, 2, 3]" "\<lambda>_ _. 0"] by (auto simp: overlay_def)

end
