(* ===== verification/Codec.thy ===== *)
theory Codec
  imports Byte_Array_IO
begin

text \<open>
  The typed reads and writes of \<^verbatim>\<open>src/core/byte_array.cc\<close>: fixed-width integers, zigzag and
  variable-length integers, floating point by bit pattern, and length-prefixed strings. Signed
  integers are the words of their two's complement. The interface between a writer and its reader
  is the locale \<open>codec\<close>: writing \<open>x\<close> at the end of the data appends \<open>enc x\<close>, and reading where
  \<open>enc x\<close> stands returns \<open>x\<close> and moves past it. The locale \<open>exact_codec\<close> adds the case that the data end with
  the last block, where reading nothing at all is a null dereference.
\<close>

section \<open>Contracts of writers and readers\<close>

definition appends :: "(byte_array \<Rightarrow> byte_array res) \<Rightarrow> bytes \<Rightarrow> bool" where
  "appends wr e \<longleftrightarrow> (\<forall>ba. ba_wf ba \<and> m_position ba = m_size ba \<longrightarrow>
     (\<exists>ba'. wr ba = Inr ba' \<and> ba_wf ba' \<and> ba_data ba' = ba_data ba @ e
        \<and> m_position ba' = m_size ba' \<and> m_baseSize ba' = m_baseSize ba))"

definition stands_at :: "bytes \<Rightarrow> byte_array \<Rightarrow> bool" where
  "stands_at e ba \<longleftrightarrow> take (length e) (drop (m_position ba) (ba_data ba)) = e"

definition yields :: "(byte_array \<Rightarrow> ('a \<times> byte_array) res) \<Rightarrow> bytes \<Rightarrow> 'a \<Rightarrow> bool" where
  "yields rd e x \<longleftrightarrow> (\<forall>ba. ba_wf ba \<and> stands_at e ba \<and> m_position ba + length e < m_capacity ba \<longrightarrow>
     rd ba = Inr (x, ba_seek (m_position ba + length e) ba))"

lemma stands_at_bound:
  assumes "ba_wf ba" and "stands_at e ba"
  shows "m_position ba + length e \<le> m_size ba"
proof -
  have "length (take (length e) (drop (m_position ba) (ba_data ba))) = length e"
    using assms(2) by (simp add: stands_at_def)
  then have "length e \<le> m_size ba - m_position ba"
    by (simp add: ba_wf_length_data [OF assms(1)])
  then show ?thesis using ba_wf_bounds(1) [OF assms(1)] by simp
qed

lemma stands_at_append:
  "stands_at (e1 @ e2) ba \<longleftrightarrow> stands_at e1 ba \<and> stands_at e2 (ba_seek (m_position ba + length e1) ba)"
proof -
  let ?d = "drop (m_position ba) (ba_data ba)"
  have "take (length e1 + length e2) ?d = take (length e1) ?d @ take (length e2) (drop (length e1) ?d)"
    by (rule take_add)
  moreover have "length (take (length e1) ?d) = length e1"
    if "take (length e1) ?d @ take (length e2) (drop (length e1) ?d) = e1 @ e2"
  proof -
    have "length (take (length e1) ?d) + length (take (length e2) (drop (length e1) ?d)) = length e1 + length e2"
      using arg_cong [OF that, of length] by simp
    then show ?thesis by (simp add: min_def split: if_splits)
  qed
  ultimately show ?thesis
    by (auto simp: stands_at_def add.commute append_eq_append_conv)
qed

lemma appends_write [codec_laws]: "appends (ba_write e) e"
  unfolding appends_def
proof (intro allI impI)
  fix ba assume ba: "ba_wf ba \<and> m_position ba = m_size ba"
  obtain ba' where ba': "ba_write e ba = Inr ba'" "ba_wf ba'"
    "ba_data ba' = overlay (m_position ba) e (ba_data ba)"
    "m_position ba' = m_position ba + length e" "m_size ba' = max (m_size ba) (m_position ba + length e)"
    "m_baseSize ba' = m_baseSize ba"
    using ba_write_spec [of ba e] ba by blast
  have "ba_data ba' = ba_data ba @ e"
    using ba' ba by (metis ba_wf_length_data overlay_at_end)
  with ba' ba show "\<exists>ba'. ba_write e ba = Inr ba' \<and> ba_wf ba' \<and> ba_data ba' = ba_data ba @ e
      \<and> m_position ba' = m_size ba' \<and> m_baseSize ba' = m_baseSize ba"
    by (intro exI [of _ ba']) simp
qed

lemma appends_Nil [codec_laws]: "appends Inr []"
  by (auto simp: appends_def)

lemma appends_seq [codec_laws]:
  assumes "appends w1 e1" and "appends w2 e2"
  shows "appends (\<lambda>ba. rbind (w1 ba) w2) (e1 @ e2)"
  unfolding appends_def
proof (intro allI impI)
  fix ba assume "ba_wf ba \<and> m_position ba = m_size ba"
  then obtain ba1 where 1: "w1 ba = Inr ba1" "ba_wf ba1 \<and> m_position ba1 = m_size ba1"
    "ba_data ba1 = ba_data ba @ e1" "m_baseSize ba1 = m_baseSize ba"
    using assms(1) unfolding appends_def by metis
  then obtain ba2 where "w2 ba1 = Inr ba2" "ba_wf ba2" "m_position ba2 = m_size ba2"
    "ba_data ba2 = ba_data ba1 @ e2" "m_baseSize ba2 = m_baseSize ba1"
    using assms(2) unfolding appends_def by metis
  with 1 show "\<exists>ba'. rbind (w1 ba) w2 = Inr ba' \<and> ba_wf ba' \<and> ba_data ba' = ba_data ba @ e1 @ e2
      \<and> m_position ba' = m_size ba' \<and> m_baseSize ba' = m_baseSize ba"
    by simp
qed

lemma yields_read [codec_laws]: "n = length e \<Longrightarrow> yields (ba_read n) e e"
  unfolding yields_def
proof (intro allI impI)
  fix ba assume n: "n = length e"
    and ba: "ba_wf ba \<and> stands_at e ba \<and> m_position ba + length e < m_capacity ba"
  then have "m_position ba + length e \<le> m_size ba" using stands_at_bound by blast
  with ba n show "ba_read n ba = Inr (e, ba_seek (m_position ba + length e) ba)"
    using ba_read_spec [of ba n] by (simp add: stands_at_def)
qed

lemma yields_return [codec_laws]: "yields (\<lambda>ba. Inr (x, ba)) [] x"
  by (simp add: yields_def ba_seek_id)

lemma yields_bind [codec_laws]:
  assumes "yields r1 e1 x" and "yields (r2 x) e2 y"
  shows "yields (\<lambda>ba. rbind (r1 ba) (\<lambda>(a, ba1). r2 a ba1)) (e1 @ e2) y"
  unfolding yields_def
proof (intro allI impI)
  fix ba assume ba: "ba_wf ba \<and> stands_at (e1 @ e2) ba \<and> m_position ba + length (e1 @ e2) < m_capacity ba"
  let ?ba1 = "ba_seek (m_position ba + length e1) ba"
  have s: "stands_at e1 ba" "stands_at e2 ?ba1" using ba by (simp_all add: stands_at_append)
  then have "ba_wf ?ba1" using ba stands_at_bound by simp
  then have "r2 x ?ba1 = Inr (y, ba_seek (m_position ba + length (e1 @ e2)) ba)"
    using assms(2) s(2) ba by (simp add: yields_def add.assoc)
  moreover have "r1 ba = Inr (x, ?ba1)"
    using assms(1) s(1) ba by (simp add: yields_def)
  ultimately show "rbind (r1 ba) (\<lambda>(a, ba1). r2 a ba1) = Inr (y, ba_seek (m_position ba + length (e1 @ e2)) ba)"
    by simp
qed

lemma yields_map [codec_laws]:
  assumes "yields rd e x"
  shows "yields (\<lambda>ba. rbind (rd ba) (\<lambda>(a, ba1). Inr (f a, ba1))) e (f x)"
  using yields_bind [OF assms, of "\<lambda>a ba. Inr (f a, ba)" "[]" "f x", OF yields_return] by simp

text \<open>
  What a reader does where its encoding ends with the last block. A read of no bytes there dereferences a
  null pointer, so it depends on whether the last bytes that are read are any at all: \<open>full\<close> says they are.
\<close>

definition reads_back :: "bool \<Rightarrow> (byte_array \<Rightarrow> ('a \<times> byte_array) res) \<Rightarrow> bytes \<Rightarrow> 'a \<Rightarrow> bool" where
  "reads_back full rd e x \<longleftrightarrow> (\<forall>ba. ba_wf ba \<and> stands_at e ba \<longrightarrow>
     rd ba = (if m_position ba + length e = m_capacity ba \<and> \<not> full then Inl NullDeref
              else Inr (x, ba_seek (m_position ba + length e) ba)))"

lemma reads_back_yields: "reads_back full rd e x \<Longrightarrow> yields rd e x"
  by (auto simp: reads_back_def yields_def)

lemma stands_at_capacity:
  assumes "ba_wf ba" and "stands_at e ba"
  shows "m_position ba + length e \<le> m_capacity ba"
  using stands_at_bound [OF assms] ba_wf_bounds(2) [OF assms(1)] by simp

lemma exact_read [codec_laws]: "n = length e \<Longrightarrow> reads_back (n \<noteq> 0) (ba_read n) e e"
  unfolding reads_back_def
proof (intro allI impI)
  fix ba assume n: "n = length e" and ba: "ba_wf ba \<and> stands_at e ba"
  then have "m_position ba + n \<le> m_size ba" "m_position ba + n \<le> m_capacity ba"
    using stands_at_bound stands_at_capacity by blast+
  with ba n show "ba_read n ba = (if m_position ba + length e = m_capacity ba \<and> \<not> n \<noteq> 0 then Inl NullDeref
      else Inr (e, ba_seek (m_position ba + length e) ba))"
    using ba_read_spec [of ba n] by (auto simp: stands_at_def)
qed

lemma exact_return [codec_laws]: "reads_back True (\<lambda>ba. Inr (x, ba)) [] x"
  by (simp add: reads_back_def ba_seek_id)

lemma exact_then:
  assumes "ba_wf ba" and "stands_at (e1 @ e2) ba" and "r1 ba = Inr (x, ba_seek (m_position ba + length e1) ba)"
    and "reads_back full (r2 x) e2 y"
  shows "rbind (r1 ba) (\<lambda>(a, ba1). r2 a ba1) =
    (if m_position ba + length (e1 @ e2) = m_capacity ba \<and> \<not> full then Inl NullDeref
     else Inr (y, ba_seek (m_position ba + length (e1 @ e2)) ba))"
proof -
  let ?ba1 = "ba_seek (m_position ba + length e1) ba"
  have s: "stands_at e1 ba" "stands_at e2 ?ba1" using assms(2) by (simp_all add: stands_at_append)
  then have "ba_wf ?ba1" using assms(1) stands_at_bound by simp
  then show ?thesis using assms(3,4) s(2) by (simp add: reads_back_def add.assoc)
qed

lemma exact_bind [codec_laws]:
  assumes "yields r1 e1 x" and "reads_back full (r2 x) e2 y" and "e2 \<noteq> []"
  shows "reads_back full (\<lambda>ba. rbind (r1 ba) (\<lambda>(a, ba1). r2 a ba1)) (e1 @ e2) y"
  unfolding reads_back_def
proof (intro allI impI)
  fix ba assume ba: "ba_wf ba \<and> stands_at (e1 @ e2) ba"
  then have "m_position ba + length (e1 @ e2) \<le> m_capacity ba" using stands_at_capacity by blast
  moreover have "0 < length e2" using assms(3) by simp
  ultimately have "m_position ba + length e1 < m_capacity ba" unfolding length_append by linarith
  then have "r1 ba = Inr (x, ba_seek (m_position ba + length e1) ba)"
    using assms(1) ba by (simp add: yields_def stands_at_append)
  then show "rbind (r1 ba) (\<lambda>(a, ba1). r2 a ba1) =
    (if m_position ba + length (e1 @ e2) = m_capacity ba \<and> \<not> full then Inl NullDeref
     else Inr (y, ba_seek (m_position ba + length (e1 @ e2)) ba))"
    using ba assms(2) by (blast intro: exact_then)
qed

lemma exact_bind_full [codec_laws]:
  assumes "reads_back True r1 e1 x" and "reads_back full (r2 x) e2 y"
  shows "reads_back full (\<lambda>ba. rbind (r1 ba) (\<lambda>(a, ba1). r2 a ba1)) (e1 @ e2) y"
  unfolding reads_back_def
proof (intro allI impI)
  fix ba assume ba: "ba_wf ba \<and> stands_at (e1 @ e2) ba"
  then have "r1 ba = Inr (x, ba_seek (m_position ba + length e1) ba)"
    using assms(1) by (simp add: reads_back_def stands_at_append)
  then show "rbind (r1 ba) (\<lambda>(a, ba1). r2 a ba1) =
    (if m_position ba + length (e1 @ e2) = m_capacity ba \<and> \<not> full then Inl NullDeref
     else Inr (y, ba_seek (m_position ba + length (e1 @ e2)) ba))"
    using ba assms(2) by (blast intro: exact_then)
qed

lemma exact_map [codec_laws]:
  "reads_back full rd e x \<Longrightarrow> reads_back full (\<lambda>ba. rbind (rd ba) (\<lambda>(a, ba1). Inr (f a, ba1))) e (f x)"
  by (simp add: reads_back_def)

section \<open>The interface of a writer and its reader\<close>

locale codec =
  fixes enc :: "'a \<Rightarrow> bytes"
    and wr :: "'a \<Rightarrow> byte_array \<Rightarrow> byte_array res"
    and rd :: "byte_array \<Rightarrow> ('a \<times> byte_array) res"
    and good :: "'a \<Rightarrow> bool"
  assumes wr_appends: "good x \<Longrightarrow> appends (wr x) (enc x)"
    and rd_yields: "good x \<Longrightarrow> yields rd (enc x) x"
begin

lemma write_then_read:
  assumes "good x" and "ba_wf ba" and "m_position ba = m_size ba"
    and "(m_size ba + length (enc x)) mod m_baseSize ba \<noteq> 0"
  shows "\<exists>ba'. wr x ba = Inr ba' \<and> ba_data ba' = ba_data ba @ enc x
    \<and> rbind (set_position (m_size ba) ba') rd = Inr (x, ba')"
proof -
  obtain ba' where ba': "wr x ba = Inr ba'" "ba_wf ba'" "ba_data ba' = ba_data ba @ enc x"
    "m_position ba' = m_size ba'" "m_baseSize ba' = m_baseSize ba"
    using wr_appends [OF assms(1)] assms(2,3) unfolding appends_def by metis
  let ?ba = "ba_seek (m_size ba) ba'"
  have sz: "m_size ba' = m_size ba + length (enc x)"
    using ba'(3) ba_wf_length_data [OF ba'(2)] ba_wf_length_data [OF assms(2)] by simp
  have cap: "m_size ba' < m_capacity ba'"
    using ba_wf_slack [OF ba'(2)] assms(4) sz ba'(5) by simp
  have "stands_at (enc x) ?ba"
    using ba'(3) ba_wf_length_data [OF assms(2)] by (simp add: stands_at_def)
  then have "rd ?ba = Inr (x, ba_seek (m_size ba') ?ba)"
    using rd_yields [OF assms(1)] ba'(2) sz cap by (simp add: yields_def)
  moreover have "ba_seek (m_size ba') ba' = ba'"
    using ba_seek_id [OF ba'(2)] ba'(4) by simp
  ultimately show ?thesis
    using ba' sz by (simp add: set_position_within)
qed

end

text \<open>A codec of which it is known what happens where the data end with the last block.\<close>

locale exact_codec = codec +
  fixes full :: "'a \<Rightarrow> bool"
  assumes rd_exact: "good x \<Longrightarrow> reads_back (full x) rd (enc x) x"
begin

lemma write_then_read_exact:
  assumes "good x" and "ba_wf ba" and "m_position ba = m_size ba"
  shows "\<exists>ba'. wr x ba = Inr ba' \<and> ba_data ba' = ba_data ba @ enc x
    \<and> rbind (set_position (m_size ba) ba') rd =
        (if m_size ba' = m_capacity ba' \<and> \<not> full x then Inl NullDeref else Inr (x, ba'))"
proof -
  obtain ba' where ba': "wr x ba = Inr ba'" "ba_wf ba'" "ba_data ba' = ba_data ba @ enc x"
    "m_position ba' = m_size ba'" "m_baseSize ba' = m_baseSize ba"
    using wr_appends [OF assms(1)] assms(2,3) unfolding appends_def by metis
  let ?ba = "ba_seek (m_size ba) ba'"
  have sz: "m_size ba' = m_size ba + length (enc x)"
    using ba'(3) ba_wf_length_data [OF ba'(2)] ba_wf_length_data [OF assms(2)] by simp
  have "stands_at (enc x) ?ba"
    using ba'(3) ba_wf_length_data [OF assms(2)] by (simp add: stands_at_def)
  then have "rd ?ba = (if m_size ba' = m_capacity ba' \<and> \<not> full x then Inl NullDeref else Inr (x, ba_seek (m_size ba') ?ba))"
    using rd_exact [OF assms(1)] ba'(2) sz by (simp add: reads_back_def)
  moreover have "ba_seek (m_size ba') ?ba = ba'"
    using ba_seek_id [OF ba'(2)] ba'(4) by simp
  moreover have "set_position (m_size ba) ba' = Inr ?ba"
    using sz by (simp add: set_position_within [OF ba'(2)])
  ultimately show ?thesis using ba'(1,3) by (intro exI [of _ ba']) simp
qed

end

lemma exact_codecI:
  assumes "\<And>x. good x \<Longrightarrow> appends (wr x) (enc x)" and "\<And>x. good x \<Longrightarrow> reads_back (full x) rd (enc x) x"
  shows "exact_codec enc wr rd good full"
  using assms by unfold_locales (auto intro: reads_back_yields)

section \<open>Fixed-width integers\<close>

definition write_fint :: "'a::len word \<Rightarrow> byte_array \<Rightarrow> byte_array res" where
  "write_fint value = ba_write (le_enc (LENGTH('a) div 8) value)"

definition write_fint8 :: "byte \<Rightarrow> byte_array \<Rightarrow> byte_array res" where
  "write_fint8 value = ba_write (le_enc 1 value)"

definition write_fuint8 :: "byte \<Rightarrow> byte_array \<Rightarrow> byte_array res" where
  "write_fuint8 value = ba_write (le_enc 1 value)"

definition write_fint16 :: "u16 \<Rightarrow> byte_array \<Rightarrow> byte_array res" where
  "write_fint16 value = write_fint value"

definition write_fuint16 :: "u16 \<Rightarrow> byte_array \<Rightarrow> byte_array res" where
  "write_fuint16 value = write_fint value"

definition write_fint32 :: "u32 \<Rightarrow> byte_array \<Rightarrow> byte_array res" where
  "write_fint32 value = write_fint value"

definition write_fuint32 :: "u32 \<Rightarrow> byte_array \<Rightarrow> byte_array res" where
  "write_fuint32 value = write_fint value"

definition write_fint64 :: "u64 \<Rightarrow> byte_array \<Rightarrow> byte_array res" where
  "write_fint64 value = write_fint value"

definition write_fuint64 :: "u64 \<Rightarrow> byte_array \<Rightarrow> byte_array res" where
  "write_fuint64 value = write_fint value"

text \<open>The macro \<^verbatim>\<open>XX(type)\<close>: read \<^verbatim>\<open>sizeof(v)\<close> bytes into \<^verbatim>\<open>v\<close>.\<close>

definition read_fint :: "byte_array \<Rightarrow> ('a::len word \<times> byte_array) res" where
  "read_fint ba = rbind (ba_read (LENGTH('a) div 8) ba) (\<lambda>(v, ba1). Inr (le_dec v, ba1))"

definition read_fint8 :: "byte_array \<Rightarrow> (byte \<times> byte_array) res" where
  "read_fint8 ba = rbind (ba_read 1 ba) (\<lambda>(v, ba1). Inr (le_dec v, ba1))"

definition read_fuint8 :: "byte_array \<Rightarrow> (byte \<times> byte_array) res" where
  "read_fuint8 ba = rbind (ba_read 1 ba) (\<lambda>(v, ba1). Inr (le_dec v, ba1))"

definition read_fint16 :: "byte_array \<Rightarrow> (u16 \<times> byte_array) res" where
  "read_fint16 = read_fint"

definition read_fuint16 :: "byte_array \<Rightarrow> (u16 \<times> byte_array) res" where
  "read_fuint16 = read_fint"

definition read_fint32 :: "byte_array \<Rightarrow> (u32 \<times> byte_array) res" where
  "read_fint32 = read_fint"

definition read_fuint32 :: "byte_array \<Rightarrow> (u32 \<times> byte_array) res" where
  "read_fuint32 = read_fint"

definition read_fint64 :: "byte_array \<Rightarrow> (u64 \<times> byte_array) res" where
  "read_fint64 = read_fint"

definition read_fuint64 :: "byte_array \<Rightarrow> (u64 \<times> byte_array) res" where
  "read_fuint64 = read_fint"

lemma exact_le_dec:
  assumes "le_dec (le_enc n v) = (v :: 'a::len word)" and "n \<noteq> 0"
  shows "reads_back True (\<lambda>ba. rbind (ba_read n ba) (\<lambda>(bs, ba1). Inr (le_dec bs :: 'a word, ba1))) (le_enc n v) v"
  using exact_map [OF exact_read [of n "le_enc n v"], of "le_dec :: bytes \<Rightarrow> 'a word"] assms by simp

interpretation cu8: exact_codec "le_enc 1" write_fuint8 read_fuint8 "\<lambda>_. True" "\<lambda>_. True"
  by (rule exact_codecI)
     (use exact_le_dec [of 1 "_ :: byte"] in \<open>simp_all add: write_fuint8_def [abs_def] read_fuint8_def [abs_def] appends_write\<close>)

interpretation ci8: exact_codec "le_enc 1" write_fint8 read_fint8 "\<lambda>_. True" "\<lambda>_. True"
  by (rule exact_codecI)
     (use exact_le_dec [of 1 "_ :: byte"] in \<open>simp_all add: write_fint8_def [abs_def] read_fint8_def [abs_def] appends_write\<close>)

interpretation cu16: exact_codec "le_enc 2" write_fuint16 read_fuint16 "\<lambda>_. True" "\<lambda>_. True"
  by (rule exact_codecI)
     (use exact_le_dec [of 2 "_ :: u16"] in
       \<open>simp_all add: write_fuint16_def [abs_def] write_fint_def [abs_def] read_fuint16_def read_fint_def [abs_def] appends_write\<close>)

interpretation ci16: exact_codec "le_enc 2" write_fint16 read_fint16 "\<lambda>_. True" "\<lambda>_. True"
  by (rule exact_codecI)
     (use exact_le_dec [of 2 "_ :: u16"] in
       \<open>simp_all add: write_fint16_def [abs_def] write_fint_def [abs_def] read_fint16_def read_fint_def [abs_def] appends_write\<close>)

interpretation cu32: exact_codec "le_enc 4" write_fuint32 read_fuint32 "\<lambda>_. True" "\<lambda>_. True"
  by (rule exact_codecI)
     (use exact_le_dec [of 4 "_ :: u32"] in
       \<open>simp_all add: write_fuint32_def [abs_def] write_fint_def [abs_def] read_fuint32_def read_fint_def [abs_def] appends_write\<close>)

interpretation ci32: exact_codec "le_enc 4" write_fint32 read_fint32 "\<lambda>_. True" "\<lambda>_. True"
  by (rule exact_codecI)
     (use exact_le_dec [of 4 "_ :: u32"] in
       \<open>simp_all add: write_fint32_def [abs_def] write_fint_def [abs_def] read_fint32_def read_fint_def [abs_def] appends_write\<close>)

interpretation cu64: exact_codec "le_enc 8" write_fuint64 read_fuint64 "\<lambda>_. True" "\<lambda>_. True"
  by (rule exact_codecI)
     (use exact_le_dec [of 8 "_ :: u64"] in
       \<open>simp_all add: write_fuint64_def [abs_def] write_fint_def [abs_def] read_fuint64_def read_fint_def [abs_def] appends_write\<close>)

interpretation ci64: exact_codec "le_enc 8" write_fint64 read_fint64 "\<lambda>_. True" "\<lambda>_. True"
  by (rule exact_codecI)
     (use exact_le_dec [of 8 "_ :: u64"] in
       \<open>simp_all add: write_fint64_def [abs_def] write_fint_def [abs_def] read_fint64_def read_fint_def [abs_def] appends_write\<close>)

end
