(* ===== verification/Varint.thy ===== *)
theory Varint
  imports Codec
begin

text \<open>
  The compressed integers and the strings of \<^verbatim>\<open>src/core/byte_array.cc\<close>: base-128 variable-length
  encoding with its five- and ten-byte scratch buffers, the zigzag map of signed integers, and the
  four string formats. The signed arithmetic of \<^verbatim>\<open>EncodeZigzag\<close> is the wrapping one that two's
  complement targets compute.
\<close>

unbundle bit_operations_syntax

section \<open>Zigzag\<close>

definition encode_zigzag32 :: "u32 \<Rightarrow> u32" where
  "encode_zigzag32 v = (if sint v < 0 then (- v) * 2 - 1 else v * 2)"

definition encode_zigzag64 :: "u64 \<Rightarrow> u64" where
  "encode_zigzag64 v = (if sint v < 0 then (- v) * 2 - 1 else v * 2)"

definition decode_zigzag32 :: "u32 \<Rightarrow> u32" where
  "decode_zigzag32 v = (drop_bit 1 v) XOR (- (v AND 1))"

definition decode_zigzag64 :: "u64 \<Rightarrow> u64" where
  "decode_zigzag64 v = (drop_bit 1 v) XOR (- (v AND 1))"

lemma zigzag_generic:
  fixes v :: "'a::len word"
  defines "e \<equiv> (if sint v < 0 then (- v) * 2 - 1 else v * 2)"
  shows "(drop_bit 1 e) XOR (- (e AND 1)) = v"
proof (cases "sint v < 0")
  case True
  then have top: "bit v (LENGTH('a) - 1)" by (simp add: bit_last_iff)
  have e: "e = push_bit 1 (NOT v) OR 1"
  proof -
    have "e = 2 * (NOT v) + 1" using True by (simp add: e_def not_eq_complement algebra_simps)
    also have "\<dots> = push_bit 1 (NOT v) + 1" by (simp add: push_bit_eq_mult)
    also have "\<dots> = push_bit 1 (NOT v) OR 1"
      by (rule disjunctive_add) (simp only: bit_push_bit_iff bit_1_iff, simp)
    finally show ?thesis .
  qed
  have "drop_bit 1 e = NOT v"
  proof (rule bit_word_eqI)
    fix n assume "n < LENGTH('a)"
    then show "bit (drop_bit 1 e) n = bit (NOT v) n"
      using top by (cases "n = LENGTH('a) - 1")
        (auto simp: e bit_drop_bit_eq bit_or_iff bit_not_iff bit_1_iff bit_double_iff mult.commute [of _ 2])
  qed
  moreover have "e AND 1 = 1"
    by (intro bit_word_eqI) (auto simp: e bit_and_iff bit_or_iff bit_push_bit_iff bit_1_iff)
  ultimately show ?thesis by simp
next
  case False
  then have top: "\<not> bit v (LENGTH('a) - 1)" by (simp add: bit_last_iff)
  have e: "e = push_bit 1 v" using False by (simp add: e_def push_bit_eq_mult mult.commute)
  have "drop_bit 1 e = v"
  proof (rule bit_word_eqI)
    fix n assume "n < LENGTH('a)"
    then show "bit (drop_bit 1 e) n = bit v n"
      using top by (cases "n = LENGTH('a) - 1") (auto simp: e bit_drop_bit_eq bit_double_iff mult.commute [of _ 2])
  qed
  moreover have "e AND 1 = 0"
    by (intro bit_word_eqI) (auto simp: e bit_and_iff bit_1_iff bit_double_iff mult.commute [of _ 2])
  ultimately show ?thesis by simp
qed

lemma decode_encode_zigzag32 [simp]: "decode_zigzag32 (encode_zigzag32 v) = v"
  unfolding decode_zigzag32_def encode_zigzag32_def by (rule zigzag_generic)

lemma decode_encode_zigzag64 [simp]: "decode_zigzag64 (encode_zigzag64 v) = v"
  unfolding decode_zigzag64_def encode_zigzag64_def by (rule zigzag_generic)

section \<open>Variable-length integers\<close>

text \<open>The scratch array \<^verbatim>\<open>tmp\<close> holds \<open>bound\<close> bytes: a store past it is a fault.\<close>

function varint_loop :: "nat \<Rightarrow> 'a::len word \<Rightarrow> bytes \<Rightarrow> bytes res" where
  "varint_loop bound value tmp =
     (if bound \<le> length tmp then Inl MemoryOverrun
      else if 0x80 \<le> value
      then varint_loop bound (drop_bit 7 value) (tmp @ [ucast ((value AND 0x7F) OR 0x80)])
      else Inr (tmp @ [ucast value]))"
  by pat_completeness auto
termination
  by (relation "measure (\<lambda>(bound, value, tmp). bound - length tmp)") auto

declare varint_loop.simps [simp del]

definition write_uint32 :: "u32 \<Rightarrow> byte_array \<Rightarrow> byte_array res" where
  "write_uint32 value ba = rbind (varint_loop 5 value []) (\<lambda>tmp. ba_write tmp ba)"

definition write_uint64 :: "u64 \<Rightarrow> byte_array \<Rightarrow> byte_array res" where
  "write_uint64 value ba = rbind (varint_loop 10 value []) (\<lambda>tmp. ba_write tmp ba)"

definition write_int32 :: "u32 \<Rightarrow> byte_array \<Rightarrow> byte_array res" where
  "write_int32 value = write_uint32 (encode_zigzag32 value)"

definition write_int64 :: "u64 \<Rightarrow> byte_array \<Rightarrow> byte_array res" where
  "write_int64 value = write_uint64 (encode_zigzag64 value)"

function read_varint_loop ::
  "nat \<Rightarrow> nat \<Rightarrow> 'a::len word \<Rightarrow> byte_array \<Rightarrow> ('a word \<times> byte_array) res" where
  "read_varint_loop bits i result ba =
     (if i < bits
      then rbind (read_fuint8 ba) (\<lambda>(b, ba1).
        if b < 0x80 then Inr (result OR push_bit i (ucast b), ba1)
        else read_varint_loop bits (i + 7) (result OR push_bit i (ucast (b AND 0x7F))) ba1)
      else Inr (result, ba))"
  by pat_completeness auto
termination
  by (relation "measure (\<lambda>(bits, i, result, ba). bits - i)") auto

declare read_varint_loop.simps [simp del]

definition read_uint32 :: "byte_array \<Rightarrow> (u32 \<times> byte_array) res" where
  "read_uint32 ba = read_varint_loop 32 0 0 ba"

definition read_uint64 :: "byte_array \<Rightarrow> (u64 \<times> byte_array) res" where
  "read_uint64 ba = read_varint_loop 64 0 0 ba"

definition read_int32 :: "byte_array \<Rightarrow> (u32 \<times> byte_array) res" where
  "read_int32 ba = rbind (read_uint32 ba) (\<lambda>(v, ba1). Inr (decode_zigzag32 v, ba1))"

definition read_int64 :: "byte_array \<Rightarrow> (u64 \<times> byte_array) res" where
  "read_int64 ba = rbind (read_uint64 ba) (\<lambda>(v, ba1). Inr (decode_zigzag64 v, ba1))"

subsection \<open>The base-128 digits\<close>

text \<open>
  The reference: little-endian base-128 digits, each but the last with its top bit set.
\<close>

function varint :: "nat \<Rightarrow> bytes" where
  "varint n = (if 128 \<le> n then of_nat (n mod 128 + 128) # varint (n div 128) else [of_nat n])"
  by pat_completeness auto
termination
  by (relation "measure id") auto

declare varint.simps [simp del]

lemma varint_ne [simp]: "varint n \<noteq> []"
  by (subst varint.simps) simp

lemma varint_small: "n < 128 \<Longrightarrow> varint n = [of_nat n]"
  by (subst varint.simps) simp

lemma length_varint_le: "n < 128 ^ Suc k \<Longrightarrow> length (varint n) \<le> Suc k"
proof (induction k arbitrary: n)
  case 0
  then show ?case by (simp add: varint_small)
next
  case (Suc k)
  have "n div 128 < 128 ^ Suc k"
    using Suc.prems by (simp add: div_less_iff_less_mult)
  then have "length (varint (n div 128)) \<le> Suc k" by (rule Suc.IH)
  then show ?case by (subst varint.simps) simp
qed

lemma length_varint_two: "128 \<le> n \<Longrightarrow> n < 128 * 128 \<Longrightarrow> length (varint n) = 2"
  by (subst varint.simps) (simp add: varint_small div_less_iff_less_mult)

lemma unat_and_127: "unat ((w :: 'a::len word) AND 0x7F) = unat w mod 128"
proof -
  have "w AND 0x7F = take_bit 7 w" by (simp add: take_bit_eq_mask mask_eq_exp_minus_1)
  then show ?thesis by (simp only: unsigned_take_bit_eq) (simp add: take_bit_eq_mod)
qed

lemma unat_0x80: "8 \<le> LENGTH('a) \<Longrightarrow> unat (0x80 :: 'a::len word) = 128"
proof -
  assume "8 \<le> LENGTH('a)"
  then have "(2::nat) ^ 8 \<le> 2 ^ LENGTH('a)" by (intro power_increasing) simp_all
  then show ?thesis by (simp add: take_bit_nat_eq_self)
qed

lemma unat_continuation:
  assumes "8 \<le> LENGTH('a)"
  shows "unat ((w :: 'a::len word) AND 0x7F OR 0x80) = unat w mod 128 + 128"
proof -
  have "(2::nat) ^ 8 \<le> 2 ^ LENGTH('a)" using assms by (intro power_increasing) simp_all
  then have big: "256 \<le> (2::nat) ^ LENGTH('a)" by simp
  have "(w AND 0x7F) OR 0x80 = (w AND 0x7F) + 0x80"
  proof (rule sym, rule disjunctive_add)
    fix n
    have "w AND 0x7F = take_bit 7 w" by (simp add: take_bit_eq_mask mask_eq_exp_minus_1)
    moreover have "bit (2 ^ 7 :: 'a word) n \<Longrightarrow> n = 7" by (simp only: bit_exp_iff)
    then have "bit (0x80 :: 'a word) n \<Longrightarrow> n = 7" by simp
    ultimately show "\<not> bit (w AND 0x7F) n \<or> \<not> bit (0x80 :: 'a word) n"
      by (auto simp: bit_take_bit_iff)
  qed
  moreover have "unat w mod 128 < 128" by simp
  ultimately show ?thesis
    using big unat_0x80 [OF assms] by (simp add: unat_word_ariths unat_and_127 del: unsigned_numeral)
qed

lemma le_0x80_unat:
  "8 \<le> LENGTH('a) \<Longrightarrow> (0x80 :: 'a::len word) \<le> w \<longleftrightarrow> 128 \<le> unat w"
  by (simp only: word_le_nat_alt unat_0x80)

lemma varint_loop_eq:
  assumes "8 \<le> LENGTH('a)" and "length tmp + length (varint (unat v)) \<le> bound"
  shows "varint_loop bound (v :: 'a::len word) tmp = Inr (tmp @ varint (unat v))"
  using assms(2)
proof (induction bound v tmp rule: varint_loop.induct)
  case (1 bound v tmp)
  have byte: "ucast (v AND 0x7F OR 0x80) = (of_nat (unat v mod 128 + 128) :: byte)"
    using unat_continuation [OF assms(1), of v] by (metis of_nat_unat)
  have last_byte: "ucast v = (of_nat (unat v) :: byte)" by simp
  have sh: "unat (drop_bit 7 v) = unat v div 128"
    by (simp only: unat_drop_bit_eq) (simp add: drop_bit_eq_div)
  have room: "\<not> bound \<le> length tmp"
    using "1.prems" varint_ne [of "unat v"] by (cases "varint (unat v)") auto
  show ?case
  proof (cases "128 \<le> unat v")
    case True
    then show ?thesis
      using "1.IH" "1.prems" room byte sh le_0x80_unat [OF assms(1), of v]
      by (simp add: varint_loop.simps [of bound v tmp] varint.simps [of "unat v"])
  next
    case False
    then show ?thesis
      using room le_0x80_unat [OF assms(1), of v]
      by (simp add: varint_loop.simps [of bound v tmp] varint.simps [of "unat v"])
  qed
qed

text \<open>The scratch arrays are large enough: no store past their end.\<close>

lemma varint_loop_u32: "varint_loop 5 (v :: u32) [] = Inr (varint (unat v))"
proof (rule varint_loop_eq [of "[]", simplified])
  have "unat v < 2 ^ 32" using unsigned_less [of v] by simp
  then show "length (varint (unat v)) \<le> 5"
    using length_varint_le [of "unat v" 4] by simp
qed simp

lemma varint_loop_u64: "varint_loop 10 (v :: u64) [] = Inr (varint (unat v))"
proof (rule varint_loop_eq [of "[]", simplified])
  have "unat v < 2 ^ 64" using unsigned_less [of v] by simp
  then show "length (varint (unat v)) \<le> 10"
    using length_varint_le [of "unat v" 9] by simp
qed simp

subsection \<open>Writing and reading back\<close>

lemma bits_of_byte:
  assumes "8 \<le> LENGTH('a)" and "n < 256"
  shows "unat (ucast (of_nat n :: byte) :: 'a::len word) = n"
proof -
  have "(2::nat) ^ 8 \<le> 2 ^ LENGTH('a)" using assms(1) by (intro power_increasing) simp_all
  then show ?thesis
    using assms(2) by (simp add: unsigned_ucast_eq unsigned_of_nat take_bit_nat_eq_self)
qed

lemma take_bit_step:
  "take_bit i v OR push_bit i (take_bit 7 (drop_bit i v)) = take_bit (i + 7) (v :: 'a::len word)"
  by (rule bit_word_eqI)
     (auto simp: bit_or_iff bit_push_bit_iff bit_take_bit_iff bit_drop_bit_eq)

lemma take_bit_last: "take_bit i v OR push_bit i (drop_bit i v) = (v :: 'a::len word)"
proof (rule bit_word_eqI)
  fix n assume "n < LENGTH('a)"
  then show "bit (take_bit i v OR push_bit i (drop_bit i v)) n = bit v n"
    by (cases "n < i") (auto simp: bit_or_iff bit_push_bit_iff bit_take_bit_iff bit_drop_bit_eq)
qed

lemma read_varint_loop_exact:
  assumes "8 \<le> LENGTH('a)" and "i < LENGTH('a)"
  shows "reads_back True (read_varint_loop LENGTH('a) i (take_bit i v))
           (varint (unat (drop_bit i v))) (v :: 'a::len word)"
  using assms(2)
proof (induction "LENGTH('a) - i" arbitrary: i rule: less_induct)
  case less
  let ?w = "drop_bit i v" and ?L = "LENGTH('a)"
  define more where "more = (\<lambda>b :: byte. \<lambda>ba. if b < 0x80 then Inr (take_bit i v OR push_bit i (ucast b), ba)
      else read_varint_loop ?L (i + 7) (take_bit i v OR push_bit i (ucast (b AND 0x7F))) ba)"
  have loop: "read_varint_loop ?L i (take_bit i v) = (\<lambda>ba. rbind (read_fuint8 ba) (\<lambda>(b, ba1). more b ba1))"
    using less.prems by (simp add: fun_eq_iff read_varint_loop.simps [of ?L i] more_def)
  have byte: "reads_back True read_fuint8 [b] b" for b
    using cu8.rd_exact [of b] by simp
  have seven: "unat (take_bit 7 ?w) = unat ?w mod 128"
    by (simp only: unsigned_take_bit_eq) (simp add: take_bit_eq_mod)
  show ?case
  proof (cases "128 \<le> unat ?w")
    case True
    let ?b = "of_nat (unat ?w mod 128 + 128) :: byte"
    have ub: "unat ?b = unat ?w mod 128 + 128"
      by (simp only: unat_of_nat) simp
    have cont: "\<not> ?b < 0x80" by (simp only: word_less_nat_alt ub) simp
    have "unat (ucast (?b AND 0x7F) :: 'a word) = unat (take_bit 7 ?w)"
    proof -
      have "unat (?b AND 0x7F) = unat ?w mod 128" by (simp only: unat_and_127 ub) simp
      then have "?b AND 0x7F = of_nat (unat ?w mod 128)" by (metis unat_of_nat of_nat_unat ucast_id)
      then show ?thesis using bits_of_byte [OF assms(1), of "unat ?w mod 128"] seven by simp
    qed
    then have low: "ucast (?b AND 0x7F) = take_bit 7 ?w" by (rule word_unat_eq_iff [THEN iffD2])
    have "i + 7 < ?L"
    proof (rule ccontr)
      assume "\<not> i + 7 < ?L"
      then have "take_bit 7 ?w = ?w"
        by (intro bit_word_eqI) (auto simp: bit_take_bit_iff bit_drop_bit_eq dest: bit_imp_le_length)
      then show False using seven True by simp
    qed
    then have "reads_back True (read_varint_loop ?L (i + 7) (take_bit (i + 7) v)) (varint (unat (drop_bit (i + 7) v))) v"
      by (intro less.hyps) simp_all
    then have "reads_back True (more ?b) (varint (unat (drop_bit (i + 7) v))) v"
      using cont by (simp add: more_def low take_bit_step del: of_nat_add)
    moreover have "unat (drop_bit (i + 7) v) = unat ?w div 128"
      by (simp only: unat_drop_bit_eq) (simp add: drop_bit_eq_div power_add div_mult2_eq)
    ultimately have "reads_back True (\<lambda>ba. rbind (read_fuint8 ba) (\<lambda>(b, ba1). more b ba1)) ([?b] @ varint (unat ?w div 128)) v"
      using exact_bind_full [OF byte, of True more ?b] by simp
    then show ?thesis
      using True loop by (simp add: varint.simps [of "unat ?w"] del: of_nat_add)
  next
    case False
    let ?b = "of_nat (unat ?w) :: byte"
    have ub: "unat ?b = unat ?w" using False by (simp only: unat_of_nat) simp
    have "?b < 0x80" using False by (simp only: word_less_nat_alt ub) simp
    moreover have "unat (ucast ?b :: 'a word) = unat ?w"
      using bits_of_byte [OF assms(1), of "unat ?w"] False by (simp del: of_nat_unat)
    then have "ucast ?b = ?w" by (rule word_unat_eq_iff [THEN iffD2])
    ultimately have "more ?b = (\<lambda>ba. Inr (v, ba))"
      by (simp add: more_def take_bit_last fun_eq_iff del: of_nat_unat)
    then have "reads_back True (\<lambda>ba. rbind (read_fuint8 ba) (\<lambda>(b, ba1). more b ba1)) ([?b] @ []) v"
      using exact_bind_full [OF byte, of True more ?b "[]" v] exact_return [of v] by (simp del: of_nat_unat)
    then show ?thesis
      using False loop by (simp add: varint_small del: of_nat_unat)
  qed
qed

interpretation cv32: exact_codec "\<lambda>v. varint (unat v)" write_uint32 read_uint32 "\<lambda>_. True" "\<lambda>_. True"
proof (rule exact_codecI)
  fix v :: u32
  show "appends (write_uint32 v) (varint (unat v))"
    by (simp add: write_uint32_def [abs_def] varint_loop_u32 appends_write)
  show "reads_back True read_uint32 (varint (unat v)) v"
    using read_varint_loop_exact [of 0 v] by (simp add: read_uint32_def [abs_def])
qed

interpretation cv64: exact_codec "\<lambda>v. varint (unat v)" write_uint64 read_uint64 "\<lambda>_. True" "\<lambda>_. True"
proof (rule exact_codecI)
  fix v :: u64
  show "appends (write_uint64 v) (varint (unat v))"
    by (simp add: write_uint64_def [abs_def] varint_loop_u64 appends_write)
  show "reads_back True read_uint64 (varint (unat v)) v"
    using read_varint_loop_exact [of 0 v] by (simp add: read_uint64_def [abs_def])
qed

interpretation cz32: exact_codec "\<lambda>v. varint (unat (encode_zigzag32 v))" write_int32 read_int32 "\<lambda>_. True" "\<lambda>_. True"
proof (rule exact_codecI)
  fix v :: u32
  show "appends (write_int32 v) (varint (unat (encode_zigzag32 v)))"
    using cv32.wr_appends by (simp add: write_int32_def)
  show "reads_back True read_int32 (varint (unat (encode_zigzag32 v))) v"
    using exact_map [OF cv32.rd_exact [OF TrueI, of "encode_zigzag32 v"], of decode_zigzag32]
    by (simp add: read_int32_def [abs_def])
qed

interpretation cz64: exact_codec "\<lambda>v. varint (unat (encode_zigzag64 v))" write_int64 read_int64 "\<lambda>_. True" "\<lambda>_. True"
proof (rule exact_codecI)
  fix v :: u64
  show "appends (write_int64 v) (varint (unat (encode_zigzag64 v)))"
    using cv64.wr_appends by (simp add: write_int64_def)
  show "reads_back True read_int64 (varint (unat (encode_zigzag64 v))) v"
    using exact_map [OF cv64.rd_exact [OF TrueI, of "encode_zigzag64 v"], of decode_zigzag64]
    by (simp add: read_int64_def [abs_def])
qed

section \<open>Properties\<close>

text \<open>
  The variable-length encoders write the base-128 digits of the value, least significant first,
  every digit but the last with its top bit set; the 5 and 10 bytes of their scratch arrays are
  always enough.
\<close>

lemma varint_loop_digits:
  "varint_loop 5 (v :: u32) [] = Inr (varint (unat v)) \<and> length (varint (unat v)) \<le> 5
   \<and> varint_loop 10 (w :: u64) [] = Inr (varint (unat w)) \<and> length (varint (unat w)) \<le> 10"
proof -
  have "unat v < 2 ^ 32" "unat w < 2 ^ 64" using unsigned_less [of v] unsigned_less [of w] by simp_all
  then have "length (varint (unat v)) \<le> 5" "length (varint (unat w)) \<le> 10"
    using length_varint_le [of "unat v" 4] length_varint_le [of "unat w" 9] by simp_all
  then show ?thesis by (simp add: varint_loop_u32 varint_loop_u64)
qed

lemma zigzag_value:
  fixes v :: "'a::len word"
  assumes "2 \<le> LENGTH('a)"
  shows "uint (if sint v < 0 then (- v) * 2 - 1 else v * 2) =
    (if sint v < 0 then - 2 * sint v - 1 else 2 * sint v)"
proof -
  define x where "x = sint v"
  have v: "v = word_of_int x" by (simp add: x_def)
  have pow: "(2 :: int) ^ LENGTH('a) = 2 * 2 ^ (LENGTH('a) - 1)"
    using assms by (simp flip: power_Suc)
  have "- (2 ^ (LENGTH('a) - 1)) \<le> x" "x < 2 ^ (LENGTH('a) - 1)"
    using sint_greater_eq [of v] sint_less [of v] by (simp_all add: x_def)
  then have rng: "- (2 ^ LENGTH('a)) \<le> 2 * x" "2 * x < 2 ^ LENGTH('a)"
    by (simp_all only: pow)
  have neg: "(- v) * 2 - 1 = word_of_int (- 2 * x - 1)" and pos: "v * 2 = word_of_int (2 * x)"
    unfolding v by (simp_all add: mult.commute [of _ 2])
  show ?thesis
  proof (cases "x < 0")
    case True
    then have "uint (word_of_int (- 2 * x - 1) :: 'a word) = - 2 * x - 1"
      using rng by (simp add: uint_word_of_int mod_pos_pos_trivial del: of_int_diff of_int_mult)
    with True show ?thesis by (simp only: neg x_def [symmetric] if_True)
  next
    case False
    then have "uint (word_of_int (2 * x) :: 'a word) = 2 * x"
      using rng by (simp add: uint_word_of_int mod_pos_pos_trivial del: of_int_mult)
    with False show ?thesis by (simp only: pos x_def [symmetric] if_False)
  qed
qed

text \<open>
  Zigzag encoding maps the signed integers 0, -1, 1, -2, ... to 0, 1, 2, 3, ... without losing
  any, the most negative one included, and decoding inverts it.
\<close>

lemma zigzag_bijective:
  "decode_zigzag32 (encode_zigzag32 v) = v \<and> decode_zigzag64 (encode_zigzag64 w) = w
   \<and> uint (encode_zigzag32 v) = (if sint v < 0 then - 2 * sint v - 1 else 2 * sint v)
   \<and> uint (encode_zigzag64 w) = (if sint w < 0 then - 2 * sint w - 1 else 2 * sint w)"
proof -
  have "uint (encode_zigzag32 v) = (if sint v < 0 then - 2 * sint v - 1 else 2 * sint v)"
    unfolding encode_zigzag32_def by (rule zigzag_value) simp
  moreover have "uint (encode_zigzag64 w) = (if sint w < 0 then - 2 * sint w - 1 else 2 * sint w)"
    unfolding encode_zigzag64_def by (rule zigzag_value) simp
  ultimately show ?thesis by simp
qed

text \<open>
  C31: A 64-bit integer written in the variable-length format at the end of the data is read back
  unchanged, for every value and every base size, also where the data then end with the last block.
\<close>

theorem int64_roundtrip:
  assumes "ba_wf ba" and "m_position ba = m_size ba"
  shows "\<exists>ba'. write_int64 v ba = Inr ba' \<and> ba_data ba' = ba_data ba @ varint (unat (encode_zigzag64 v))
    \<and> rbind (set_position (m_size ba) ba') read_int64 = Inr (v, ba')"
  using cz64.write_then_read_exact [OF TrueI assms] by simp

theorem int64_roundtrip_witness:
  "\<exists>ba'. write_int64 (- 3) (ba_new 1 (\<lambda>_ _. 0)) = Inr ba' \<and> ba_data ba' = [5]
     \<and> rbind (set_position 0 ba') read_int64 = Inr (- 3, ba')"
proof -
  have "encode_zigzag64 (- 3) = 5" by code_simp
  then show ?thesis
    using int64_roundtrip [OF ba_new_wf, of 1 "\<lambda>_ _. 0" "- 3"] by (auto simp: varint_small)
qed

end
