(* ===== verification/Byte_Strings.thy ===== *)
theory Byte_Strings
  imports Varint
begin

text \<open>
  Floating point values and strings of \<^verbatim>\<open>src/core/byte_array.cc\<close>. A \<^verbatim>\<open>float\<close> or \<^verbatim>\<open>double\<close> is the
  word of its bit pattern, which is what the code copies. A string is preceded by its length in a
  field of 16, 32 or 64 bits, or in the variable-length format; a length that does not fit is
  truncated, as the implicit conversion of the code does.
\<close>

section \<open>Floating point\<close>

definition write_float :: "u32 \<Rightarrow> byte_array \<Rightarrow> byte_array res" where
  "write_float v = write_fuint32 v"

definition write_double :: "u64 \<Rightarrow> byte_array \<Rightarrow> byte_array res" where
  "write_double v = write_fuint64 v"

definition read_float :: "byte_array \<Rightarrow> (u32 \<times> byte_array) res" where
  "read_float = read_fuint32"

definition read_double :: "byte_array \<Rightarrow> (u64 \<times> byte_array) res" where
  "read_double = read_fuint64"

interpretation cfloat: exact_codec "le_enc 4" write_float read_float "\<lambda>_. True" "\<lambda>_. True"
  by (rule exact_codecI)
     (simp_all add: write_float_def [abs_def] read_float_def cu32.wr_appends cu32.rd_exact)

interpretation cdouble: exact_codec "le_enc 8" write_double read_double "\<lambda>_. True" "\<lambda>_. True"
  by (rule exact_codecI)
     (simp_all add: write_double_def [abs_def] read_double_def cu64.wr_appends cu64.rd_exact)

section \<open>Strings\<close>

definition write_string_f16 :: "bytes \<Rightarrow> byte_array \<Rightarrow> byte_array res" where
  "write_string_f16 str ba = rbind (write_fuint16 (of_nat (length str)) ba) (ba_write str)"

definition write_string_f32 :: "bytes \<Rightarrow> byte_array \<Rightarrow> byte_array res" where
  "write_string_f32 str ba = rbind (write_fuint32 (of_nat (length str)) ba) (ba_write str)"

definition write_string_f64 :: "bytes \<Rightarrow> byte_array \<Rightarrow> byte_array res" where
  "write_string_f64 str ba = rbind (write_fuint64 (of_nat (length str)) ba) (ba_write str)"

definition write_string_vint :: "bytes \<Rightarrow> byte_array \<Rightarrow> byte_array res" where
  "write_string_vint str ba = rbind (write_uint64 (of_nat (length str)) ba) (ba_write str)"

definition write_string_without_length :: "bytes \<Rightarrow> byte_array \<Rightarrow> byte_array res" where
  "write_string_without_length str ba = ba_write str ba"

text \<open>
  A reader resizes its buffer to the length it finds, then reads that many bytes. (A length the
  allocator refuses throws earlier in C++; the model goes on to the range check.)
\<close>

definition read_string_f16 :: "byte_array \<Rightarrow> (bytes \<times> byte_array) res" where
  "read_string_f16 ba = rbind (read_fuint16 ba) (\<lambda>(len, ba1). ba_read (unat len) ba1)"

definition read_string_f32 :: "byte_array \<Rightarrow> (bytes \<times> byte_array) res" where
  "read_string_f32 ba = rbind (read_fuint32 ba) (\<lambda>(len, ba1). ba_read (unat len) ba1)"

definition read_string_f64 :: "byte_array \<Rightarrow> (bytes \<times> byte_array) res" where
  "read_string_f64 ba = rbind (read_fuint64 ba) (\<lambda>(len, ba1). ba_read (unat len) ba1)"

definition read_string_vint :: "byte_array \<Rightarrow> (bytes \<times> byte_array) res" where
  "read_string_vint ba = rbind (read_uint64 ba) (\<lambda>(len, ba1). ba_read (unat len) ba1)"

text \<open>The encodings.\<close>

definition str16 :: "bytes \<Rightarrow> bytes" where
  "str16 str = le_enc 2 (of_nat (length str) :: u16) @ str"

definition str32 :: "bytes \<Rightarrow> bytes" where
  "str32 str = le_enc 4 (of_nat (length str) :: u32) @ str"

definition str64 :: "bytes \<Rightarrow> bytes" where
  "str64 str = le_enc 8 (of_nat (length str) :: u64) @ str"

definition strv :: "bytes \<Rightarrow> bytes" where
  "strv str = varint (unat (of_nat (length str) :: u64)) @ str"

lemma length_str [simp]:
  "length (str16 s) = 2 + length s" "length (str32 s) = 4 + length s" "length (str64 s) = 8 + length s"
  by (simp_all add: str16_def str32_def str64_def)

lemmas write_string_appends =
  appends_seq [OF cu16.wr_appends [OF TrueI] appends_write]
  appends_seq [OF cu32.wr_appends [OF TrueI] appends_write]
  appends_seq [OF cu64.wr_appends [OF TrueI] appends_write]
  appends_seq [OF cv64.wr_appends [OF TrueI] appends_write]

lemma yields_sized:
  assumes "yields rd e (w :: 'a::len word)" and "unat w = length str"
  shows "yields (\<lambda>ba. rbind (rd ba) (\<lambda>(len, ba1). ba_read (unat len) ba1)) (e @ str) str"
  using yields_bind [OF assms(1), of "\<lambda>len. ba_read (unat len)" str str] yields_read [OF assms(2)]
  by simp

lemma unat_of_nat_small: "n < 2 ^ LENGTH('a) \<Longrightarrow> unat (of_nat n :: 'a::len word) = n"
  by (simp add: unat_of_nat)

interpretation cs16: codec str16 write_string_f16 read_string_f16 "\<lambda>s. length s < 2 ^ 16"
proof unfold_locales
  fix s :: bytes assume s: "length s < 2 ^ 16"
  show "appends (write_string_f16 s) (str16 s)"
    using write_string_appends(1) by (simp add: write_string_f16_def [abs_def] str16_def)
  show "yields read_string_f16 (str16 s) s"
    using yields_sized [OF cu16.rd_yields [OF TrueI], of "of_nat (length s)" s] s
    by (simp add: read_string_f16_def [abs_def] str16_def unat_of_nat_small)
qed

interpretation cs32: codec str32 write_string_f32 read_string_f32 "\<lambda>s. length s < 2 ^ 32"
proof unfold_locales
  fix s :: bytes assume s: "length s < 2 ^ 32"
  show "appends (write_string_f32 s) (str32 s)"
    using write_string_appends(2) by (simp add: write_string_f32_def [abs_def] str32_def)
  show "yields read_string_f32 (str32 s) s"
    using yields_sized [OF cu32.rd_yields [OF TrueI], of "of_nat (length s)" s] s
    by (simp add: read_string_f32_def [abs_def] str32_def unat_of_nat_small)
qed

interpretation cs64: codec str64 write_string_f64 read_string_f64 "\<lambda>s. length s < 2 ^ 64"
proof unfold_locales
  fix s :: bytes assume s: "length s < 2 ^ 64"
  show "appends (write_string_f64 s) (str64 s)"
    using write_string_appends(3) by (simp add: write_string_f64_def [abs_def] str64_def)
  show "yields read_string_f64 (str64 s) s"
    using yields_sized [OF cu64.rd_yields [OF TrueI], of "of_nat (length s)" s] s
    by (simp add: read_string_f64_def [abs_def] str64_def unat_of_nat_small)
qed

lemma exact_sized:
  assumes "reads_back True rd e (w :: 'a::len word)" and "unat w = length str"
  shows "reads_back (str \<noteq> []) (\<lambda>ba. rbind (rd ba) (\<lambda>(len, ba1). ba_read (unat len) ba1)) (e @ str) str"
  using exact_bind_full [OF assms(1), of _ "\<lambda>len. ba_read (unat len)" str str] exact_read [OF assms(2)] assms(2)
  by simp

text \<open>The empty string, of which nothing but the length is read, is the one value that cannot end the last block.\<close>

interpretation csv: exact_codec strv write_string_vint read_string_vint "\<lambda>s. length s < 2 ^ 64" "\<lambda>s. s \<noteq> []"
proof (rule exact_codecI)
  fix s :: bytes assume s: "length s < 2 ^ 64"
  show "appends (write_string_vint s) (strv s)"
    using write_string_appends(4) by (simp add: write_string_vint_def [abs_def] strv_def)
  show "reads_back (s \<noteq> []) read_string_vint (strv s) s"
    using exact_sized [OF cv64.rd_exact [OF TrueI], of "of_nat (length s)" s] s
    by (simp add: read_string_vint_def [abs_def] strv_def unat_of_nat_small)
qed

text \<open>
  A string whose length does not fit its field is written whole, and read back cut to the
  truncated length.
\<close>

lemma write_string_f32_always: "appends (write_string_f32 s) (str32 s)"
  using write_string_appends(2) by (simp add: write_string_f32_def [abs_def] str32_def)

lemma write_string_f64_always: "appends (write_string_f64 s) (str64 s)"
  using write_string_appends(3) by (simp add: write_string_f64_def [abs_def] str64_def)

lemma write_string_f16_truncated:
  "appends (write_string_f16 s) (str16 s)
   \<and> yields read_string_f16 (take (2 + length s mod 2 ^ 16) (str16 s)) (take (length s mod 2 ^ 16) s)"
proof
  show "appends (write_string_f16 s) (str16 s)"
    using write_string_appends(1) by (simp add: write_string_f16_def [abs_def] str16_def)
  let ?w = "of_nat (length s) :: u16" and ?n = "length s mod 2 ^ 16"
  have "unat ?w = ?n" by (simp only: unat_of_nat) simp
  moreover have "?n \<le> length s" by simp
  ultimately have "unat ?w = length (take ?n s)" by simp
  then have "yields read_string_f16 (le_enc 2 ?w @ take ?n s) (take ?n s)"
    using yields_sized [OF cu16.rd_yields [OF TrueI], of ?w "take ?n s"]
    by (simp add: read_string_f16_def [abs_def])
  then show "yields read_string_f16 (take (2 + ?n) (str16 s)) (take ?n s)"
    by (simp add: str16_def)
qed

lemma write_string_without_length_spec: "appends (write_string_without_length s) s"
  by (simp add: write_string_without_length_def [abs_def] appends_write)

section \<open>Properties\<close>

text \<open>
  A string written with a variable-length prefix at the end of the data is read back unchanged; only an empty one
  is not, where the data then end with the last block.
\<close>

lemma string_vint_roundtrip:
  assumes "ba_wf ba" and "m_position ba = m_size ba" and "length s < 2 ^ 64"
  shows "\<exists>ba'. write_string_vint s ba = Inr ba' \<and> ba_data ba' = ba_data ba @ strv s
    \<and> rbind (set_position (m_size ba) ba') read_string_vint =
        (if m_size ba' = m_capacity ba' \<and> s = [] then Inl NullDeref else Inr (s, ba'))"
  using csv.write_then_read_exact [OF assms(3,1,2)] by simp

text \<open>
  The 16-bit length of \<^verbatim>\<open>writeStringF16\<close> is taken modulo 65536: the whole string is written,
  and what \<^verbatim>\<open>readStringF16\<close> returns there is its prefix of the truncated length.
\<close>

lemma string_f16_truncates:
  assumes "ba_wf ba" and "m_position ba = m_size ba"
  shows "\<exists>ba'. write_string_f16 s ba = Inr ba' \<and> ba_data ba' = ba_data ba @ str16 s
    \<and> yields read_string_f16 (take (2 + length s mod 65536) (str16 s)) (take (length s mod 65536) s)"
proof -
  have "65536 = (2 ^ 16 :: nat)" by simp
  then show ?thesis
    using write_string_f16_truncated [of s] assms unfolding appends_def by metis
qed

lemma string_f16_truncates_witness:
  "\<exists>ba'. write_string_f16 (replicate 65536 0) (ba_new 4096 (\<lambda>_ _. 0)) = Inr ba'
     \<and> yields read_string_f16 (take 2 (str16 (replicate 65536 0))) []"
  using string_f16_truncates [OF ba_new_wf, of 4096 "\<lambda>_ _. 0" "replicate 65536 0"] by auto

end
