(* ===== verification/Serializer.thy ===== *)
theory Serializer
  imports Byte_Strings
begin

text \<open>
  \<^verbatim>\<open>src/core/serializer.h\<close>: typed serialization over a byte array. A C++ type the templates are
  instantiated at is a value of \<open>sty\<close>; \<open>ser_write\<close> and \<open>ser_read\<close> are the member templates
  \<^verbatim>\<open>write\<close> and \<^verbatim>\<open>read\<close> at the supported scalar types, \<open>shl\<close> and \<open>shr\<close> the overloaded stream
  operators, one equation per overload. A container is the list of its elements in iteration order
  (for the unordered ones some order; an insertion appends). \<open>lt\<close> is the element type's
  \<^verbatim>\<open>operator<\<close>; the \<^verbatim>\<open>operator==\<close> of the types that can be hashed is \<open>key_eq\<close>. The target has 64-bit \<^verbatim>\<open>size_t\<close>, so a size goes through \<^verbatim>\<open>write<uint64_t>\<close>.
\<close>

section \<open>The serializer object\<close>

definition ser_new :: "(nat \<Rightarrow> nat \<Rightarrow> byte) \<Rightarrow> byte_array" where
  "ser_new fresh = ba_new 4096 fresh"

text \<open>\<^verbatim>\<open>int size()\<close> narrows to 32 bits.\<close>

definition ser_size :: "byte_array \<Rightarrow> int" where
  "ser_size s = sint (of_nat (m_size s) :: u32)"

definition ser_reset :: "byte_array \<Rightarrow> byte_array res" where
  "ser_reset s = set_position 0 s"

text \<open>\<^verbatim>\<open>offset(int)\<close>: the position is narrowed to \<^verbatim>\<open>int\<close>, the sum widened back to \<^verbatim>\<open>size_t\<close>.\<close>

definition ser_offset :: "u32 \<Rightarrow> byte_array \<Rightarrow> byte_array res" where
  "ser_offset off s = set_position (unat (scast ((of_nat (m_position s) :: u32) + off) :: u64)) s"

definition ser_to_string :: "byte_array \<Rightarrow> bytes res" where
  "ser_to_string s = ba_to_string s"

definition ser_write_row_data :: "bytes \<Rightarrow> byte_array \<Rightarrow> byte_array res" where
  "ser_write_row_data raw s = ba_write raw s"

definition ser_from_string :: "(nat \<Rightarrow> nat \<Rightarrow> byte) \<Rightarrow> bytes \<Rightarrow> byte_array res" where
  "ser_from_string fresh raw = rbind (ser_write_row_data raw (ser_new fresh)) ser_reset"

definition ser_clear :: "byte_array \<Rightarrow> byte_array" where
  "ser_clear s = ba_clear s"

section \<open>Scalars\<close>

datatype cval =
    CBool bool | CFloat u32 | CDouble u64
  | CInt8 byte | CUint8 byte | CInt16 u16 | CUint16 u16
  | CInt32 u32 | CUint32 u32 | CInt64 u64 | CUint64 u64
  | CString bytes
  | CCharPtr bytes  \<comment> \<open>a NUL-terminated string; it can be written, not read\<close>

datatype ctype =
    TBool | TFloat | TDouble | TInt8 | TUint8 | TInt16 | TUint16
  | TInt32 | TUint32 | TInt64 | TUint64 | TString

fun ser_write :: "cval \<Rightarrow> byte_array \<Rightarrow> byte_array res" where
  "ser_write (CBool t) s = write_fint8 (if t then 1 else 0) s"
| "ser_write (CFloat t) s = write_float t s"
| "ser_write (CDouble t) s = write_double t s"
| "ser_write (CInt8 t) s = write_fint8 t s"
| "ser_write (CUint8 t) s = write_fuint8 t s"
| "ser_write (CInt16 t) s = write_fint16 t s"
| "ser_write (CUint16 t) s = write_fuint16 t s"
| "ser_write (CInt32 t) s = write_int32 t s"
| "ser_write (CUint32 t) s = write_uint32 t s"
| "ser_write (CInt64 t) s = write_int64 t s"
| "ser_write (CUint64 t) s = write_uint64 t s"
| "ser_write (CString t) s = write_string_vint t s"
| "ser_write (CCharPtr t) s = write_string_vint t s"

text \<open>Reading a value of a scalar type and tagging it with its type.\<close>

definition tagged :: "('a \<Rightarrow> 'b) \<Rightarrow> ('a \<times> byte_array) res \<Rightarrow> ('b \<times> byte_array) res" where
  "tagged f r = rbind r (\<lambda>(a, s). Inr (f a, s))"

fun ser_read :: "ctype \<Rightarrow> byte_array \<Rightarrow> (cval \<times> byte_array) res" where
  "ser_read TBool s = tagged (\<lambda>b. CBool (b \<noteq> 0)) (read_fint8 s)"
| "ser_read TFloat s = tagged CFloat (read_float s)"
| "ser_read TDouble s = tagged CDouble (read_double s)"
| "ser_read TInt8 s = tagged CInt8 (read_fint8 s)"
| "ser_read TUint8 s = tagged CUint8 (read_fuint8 s)"
| "ser_read TInt16 s = tagged CInt16 (read_fint16 s)"
| "ser_read TUint16 s = tagged CUint16 (read_fuint16 s)"
| "ser_read TInt32 s = tagged CInt32 (read_int32 s)"
| "ser_read TUint32 s = tagged CUint32 (read_uint32 s)"
| "ser_read TInt64 s = tagged CInt64 (read_int64 s)"
| "ser_read TUint64 s = tagged CUint64 (read_uint64 s)"
| "ser_read TString s = tagged CString (read_string_vint s)"

section \<open>Pairs and containers\<close>

datatype skind =
    KVector | KSet | KMultiset | KUset | KUmultiset | KMap | KUmap | KMultimap | KUmultimap

datatype sval = VPrim cval | VPair sval sval | VSeq skind "sval list"

datatype sty = TPrim ctype | TPair sty sty | TSeq skind sty

definition is_map :: "skind \<Rightarrow> bool" where
  "is_map k \<longleftrightarrow> k \<in> {KMap, KUmap, KMultimap, KUmultimap}"

fun vfst :: "sval \<Rightarrow> sval" where
  "vfst (VPair a b) = a"
| "vfst v = v"

fun vsnd :: "sval \<Rightarrow> sval" where
  "vsnd (VPair a b) = b"
| "vsnd v = v"

text \<open>What \<^verbatim>\<open>T t;\<close> constructs (a scalar is indeterminate; it is overwritten before use).\<close>

fun dflt :: "sty \<Rightarrow> sval" where
  "dflt (TPrim c) = VPrim (CBool False)"
| "dflt (TPair a b) = VPair (dflt a) (dflt b)"
| "dflt (TSeq k a) = VSeq k []"

fun shl :: "sval \<Rightarrow> byte_array \<Rightarrow> byte_array res"
  and shl_all :: "sval list \<Rightarrow> byte_array \<Rightarrow> byte_array res" where
  "shl (VPrim c) s = ser_write c s"
| "shl (VPair a b) s = rbind (shl a s) (\<lambda>s1. shl b s1)"
| "shl (VSeq k xs) s = rbind (ser_write (CUint64 (of_nat (length xs))) s) (\<lambda>s1. shl_all xs s1)"
| "shl_all [] s = Inr s"
| "shl_all (x # xs) s = rbind (shl x s) (\<lambda>s1. shl_all xs s1)"

text \<open>Insertion into an ordered container: unique keys, or after the equivalent ones.\<close>

fun ins_unique :: "('k \<Rightarrow> 'k \<Rightarrow> bool) \<Rightarrow> ('a \<Rightarrow> 'k) \<Rightarrow> 'a \<Rightarrow> 'a list \<Rightarrow> 'a list" where
  "ins_unique lt key x [] = [x]"
| "ins_unique lt key x (y # ys) =
     (if lt (key x) (key y) then x # y # ys
      else if lt (key y) (key x) then y # ins_unique lt key x ys
      else y # ys)"

fun ins_upper :: "('k \<Rightarrow> 'k \<Rightarrow> bool) \<Rightarrow> ('a \<Rightarrow> 'k) \<Rightarrow> 'a \<Rightarrow> 'a list \<Rightarrow> 'a list" where
  "ins_upper lt key x [] = [x]"
| "ins_upper lt key x (y # ys) = (if lt (key x) (key y) then x # y # ys else y # ins_upper lt key x ys)"

text \<open>
  The \<^verbatim>\<open>operator==\<close> of floating point numbers, on their bit patterns: a NaN (all bits of the exponent set, and
  one of the fraction) equals nothing, itself included, and the two zeros are equal.
\<close>

definition f32_eq :: "u32 \<Rightarrow> u32 \<Rightarrow> bool" where
  "f32_eq x y \<longleftrightarrow> x AND 0x7FFFFFFF \<le> 0x7F800000 \<and> y AND 0x7FFFFFFF \<le> 0x7F800000
     \<and> (x = y \<or> x AND 0x7FFFFFFF = 0 \<and> y AND 0x7FFFFFFF = 0)"

definition f64_eq :: "u64 \<Rightarrow> u64 \<Rightarrow> bool" where
  "f64_eq x y \<longleftrightarrow> x AND 0x7FFFFFFFFFFFFFFF \<le> 0x7FF0000000000000 \<and> y AND 0x7FFFFFFFFFFFFFFF \<le> 0x7FF0000000000000
     \<and> (x = y \<or> x AND 0x7FFFFFFFFFFFFFFF = 0 \<and> y AND 0x7FFFFFFFFFFFFFFF = 0)"

text \<open>Equality of keys. Of the types of this model only the scalars can be hashed, and so be keys of an unordered container.\<close>

fun key_eq :: "sval \<Rightarrow> sval \<Rightarrow> bool" where
  "key_eq (VPrim (CFloat x)) (VPrim (CFloat y)) \<longleftrightarrow> f32_eq x y"
| "key_eq (VPrim (CDouble x)) (VPrim (CDouble y)) \<longleftrightarrow> f64_eq x y"
| "key_eq v w \<longleftrightarrow> v = w"

lemma key_eq_floats:
  "\<not> key_eq (VPrim (CDouble 0x7FF8000000000000)) (VPrim (CDouble 0x7FF8000000000000))"
  "key_eq (VPrim (CDouble 0)) (VPrim (CDouble 0x8000000000000000))"
  "\<not> key_eq (VPrim (CFloat 0x7FC00000)) (VPrim (CFloat 0x7FC00000))"
  "key_eq (VPrim (CFloat 0)) (VPrim (CFloat 0x80000000))"
  by code_simp+

definition ins_absent :: "('k \<Rightarrow> 'k \<Rightarrow> bool) \<Rightarrow> ('a \<Rightarrow> 'k) \<Rightarrow> 'a \<Rightarrow> 'a list \<Rightarrow> 'a list" where
  "ins_absent eq key x xs = (if list_ex (\<lambda>y. eq (key y) (key x)) xs then xs else xs @ [x])"

fun emplace :: "(sval \<Rightarrow> sval \<Rightarrow> bool) \<Rightarrow> skind \<Rightarrow> sval \<Rightarrow> sval list \<Rightarrow> sval list" where
  "emplace lt KVector x xs = xs @ [x]"
| "emplace lt KSet x xs = ins_unique lt id x xs"
| "emplace lt KMultiset x xs = ins_upper lt id x xs"
| "emplace lt KUset x xs = ins_absent key_eq id x xs"
| "emplace lt KUmultiset x xs = xs @ [x]"
| "emplace lt KMap x xs = ins_unique lt vfst x xs"
| "emplace lt KUmap x xs = ins_absent key_eq vfst x xs"
| "emplace lt KMultimap x xs = ins_upper lt vfst x xs"
| "emplace lt KUmultimap x xs = xs @ [x]"

primrec read_n :: "(byte_array \<Rightarrow> ('a \<times> byte_array) res) \<Rightarrow> ('a \<Rightarrow> 'b \<Rightarrow> 'b) \<Rightarrow> nat \<Rightarrow> 'b
    \<Rightarrow> byte_array \<Rightarrow> ('b \<times> byte_array) res" where
  "read_n rd ins 0 xs s = Inr (xs, s)"
| "read_n rd ins (Suc n) xs s = rbind (rd s) (\<lambda>(x, s1). read_n rd ins n (ins x xs) s1)"

text \<open>
  The elements of a sequence or set are read with the member template \<^verbatim>\<open>read(t)\<close>, which does
  nothing at a type that is not one of its scalars; those of a map with \<^verbatim>\<open>operator>>\<close>.
\<close>

fun read_elem :: "sty \<Rightarrow> byte_array \<Rightarrow> (sval \<times> byte_array) res" where
  "read_elem (TPrim c) s = tagged VPrim (ser_read c s)"
| "read_elem ty s = Inr (dflt ty, s)"

fun seq_elems :: "sval \<Rightarrow> sval list" where
  "seq_elems (VSeq k xs) = xs"
| "seq_elems v = []"

fun shr :: "(sval \<Rightarrow> sval \<Rightarrow> bool) \<Rightarrow> sty \<Rightarrow> sval \<Rightarrow> byte_array \<Rightarrow> (sval \<times> byte_array) res" where
  "shr lt (TPrim c) v s = tagged VPrim (ser_read c s)"
| "shr lt (TPair a b) v s =
     rbind (shr lt a (vfst v) s) (\<lambda>(x, s1).
     rbind (shr lt b (vsnd v) s1) (\<lambda>(y, s2). Inr (VPair x y, s2)))"
| "shr lt (TSeq k a) v s =
     rbind (read_uint64 s) (\<lambda>(n, s1).
       tagged (VSeq k)
         (read_n (\<lambda>s2. if is_map k then shr lt a (dflt a) s2 else read_elem a s2)
            (emplace lt k) (unat n) (seq_elems v) s1))"

section \<open>Encodings\<close>

fun cenc :: "cval \<Rightarrow> bytes" where
  "cenc (CBool t) = le_enc 1 (if t then 1 else 0 :: byte)"
| "cenc (CFloat t) = le_enc 4 t"
| "cenc (CDouble t) = le_enc 8 t"
| "cenc (CInt8 t) = le_enc 1 t"
| "cenc (CUint8 t) = le_enc 1 t"
| "cenc (CInt16 t) = le_enc 2 t"
| "cenc (CUint16 t) = le_enc 2 t"
| "cenc (CInt32 t) = varint (unat (encode_zigzag32 t))"
| "cenc (CUint32 t) = varint (unat t)"
| "cenc (CInt64 t) = varint (unat (encode_zigzag64 t))"
| "cenc (CUint64 t) = varint (unat t)"
| "cenc (CString t) = strv t"
| "cenc (CCharPtr t) = strv t"

fun ctype_of :: "cval \<Rightarrow> ctype option" where
  "ctype_of (CBool t) = Some TBool"
| "ctype_of (CFloat t) = Some TFloat"
| "ctype_of (CDouble t) = Some TDouble"
| "ctype_of (CInt8 t) = Some TInt8"
| "ctype_of (CUint8 t) = Some TUint8"
| "ctype_of (CInt16 t) = Some TInt16"
| "ctype_of (CUint16 t) = Some TUint16"
| "ctype_of (CInt32 t) = Some TInt32"
| "ctype_of (CUint32 t) = Some TUint32"
| "ctype_of (CInt64 t) = Some TInt64"
| "ctype_of (CUint64 t) = Some TUint64"
| "ctype_of (CString t) = (if length t < 2 ^ 64 then Some TString else None)"
| "ctype_of (CCharPtr t) = None"

text \<open>The equations with the state not applied.\<close>

lemma ser_write_eqs:
  "ser_write (CBool t0) = write_fint8 (if t0 then 1 else 0)"
  "ser_write (CFloat t1) = write_float t1" "ser_write (CDouble t2) = write_double t2"
  "ser_write (CInt8 t3) = write_fint8 t3" "ser_write (CUint8 t3) = write_fuint8 t3"
  "ser_write (CInt16 t4) = write_fint16 t4" "ser_write (CUint16 t4) = write_fuint16 t4"
  "ser_write (CInt32 t5) = write_int32 t5" "ser_write (CUint32 t5) = write_uint32 t5"
  "ser_write (CInt64 t6) = write_int64 t6" "ser_write (CUint64 t6) = write_uint64 t6"
  "ser_write (CString t7) = write_string_vint t7" "ser_write (CCharPtr t7) = write_string_vint t7"
  by (rule ext, simp)+

lemma ser_read_eqs:
  "ser_read TBool = (\<lambda>s. tagged (\<lambda>b. CBool (b \<noteq> 0)) (read_fint8 s))"
  "ser_read TFloat = (\<lambda>s. tagged CFloat (read_float s))"
  "ser_read TDouble = (\<lambda>s. tagged CDouble (read_double s))"
  "ser_read TInt8 = (\<lambda>s. tagged CInt8 (read_fint8 s))"
  "ser_read TUint8 = (\<lambda>s. tagged CUint8 (read_fuint8 s))"
  "ser_read TInt16 = (\<lambda>s. tagged CInt16 (read_fint16 s))"
  "ser_read TUint16 = (\<lambda>s. tagged CUint16 (read_fuint16 s))"
  "ser_read TInt32 = (\<lambda>s. tagged CInt32 (read_int32 s))"
  "ser_read TUint32 = (\<lambda>s. tagged CUint32 (read_uint32 s))"
  "ser_read TInt64 = (\<lambda>s. tagged CInt64 (read_int64 s))"
  "ser_read TUint64 = (\<lambda>s. tagged CUint64 (read_uint64 s))"
  "ser_read TString = (\<lambda>s. tagged CString (read_string_vint s))"
  by (rule ext, simp)+

lemma appends_string_vint: "appends (write_string_vint t) (strv t)"
  using write_string_appends(4) by (simp add: write_string_vint_def [abs_def] strv_def)

lemmas scalar_appends = appends_string_vint ci8.wr_appends [OF TrueI] cu8.wr_appends [OF TrueI]
  ci16.wr_appends [OF TrueI] cu16.wr_appends [OF TrueI] cfloat.wr_appends [OF TrueI]
  cdouble.wr_appends [OF TrueI] cz32.wr_appends [OF TrueI] cv32.wr_appends [OF TrueI]
  cz64.wr_appends [OF TrueI] cv64.wr_appends [OF TrueI]

lemmas scalar_exact = ci8.rd_exact [OF TrueI] cu8.rd_exact [OF TrueI]
  ci16.rd_exact [OF TrueI] cu16.rd_exact [OF TrueI] cfloat.rd_exact [OF TrueI]
  cdouble.rd_exact [OF TrueI] cz32.rd_exact [OF TrueI] cv32.rd_exact [OF TrueI]
  cz64.rd_exact [OF TrueI] cv64.rd_exact [OF TrueI] csv.rd_exact

lemma appends_ser_write: "appends (ser_write c) (cenc c)"
  by (cases c) (simp_all only: ser_write_eqs cenc.simps scalar_appends)

text \<open>Whether the last thing that is read of a value is any byte at all: not of an empty string.\<close>

fun cfull :: "cval \<Rightarrow> bool" where
  "cfull (CString t) \<longleftrightarrow> t \<noteq> []"
| "cfull (CCharPtr t) \<longleftrightarrow> t \<noteq> []"
| "cfull c \<longleftrightarrow> True"

lemma cenc_ne: "cenc c \<noteq> []"
proof -
  have "length (cenc c) \<noteq> 0" by (cases c) (simp_all add: strv_def)
  then show ?thesis by auto
qed

lemma exact_tagged: "reads_back full rd e x \<Longrightarrow> f x = y \<Longrightarrow> reads_back full (\<lambda>s. tagged f (rd s)) e y"
  unfolding tagged_def using exact_map [of full rd e x f] by simp

lemma exact_ser_read: "ctype_of c = Some ty \<Longrightarrow> reads_back (cfull c) (ser_read ty) (cenc c) c"
proof (cases c)
  case (CBool t)
  assume "ctype_of c = Some ty"
  with CBool have [simp]: "ty = TBool" by simp
  show ?thesis
    unfolding CBool by (simp only: \<open>ty = TBool\<close> ser_read_eqs cenc.simps cfull.simps, rule exact_tagged, rule scalar_exact) simp
next
  case (CString t)
  assume "ctype_of c = Some ty"
  with CString have t: "ty = TString" "length t < 2 ^ 64" by (simp_all split: if_splits)
  show ?thesis
    unfolding CString by (simp only: t ser_read_eqs cenc.simps cfull.simps, rule exact_tagged, rule csv.rd_exact) (use t in simp_all)
qed (auto simp: ser_read_eqs simp del: One_nat_def intro!: exact_tagged scalar_exact)

section \<open>Round trip of pairs and containers\<close>

fun venc :: "sval \<Rightarrow> bytes" where
  "venc (VPrim c) = cenc c"
| "venc (VPair a b) = venc a @ venc b"
| "venc (VSeq k xs) = varint (unat (of_nat (length xs) :: u64)) @ concat (map venc xs)"

fun vfull :: "sval \<Rightarrow> bool" where
  "vfull (VPrim c) \<longleftrightarrow> cfull c"
| "vfull (VPair a b) \<longleftrightarrow> vfull b"
| "vfull (VSeq k xs) \<longleftrightarrow> (let bs = map vfull xs in bs = [] \<or> last bs)"

lemma vfull_seq: "vfull (VSeq k xs) \<longleftrightarrow> xs = [] \<or> vfull (last xs)"
  by (cases "xs = []") (simp_all add: Let_def last_map)

lemma venc_ne: "venc v \<noteq> []"
  by (induction v) (simp_all add: cenc_ne)

text \<open>The states a container of each kind can be in, as the list of its elements.\<close>

fun ordered :: "(sval \<Rightarrow> sval \<Rightarrow> bool) \<Rightarrow> skind \<Rightarrow> sval list \<Rightarrow> bool" where
  "ordered lt KSet xs = sorted_wrt (\<lambda>x y. lt x y \<and> \<not> lt y x) xs"
| "ordered lt KMultiset xs = sorted_wrt (\<lambda>x y. \<not> lt y x) xs"
| "ordered lt KUset xs = sorted_wrt (\<lambda>x y. \<not> key_eq x y) xs"
| "ordered lt KMap xs = sorted_wrt (\<lambda>x y. lt (vfst x) (vfst y) \<and> \<not> lt (vfst y) (vfst x)) xs"
| "ordered lt KUmap xs = sorted_wrt (\<lambda>x y. \<not> key_eq (vfst x) (vfst y)) xs"
| "ordered lt KMultimap xs = sorted_wrt (\<lambda>x y. \<not> lt (vfst y) (vfst x)) xs"
| "ordered lt k xs = True"

fun has_ty :: "(sval \<Rightarrow> sval \<Rightarrow> bool) \<Rightarrow> sty \<Rightarrow> sval \<Rightarrow> bool" where
  "has_ty lt (TPrim c) (VPrim x) \<longleftrightarrow> ctype_of x = Some c"
| "has_ty lt (TPair a b) (VPair x y) \<longleftrightarrow> has_ty lt a x \<and> has_ty lt b y"
| "has_ty lt (TSeq k a) (VSeq k' xs) \<longleftrightarrow>
     k' = k \<and> length xs < 2 ^ 64 \<and> list_all (has_ty lt a) xs \<and> ordered lt k xs"
| "has_ty lt t v \<longleftrightarrow> False"

text \<open>The types \<^verbatim>\<open>operator>>\<close> reads: the elements of a sequence or set must be scalars.\<close>

fun readable :: "sty \<Rightarrow> bool" where
  "readable (TPrim c) \<longleftrightarrow> True"
| "readable (TPair a b) \<longleftrightarrow> readable a \<and> readable b"
| "readable (TSeq k (TPrim c)) \<longleftrightarrow> True"
| "readable (TSeq k a) \<longleftrightarrow> is_map k \<and> readable a"

lemma appends_shl_all: "(\<And>x. x \<in> set xs \<Longrightarrow> appends (shl x) (venc x)) \<Longrightarrow> appends (shl_all xs) (concat (map venc xs))"
proof (induction xs)
  case Nil
  have "shl_all [] = Inr" by (rule ext) simp
  then show ?case by (simp add: appends_Nil)
next
  case (Cons x xs)
  have "shl_all (x # xs) = (\<lambda>s. rbind (shl x s) (shl_all xs))" by (rule ext) simp
  then show ?case using appends_seq [of "shl x" "venc x" "shl_all xs"] Cons by simp
qed

lemma appends_shl: "appends (shl v) (venc v)"
proof (induction v)
  case (VPrim c)
  have "shl (VPrim c) = ser_write c" by (rule ext) simp
  then show ?case by (simp add: appends_ser_write)
next
  case (VPair a b)
  have "shl (VPair a b) = (\<lambda>s. rbind (shl a s) (shl b))" by (rule ext) simp
  then show ?case using appends_seq VPair by simp
next
  case (VSeq k xs)
  have "shl (VSeq k xs) = (\<lambda>s. rbind (ser_write (CUint64 (of_nat (length xs))) s) (shl_all xs))"
    by (rule ext) simp
  then show ?case
    using appends_seq [OF appends_ser_write [of "CUint64 (of_nat (length xs))"] appends_shl_all [of xs]] VSeq
    by simp
qed

lemma ordered_prefix: "ordered lt k (xs @ ys) \<Longrightarrow> ordered lt k xs"
  by (cases k) (auto simp: sorted_wrt_append)

lemma ins_unique_snoc: "(\<forall>y \<in> set ys. lt (key y) (key x) \<and> \<not> lt (key x) (key y)) \<Longrightarrow> ins_unique lt key x ys = ys @ [x]"
  by (induction ys) auto

lemma ins_upper_snoc: "(\<forall>y \<in> set ys. \<not> lt (key x) (key y)) \<Longrightarrow> ins_upper lt key x ys = ys @ [x]"
  by (induction ys) auto

lemma emplace_snoc: "ordered lt k (ys @ [x]) \<Longrightarrow> emplace lt k x ys = ys @ [x]"
  by (cases k) (auto simp: sorted_wrt_append ins_absent_def list_ex_iff intro!: ins_unique_snoc ins_upper_snoc)

lemma exact_read_n:
  assumes "\<And>x. x \<in> set xs \<Longrightarrow> reads_back (vfull x) rd (venc x) x" and "ordered lt k (acc @ xs)"
  shows "reads_back (xs = [] \<or> vfull (last xs)) (read_n rd (emplace lt k) (length xs) acc) (concat (map venc xs)) (acc @ xs)"
  using assms
proof (induction xs arbitrary: acc)
  case Nil
  have "read_n rd (emplace lt k) 0 acc = (\<lambda>s. Inr (acc, s))" by (rule ext) simp
  then show ?case by (simp add: exact_return)
next
  case (Cons x xs)
  have e: "emplace lt k x acc = acc @ [x]"
    using ordered_prefix [of lt k "acc @ [x]" xs] Cons.prems(2) by (simp add: emplace_snoc)
  have unfold: "read_n rd (emplace lt k) (length (x # xs)) acc =
      (\<lambda>s. rbind (rd s) (\<lambda>(y, s1). read_n rd (emplace lt k) (length xs) (emplace lt k y acc) s1))"
    by (rule ext) simp
  have x: "reads_back (vfull x) rd (venc x) x" using Cons.prems(1) by simp
  show ?case
  proof (cases "xs = []")
    case True
    then show ?thesis using exact_map [OF x, of "\<lambda>y. emplace lt k y acc"] unfolding unfold by (simp add: e case_prod_unfold)
  next
    case False
    have "reads_back (xs = [] \<or> vfull (last xs)) (read_n rd (emplace lt k) (length xs) (acc @ [x])) (concat (map venc xs)) ((acc @ [x]) @ xs)"
      by (rule Cons.IH) (use Cons.prems in simp_all)
    moreover have "concat (map venc xs) \<noteq> []" using False venc_ne by (cases xs) auto
    ultimately show ?thesis
      using exact_bind [OF reads_back_yields [OF x], of _ "\<lambda>y. read_n rd (emplace lt k) (length xs) (emplace lt k y acc)"] False
      unfolding unfold by (simp add: e)
  qed
qed

lemma exact_seq:
  assumes "\<And>x. x \<in> set xs \<Longrightarrow> reads_back (vfull x) rd (venc x) x" and "ordered lt k xs" and "length xs < 2 ^ 64"
  shows "reads_back (vfull (VSeq k xs)) (\<lambda>s. rbind (read_uint64 s) (\<lambda>(n, s1).
       tagged (VSeq k) (read_n rd (emplace lt k) (unat n) [] s1))) (venc (VSeq k xs)) (VSeq k xs)"
proof -
  have "reads_back (vfull (VSeq k xs)) (read_n rd (emplace lt k) (length xs) []) (concat (map venc xs)) xs"
    using exact_read_n [of xs rd lt k "[]"] assms unfolding vfull_seq by simp
  moreover have n: "unat (of_nat (length xs) :: u64) = length xs"
    using assms(3) by (simp add: unat_of_nat_small)
  ultimately have "reads_back (vfull (VSeq k xs)) (\<lambda>s. tagged (VSeq k) (read_n rd (emplace lt k) (unat (of_nat (length xs) :: u64)) [] s))
      (concat (map venc xs)) (VSeq k xs)"
    by (simp only: n exact_tagged)
  from exact_bind_full [OF cv64.rd_exact [OF TrueI], of _ "\<lambda>n s. tagged (VSeq k) (read_n rd (emplace lt k) (unat n) [] s)",
      OF this]
  show ?thesis by simp
qed

lemma exact_shr: "readable ty \<Longrightarrow> has_ty lt ty x \<Longrightarrow> reads_back (vfull x) (shr lt ty (dflt ty)) (venc x) x"
proof (induction lt ty x rule: has_ty.induct)
  case (1 lt c x)
  have "shr lt (TPrim c) (dflt (TPrim c)) = (\<lambda>s. tagged VPrim (ser_read c s))" by (rule ext) simp
  moreover have "reads_back (cfull x) (\<lambda>s. tagged VPrim (ser_read c s)) (cenc x) (VPrim x)"
    using 1 by (intro exact_tagged [of _ _ _ x] exact_ser_read) simp_all
  ultimately show ?case by simp
next
  case (2 lt a b x y)
  have eq: "shr lt (TPair a b) (dflt (TPair a b)) = (\<lambda>s. rbind (shr lt a (dflt a) s) (\<lambda>(x, s1).
     rbind (shr lt b (dflt b) s1) (\<lambda>(y, s2). Inr (VPair x y, s2))))"
    by (rule ext) simp
  have "reads_back (vfull y) (\<lambda>s. rbind (shr lt b (dflt b) s) (\<lambda>(y, s2). Inr (VPair x y, s2))) (venc y) (VPair x y)"
    using exact_map [of "vfull y" "shr lt b (dflt b)" "venc y" y "VPair x"] 2 by simp
  moreover have "yields (shr lt a (dflt a)) (venc x) x" using 2 by (auto intro: reads_back_yields)
  ultimately show ?case
    using exact_bind [of "shr lt a (dflt a)" "venc x" x "vfull y" "\<lambda>x s. rbind (shr lt b (dflt b) s) (\<lambda>(y, s2). Inr (VPair x y, s2))"]
      venc_ne
    by (simp add: eq)
next
  case (3 lt k a k' xs)
  let ?rd = "\<lambda>s. if is_map k then shr lt a (dflt a) s else read_elem a s"
  have eq: "shr lt (TSeq k a) (dflt (TSeq k a)) = (\<lambda>s. rbind (read_uint64 s) (\<lambda>(n, s1).
       tagged (VSeq k) (read_n ?rd (emplace lt k) (unat n) [] s1)))"
    by (rule ext) simp
  have "reads_back (vfull x) ?rd (venc x) x" if x: "x \<in> set xs" for x
  proof (cases "\<exists>c. a = TPrim c")
    case True
    then obtain c where c: "a = TPrim c" ..
    then obtain y where y: "x = VPrim y" "ctype_of y = Some c"
      using 3(3) x by (cases x) (fastforce simp: list_all_iff)+
    have "?rd = (\<lambda>s. tagged VPrim (ser_read c s))" by (rule ext) (simp add: c)
    moreover have "reads_back (cfull y) (\<lambda>s. tagged VPrim (ser_read c s)) (cenc y) (VPrim y)"
      using y by (intro exact_tagged [of _ _ _ y] exact_ser_read) simp_all
    ultimately show ?thesis using y by simp
  next
    case False
    then have "is_map k" "readable a" using 3(2) by (cases a; simp)+
    then show ?thesis using 3(1,3) x by (auto simp: list_all_iff)
  qed
  with 3(3) show ?case unfolding eq by (simp add: exact_seq del: venc.simps vfull.simps)
qed simp_all

interpretation cshr: exact_codec venc shl "shr lt ty (dflt ty)" "\<lambda>v. readable ty \<and> has_ty lt ty v" vfull
  by (rule exact_codecI) (simp_all add: appends_shl exact_shr)

text \<open>
  A sequence whose elements are containers themselves is not read back: only its length is
  consumed, and every element is empty.
\<close>

lemma read_n_noop: "read_n (\<lambda>s. Inr (d, s)) (emplace lt KVector) n acc s = Inr (acc @ replicate n d, s)"
  by (induction n arbitrary: acc) (simp_all add: replicate_app_Cons_same)

lemma nested_not_read:
  assumes "length xs < 2 ^ 64"
  shows "yields (shr lt (TSeq KVector (TSeq k a)) (dflt (TSeq KVector (TSeq k a))))
    (varint (length xs)) (VSeq KVector (replicate (length xs) (VSeq k [])))"
proof -
  have "shr lt (TSeq KVector (TSeq k a)) (dflt (TSeq KVector (TSeq k a))) =
     (\<lambda>s. rbind (read_uint64 s) (\<lambda>(n, s1). Inr (VSeq KVector (replicate (unat n) (VSeq k [])), s1)))"
    by (rule ext) (simp add: is_map_def read_n_noop tagged_def)
  moreover have "yields read_uint64 (varint (length xs)) (of_nat (length xs))"
    using cv64.rd_yields [OF TrueI, of "of_nat (length xs)"] assms by (simp add: unat_of_nat_small)
  ultimately show ?thesis
    using yields_map [of read_uint64 "varint (length xs)" "of_nat (length xs)"
        "\<lambda>n. VSeq KVector (replicate (unat n) (VSeq k []))"] assms
    by (simp add: unat_of_nat_small)
qed

section \<open>Properties\<close>

text \<open>
  C9: What \<^verbatim>\<open>operator<<\<close> writes at the end of the data, \<^verbatim>\<open>operator>>\<close> reads back into a new object of the same
  type, at scalars, strings, pairs, vectors and sets of scalars, and maps whose values may be any of these
  again, maps included. There is one exception, and there reading crashes: the last thing in the value is an
  empty string (\<open>vfull\<close> is false) and the data end exactly where the last block of the array does.
\<close>

theorem serializer_roundtrip:
  assumes "readable ty" and "has_ty lt ty v" and "ba_wf s" and "m_position s = m_size s"
  shows "\<exists>s'. shl v s = Inr s' \<and> ba_data s' = ba_data s @ venc v
    \<and> rbind (set_position (m_size s) s') (shr lt ty (dflt ty)) =
        (if m_size s' = m_capacity s' \<and> \<not> vfull v then Inl NullDeref else Inr (v, s'))"
  using cshr.write_then_read_exact [of ty lt v s] assms by simp

definition sample_map :: sval where
  "sample_map = VSeq KUmap [VPair (VPrim (CString [97])) (VSeq KVector [VPrim (CUint8 1), VPrim (CUint8 2)])]"

definition sample_ty :: sty where
  "sample_ty = TSeq KUmap (TPair (TPrim TString) (TSeq KVector (TPrim TUint8)))"

text \<open>The map is read back; the empty string, in blocks of one byte, is not.\<close>

lemma empty_string_in_one_block:
  "map_sum id (\<lambda>s. (m_size s, m_capacity s)) (shl (VPrim (CString [])) (ba_new 1 (\<lambda>_ _. 0))) = Inr (1, 1)"
  by code_simp

theorem serializer_roundtrip_witness:
  "(\<exists>s'. shl sample_map (ser_new (\<lambda>_ _. 0)) = Inr s'
     \<and> rbind (set_position 0 s') (shr (\<lambda>_ _. False) sample_ty (dflt sample_ty)) = Inr (sample_map, s'))
   \<and> (\<exists>s'. shl (VPrim (CString [])) (ba_new 1 (\<lambda>_ _. 0)) = Inr s'
     \<and> rbind (set_position 0 s') (shr (\<lambda>_ _. False) (TPrim TString) (dflt (TPrim TString))) = Inl NullDeref)"
proof
  show "\<exists>s'. shl sample_map (ser_new (\<lambda>_ _. 0)) = Inr s'
     \<and> rbind (set_position 0 s') (shr (\<lambda>_ _. False) sample_ty (dflt sample_ty)) = Inr (sample_map, s')"
    using serializer_roundtrip [of sample_ty "\<lambda>_ _. False" sample_map "ser_new (\<lambda>_ _. 0)"]
    by (auto simp: ser_new_def ba_new_wf sample_ty_def sample_map_def is_map_def simp del: shr.simps shl.simps dflt.simps)
next
  obtain s' where s': "shl (VPrim (CString [])) (ba_new 1 (\<lambda>_ _. 0)) = Inr s'" "m_size s' = 1" "m_capacity s' = 1"
    using empty_string_in_one_block
    by (cases "shl (VPrim (CString [])) (ba_new 1 (\<lambda>_ _. 0))") (auto simp del: shl.simps)
  have new: "ba_wf (ba_new 1 (\<lambda>_ _. 0))" "m_position (ba_new 1 (\<lambda>_ _. 0)) = m_size (ba_new 1 (\<lambda>_ _. 0))"
    "m_size (ba_new 1 (\<lambda>_ _. 0)) = 0"
    by (simp_all add: ba_new_wf)
  have ty: "readable (TPrim TString)" "has_ty (\<lambda>_ _. False) (TPrim TString) (VPrim (CString []))" by simp_all
  have "\<not> vfull (VPrim (CString []))" by simp
  with serializer_roundtrip [OF ty new(1,2)] s' new(3)
  show "\<exists>s'. shl (VPrim (CString [])) (ba_new 1 (\<lambda>_ _. 0)) = Inr s'
     \<and> rbind (set_position 0 s') (shr (\<lambda>_ _. False) (TPrim TString) (dflt (TPrim TString))) = Inl NullDeref"
    by (simp del: shr.simps shl.simps dflt.simps vfull.simps)
qed

text \<open>
  C32: A vector whose elements are containers is written whole, but reading it back consumes its
  length only and returns that many empty elements.
\<close>

theorem nested_vector_lost:
  assumes "length xs < 2 ^ 64" and "ba_wf s" and "stands_at (varint (length xs)) s"
    and "m_position s + length (varint (length xs)) < m_capacity s"
  shows "shr lt (TSeq KVector (TSeq k a)) (dflt (TSeq KVector (TSeq k a))) s
    = Inr (VSeq KVector (replicate (length xs) (VSeq k [])),
           ba_seek (m_position s + length (varint (length xs))) s)"
  using nested_not_read [OF assms(1), of lt k a] assms(2-4) unfolding yields_def by blast

theorem nested_vector_lost_witness:
  "\<exists>s. shl (VSeq KVector [VSeq KVector [VPrim (CUint8 7)]]) (ser_new (\<lambda>_ _. 0)) = Inr s
     \<and> shr (\<lambda>_ _. False) (TSeq KVector (TSeq KVector (TPrim TUint8))) (VSeq KVector []) (ba_seek 0 s)
        = Inr (VSeq KVector [VSeq KVector []], ba_seek 1 s)"
proof -
  let ?v = "VSeq KVector [VSeq KVector [VPrim (CUint8 7)]]"
  have "ba_wf (ser_new (\<lambda>_ _. 0))" "m_position (ser_new (\<lambda>_ _. 0)) = m_size (ser_new (\<lambda>_ _. 0))"
    "ba_data (ser_new (\<lambda>_ _. 0)) = []" "m_baseSize (ser_new (\<lambda>_ _. 0)) = 4096"
    by (simp_all add: ser_new_def ba_new_wf)
  then obtain s where s: "shl ?v (ser_new (\<lambda>_ _. 0)) = Inr s" "ba_wf s" "ba_data s = venc ?v" "m_baseSize s = 4096"
    using appends_shl [of ?v] unfolding appends_def by (metis append_Nil)
  have venc: "venc ?v = [1, 1, 7]" by (simp add: varint_small)
  then have "m_size s = 3" using ba_wf_length_data [OF s(2)] by (simp only: s(3)) simp
  then have "3 < m_capacity s" using ba_wf_slack [OF s(2)] s(4) by simp
  then have "shr (\<lambda>_ _. False) (TSeq KVector (TSeq KVector (TPrim TUint8)))
      (dflt (TSeq KVector (TSeq KVector (TPrim TUint8)))) (ba_seek 0 s)
      = Inr (VSeq KVector (replicate (length [()]) (VSeq KVector [])),
           ba_seek (m_position (ba_seek 0 s) + length (varint (length [()]))) (ba_seek 0 s))"
    using s venc by (intro nested_vector_lost) (simp_all add: stands_at_def varint_small)
  then show ?thesis using s(1) by (simp add: varint_small del: shr.simps shl.simps)
qed

end
