(* ===== verification/Protocol.thy ===== *)
theory Protocol
  imports Names Serializer
begin

text \<open>
  The wire format: \<^verbatim>\<open>src/core/protocol.h\<close> (the envelope), the message bodies of
  \<^verbatim>\<open>src/core/protocols/\<close>, and the static functions of \<^verbatim>\<open>src/core/channel.cc\<close> that turn them into
  strings and back. \<open>fresh\<close> stands for the contents of new memory; nothing the functions return
  depends on it. A class hierarchy of message bodies becomes the datatype \<open>message\<close>.
\<close>

section \<open>The envelope\<close>

datatype msg_type = kHeaderType | kAcceptInvitee | kAcceptInvitation | kRequestPortMerge
  | kResponsePortMerge | kUserMessage | kRequestIntroduction | kIntroduction | kBroadcastEvent
  | kAcceptPeer

fun msg_code :: "msg_type \<Rightarrow> byte" where
  "msg_code kHeaderType = 0"
| "msg_code kAcceptInvitee = 1"
| "msg_code kAcceptInvitation = 2"
| "msg_code kRequestPortMerge = 3"
| "msg_code kResponsePortMerge = 4"
| "msg_code kUserMessage = 5"
| "msg_code kRequestIntroduction = 6"
| "msg_code kIntroduction = 7"
| "msg_code kBroadcastEvent = 8"
| "msg_code kAcceptPeer = 9"

definition kMagic :: byte where
  "kMagic = 0xcc"

definition kDefaultVersion :: byte where
  "kDefaultVersion = 0x01"

definition kBaseLen :: nat where
  "kBaseLen = 7 + 4"

record protocol =
  p_magic :: byte
  p_version :: byte
  p_type :: byte
  p_content_length :: u32
  p_data :: bytes

definition protocol_default :: protocol where
  "protocol_default = \<lparr>p_magic = kMagic, p_version = kDefaultVersion, p_type = msg_code kUserMessage,
     p_content_length = 0, p_data = []\<rparr>"

definition protocol_create :: "msg_type \<Rightarrow> bytes \<Rightarrow> protocol" where
  "protocol_create ty content = protocol_default\<lparr>p_type := msg_code ty, p_data := content\<rparr>"

text \<open>\<^verbatim>\<open>EncodeMeta\<close> and \<^verbatim>\<open>Encode\<close>: a new byte array, the fields in order, the position at its start.\<close>

definition write_meta :: "protocol \<Rightarrow> byte_array \<Rightarrow> byte_array res" where
  "write_meta p bt =
     rbind (write_fuint8 (p_magic p) bt) (\<lambda>bt.
     rbind (write_fuint8 (p_version p) bt) (\<lambda>bt.
     rbind (write_fuint8 (p_type p) bt)
       (write_fuint32 (of_nat (length (p_data p))))))"

definition encode_meta :: "(nat \<Rightarrow> nat \<Rightarrow> byte) \<Rightarrow> protocol \<Rightarrow> byte_array res" where
  "encode_meta fresh p = rbind (write_meta p (ba_new 4096 fresh)) (set_position 0)"

definition protocol_encode :: "(nat \<Rightarrow> nat \<Rightarrow> byte) \<Rightarrow> protocol \<Rightarrow> byte_array res" where
  "protocol_encode fresh p =
     rbind (rbind (write_meta p (ba_new 4096 fresh)) (write_string_f32 (p_data p))) (set_position 0)"

definition decode_meta :: "protocol \<Rightarrow> byte_array \<Rightarrow> (protocol \<times> byte_array) res" where
  "decode_meta p bt =
     rbind (read_fuint8 bt) (\<lambda>(a, bt).
     rbind (read_fuint8 bt) (\<lambda>(b, bt).
     rbind (read_fuint8 bt) (\<lambda>(c, bt).
     rbind (read_fuint32 bt) (\<lambda>(d, bt).
       Inr (p\<lparr>p_magic := a, p_version := b, p_type := c, p_content_length := d\<rparr>, bt)))))"

definition protocol_decode :: "protocol \<Rightarrow> byte_array \<Rightarrow> (protocol \<times> byte_array) res" where
  "protocol_decode p bt = decode_meta p bt"

section \<open>Message bodies\<close>

record user_message =
  um_from_port_name :: port_name
  um_to_port_name :: port_name
  um_data :: bytes

definition user_message_default :: user_message where
  "user_message_default = \<lparr>um_from_port_name = kInvalidName, um_to_port_name = kInvalidName, um_data = []\<rparr>"

text \<open>Two \<^verbatim>\<open>writeFuint64\<close>, two \<^verbatim>\<open>readFuint64\<close>.\<close>

definition write_name :: "name \<Rightarrow> byte_array \<Rightarrow> byte_array res" where
  "write_name nm bt = rbind (write_fuint64 (nm_v1 nm) bt) (write_fuint64 (nm_v2 nm))"

definition read_name :: "byte_array \<Rightarrow> (name \<times> byte_array) res" where
  "read_name bt =
     rbind (read_fuint64 bt) (\<lambda>(a, bt).
     rbind (read_fuint64 bt) (\<lambda>(b, bt). Inr (Name a b, bt)))"

definition write_accept_invitee :: "name \<Rightarrow> name \<Rightarrow> byte_array \<Rightarrow> byte_array res" where
  "write_accept_invitee token inviter_name bt = rbind (write_name token bt) (write_name inviter_name)"

definition write_accept_invitation :: "name \<Rightarrow> name \<Rightarrow> byte_array \<Rightarrow> byte_array res" where
  "write_accept_invitation token invitee_name bt = rbind (write_name token bt) (write_name invitee_name)"

definition write_accept_peer :: "name \<Rightarrow> name \<Rightarrow> name \<Rightarrow> byte_array \<Rightarrow> byte_array res" where
  "write_accept_peer token peer_name port_nm bt =
     rbind (rbind (write_name token bt) (write_name peer_name)) (write_name port_nm)"

definition write_request_port_merge :: "name \<Rightarrow> bytes \<Rightarrow> byte_array \<Rightarrow> byte_array res" where
  "write_request_port_merge connector pipe_name bt =
     rbind (write_name connector bt) (write_string_f64 pipe_name)"

definition write_response_port_merge :: "name \<Rightarrow> name \<Rightarrow> byte_array \<Rightarrow> byte_array res" where
  "write_response_port_merge connector port_nm bt = rbind (write_name connector bt) (write_name port_nm)"

definition write_user_message :: "user_message \<Rightarrow> byte_array \<Rightarrow> byte_array res" where
  "write_user_message m bt =
     rbind (rbind (write_name (um_from_port_name m) bt) (write_name (um_to_port_name m)))
       (write_string_f32 (um_data m))"

text \<open>A reader returns the fields in the order of the class.\<close>

definition read_accept_invitee :: "byte_array \<Rightarrow> ((name \<times> name) \<times> byte_array) res" where
  "read_accept_invitee bt =
     rbind (read_name bt) (\<lambda>(token, bt).
     rbind (read_name bt) (\<lambda>(inviter_name, bt). Inr ((token, inviter_name), bt)))"

definition read_accept_invitation :: "byte_array \<Rightarrow> ((name \<times> name) \<times> byte_array) res" where
  "read_accept_invitation bt =
     rbind (read_name bt) (\<lambda>(token, bt).
     rbind (read_name bt) (\<lambda>(invitee_name, bt). Inr ((token, invitee_name), bt)))"

definition read_accept_peer :: "byte_array \<Rightarrow> ((name \<times> name \<times> name) \<times> byte_array) res" where
  "read_accept_peer bt =
     rbind (read_name bt) (\<lambda>(token, bt).
     rbind (read_name bt) (\<lambda>(peer_name, bt).
     rbind (read_name bt) (\<lambda>(port_nm, bt). Inr ((token, peer_name, port_nm), bt))))"

definition read_request_port_merge :: "byte_array \<Rightarrow> ((name \<times> bytes) \<times> byte_array) res" where
  "read_request_port_merge bt =
     rbind (read_name bt) (\<lambda>(connector, bt).
     rbind (read_string_f64 bt) (\<lambda>(pipe_name, bt). Inr ((connector, pipe_name), bt)))"

definition read_response_port_merge :: "byte_array \<Rightarrow> ((name \<times> name) \<times> byte_array) res" where
  "read_response_port_merge bt =
     rbind (read_name bt) (\<lambda>(connector, bt).
     rbind (read_name bt) (\<lambda>(port_nm, bt). Inr ((connector, port_nm), bt)))"

definition read_user_message :: "byte_array \<Rightarrow> (user_message \<times> byte_array) res" where
  "read_user_message bt =
     rbind (read_name bt) (\<lambda>(from, bt).
     rbind (read_name bt) (\<lambda>(to, bt).
     rbind (read_string_f32 bt) (\<lambda>(str, bt).
       Inr (\<lparr>um_from_port_name = from, um_to_port_name = to, um_data = str\<rparr>, bt))))"

datatype message =
    AcceptInvitee name name
  | AcceptInvitation name name
  | AcceptPeer name name name
  | RequestPortMerge name bytes
  | ResponsePortMerge name name
  | UserMessage user_message

fun message_type :: "message \<Rightarrow> msg_type" where
  "message_type (AcceptInvitee t n) = kAcceptInvitee"
| "message_type (AcceptInvitation t n) = kAcceptInvitation"
| "message_type (AcceptPeer t n p) = kAcceptPeer"
| "message_type (RequestPortMerge c n) = kRequestPortMerge"
| "message_type (ResponsePortMerge c p) = kResponsePortMerge"
| "message_type (UserMessage m) = kUserMessage"

fun message_write :: "message \<Rightarrow> byte_array \<Rightarrow> byte_array res" where
  "message_write (AcceptInvitee t n) bt = write_accept_invitee t n bt"
| "message_write (AcceptInvitation t n) bt = write_accept_invitation t n bt"
| "message_write (AcceptPeer t n p) bt = write_accept_peer t n p bt"
| "message_write (RequestPortMerge c n) bt = write_request_port_merge c n bt"
| "message_write (ResponsePortMerge c p) bt = write_response_port_merge c p bt"
| "message_write (UserMessage m) bt = write_user_message m bt"

definition message_encode :: "(nat \<Rightarrow> nat \<Rightarrow> byte) \<Rightarrow> message \<Rightarrow> byte_array res" where
  "message_encode fresh m = rbind (message_write m (ba_new 4096 fresh)) (set_position 0)"

section \<open>Strings on the wire\<close>

definition serialize_protocol :: "(nat \<Rightarrow> nat \<Rightarrow> byte) \<Rightarrow> protocol \<Rightarrow> bytes res" where
  "serialize_protocol fresh p = rbind (protocol_encode fresh p) ba_to_string"

definition serialize_message :: "(nat \<Rightarrow> nat \<Rightarrow> byte) \<Rightarrow> message \<Rightarrow> bytes res" where
  "serialize_message fresh m = rbind (message_encode fresh m) ba_to_string"

text \<open>
  Both deserializers put the string into a serializer, which prefixes its length, go back to the
  start and skip one byte for the prefix.
\<close>

definition deserialize :: "(nat \<Rightarrow> nat \<Rightarrow> byte) \<Rightarrow> bytes \<Rightarrow> (byte_array \<Rightarrow> ('a \<times> byte_array) res) \<Rightarrow> 'a res" where
  "deserialize fresh raw decode =
     rbind (ser_write (CString raw) (ser_new fresh)) (\<lambda>s.
     rbind (ser_reset s) (\<lambda>s.
     rbind (ser_offset 1 s) (\<lambda>s.
     rbind (decode s) (\<lambda>(x, _). Inr x))))"

definition deserialize_protocol :: "(nat \<Rightarrow> nat \<Rightarrow> byte) \<Rightarrow> bytes \<Rightarrow> protocol res" where
  "deserialize_protocol fresh raw = deserialize fresh raw (protocol_decode protocol_default)"

section \<open>Encodings\<close>

definition name_bytes :: "name \<Rightarrow> bytes" where
  "name_bytes nm = le_enc 8 (nm_v1 nm) @ le_enc 8 (nm_v2 nm)"

fun message_bytes :: "message \<Rightarrow> bytes" where
  "message_bytes (AcceptInvitee t n) = name_bytes t @ name_bytes n"
| "message_bytes (AcceptInvitation t n) = name_bytes t @ name_bytes n"
| "message_bytes (AcceptPeer t n p) = name_bytes t @ name_bytes n @ name_bytes p"
| "message_bytes (RequestPortMerge c n) = name_bytes c @ str64 n"
| "message_bytes (ResponsePortMerge c p) = name_bytes c @ name_bytes p"
| "message_bytes (UserMessage m) =
     name_bytes (um_from_port_name m) @ name_bytes (um_to_port_name m) @ str32 (um_data m)"

definition meta_bytes :: "protocol \<Rightarrow> nat \<Rightarrow> bytes" where
  "meta_bytes p n = [p_magic p, p_version p, p_type p] @ le_enc 4 (of_nat n :: u32)"

definition protocol_bytes :: "protocol \<Rightarrow> bytes" where
  "protocol_bytes p = meta_bytes p (length (p_data p)) @ str32 (p_data p)"

end
