(* ===== verification/Message_Queue.thy ===== *)
theory Message_Queue
  imports Protocol
begin

text \<open>
  \<^verbatim>\<open>src/core/ports/message_queue.cc\<close> and \<^verbatim>\<open>message_queue.h\<close>: the queue of received user messages of a
  port. \<^verbatim>\<open>heap_\<close> is a vector; taking from an empty one is outside its contract. Shrinking the
  allocation has no effect on the contents. The properties say in which order messages come out.
\<close>

section \<open>State and operations\<close>

record message_queue =
  mq_heap :: "user_message list"
  mq_next_sequence_num :: u64
  mq_signalable :: bool

definition kInitialSequenceNum :: u64 where
  "kInitialSequenceNum = 1"

definition mq_from :: "u64 \<Rightarrow> message_queue" where
  "mq_from n = \<lparr>mq_heap = [], mq_next_sequence_num = n, mq_signalable = True\<rparr>"

definition mq_new :: message_queue where
  "mq_new = mq_from kInitialSequenceNum"

definition set_signalable :: "bool \<Rightarrow> message_queue \<Rightarrow> message_queue" where
  "set_signalable val q = q\<lparr>mq_signalable := val\<rparr>"

definition has_next_message :: "message_queue \<Rightarrow> bool" where
  "has_next_message q \<longleftrightarrow> mq_heap q \<noteq> []"

definition get_next_message :: "message_queue \<Rightarrow> (user_message \<times> message_queue) res" where
  "get_next_message q =
     (if mq_heap q = [] then Inl MemoryOverrun
      else Inr (last (mq_heap q), q\<lparr>mq_heap := butlast (mq_heap q)\<rparr>))"

definition message_processed :: "message_queue \<Rightarrow> message_queue" where
  "message_processed q = q\<lparr>mq_next_sequence_num := mq_next_sequence_num q + 1\<rparr>"

definition accept_message :: "user_message \<Rightarrow> message_queue \<Rightarrow> bool \<times> message_queue" where
  "accept_message m q = (mq_signalable q, q\<lparr>mq_heap := mq_heap q @ [m]\<rparr>)"

definition task_all_messages :: "message_queue \<Rightarrow> user_message list \<times> message_queue" where
  "task_all_messages q = (mq_heap q, q\<lparr>mq_heap := []\<rparr>)"

definition queued_message_count :: "message_queue \<Rightarrow> nat" where
  "queued_message_count q = length (mq_heap q)"

section \<open>The interface of a message store\<close>

text \<open>
  What a client of the queue relies on: a store with contents, whose order of delivery is given by
  where \<open>get\<close> takes from.
\<close>

locale message_store =
  fixes put :: "'m \<Rightarrow> 'q \<Rightarrow> 'q"
    and get :: "'q \<Rightarrow> ('m \<times> 'q) res"
    and contents :: "'q \<Rightarrow> 'm list"
  assumes contents_put: "contents (put m q) = contents q @ [m]"
    and get_some: "contents q = ms @ [m] \<Longrightarrow> \<exists>q'. get q = Inr (m, q') \<and> contents q' = ms"
begin

fun put_all :: "'m list \<Rightarrow> 'q \<Rightarrow> 'q" where
  "put_all [] q = q"
| "put_all (m # ms) q = put_all ms (put m q)"

fun get_n :: "nat \<Rightarrow> 'q \<Rightarrow> ('m list \<times> 'q) res" where
  "get_n 0 q = Inr ([], q)"
| "get_n (Suc n) q = rbind (get q) (\<lambda>(m, q1). rbind (get_n n q1) (\<lambda>(ms, q2). Inr (m # ms, q2)))"

lemma contents_put_all: "contents (put_all ms q) = contents q @ ms"
  by (induction ms arbitrary: q) (simp_all add: contents_put)

lemma get_n_last: "contents q = old @ ms \<Longrightarrow> \<exists>q'. get_n (length ms) q = Inr (rev ms, q') \<and> contents q' = old"
proof (induction ms arbitrary: q rule: rev_induct)
  case (snoc m ms)
  then obtain q1 where "get q = Inr (m, q1)" "contents q1 = old @ ms"
    using get_some [of q "old @ ms" m] by auto
  with snoc.IH [of q1] show ?case by auto
qed simp

lemma put_all_get_n: "\<exists>q'. get_n (length ms) (put_all ms q) = Inr (rev ms, q') \<and> contents q' = contents q"
  by (rule get_n_last) (simp add: contents_put_all)

end

definition mq_put :: "user_message \<Rightarrow> message_queue \<Rightarrow> message_queue" where
  "mq_put m q = snd (accept_message m q)"

interpretation mq: message_store mq_put get_next_message mq_heap
  by unfold_locales (auto simp: mq_put_def accept_message_def get_next_message_def)

section \<open>Properties\<close>

text \<open>The queue filled and emptied, over the operations of the code.\<close>

fun accept_all :: "user_message list \<Rightarrow> message_queue \<Rightarrow> message_queue" where
  "accept_all [] q = q"
| "accept_all (m # ms) q = accept_all ms (snd (accept_message m q))"

fun drain :: "nat \<Rightarrow> message_queue \<Rightarrow> (user_message list \<times> message_queue) res" where
  "drain 0 q = Inr ([], q)"
| "drain (Suc n) q = rbind (get_next_message q) (\<lambda>(m, q1). rbind (drain n q1) (\<lambda>(ms, q2). Inr (m # ms, q2)))"

lemma accept_all_eq: "accept_all ms q = mq.put_all ms q"
  by (induction ms arbitrary: q) (simp_all add: mq_put_def)

lemma drain_eq: "drain n q = mq.get_n n q"
  by (induction n arbitrary: q) simp_all

text \<open>
  Messages come out of the queue in the reverse of the order they were accepted in: taking as
  many as were added returns exactly those, last first, and leaves the older ones.
\<close>

lemma message_queue_reverses:
  "\<exists>q'. drain (length ms) (accept_all ms q) = Inr (rev ms, q') \<and> mq_heap q' = mq_heap q"
  unfolding accept_all_eq drain_eq by (rule mq.put_all_get_n)

end
