(* ===== verification/Ports_Node.thy ===== *)
theory Ports_Node
  imports Message_Queue
begin

text \<open>
  \<^verbatim>\<open>src/core/ports/\<close>: ports, port references, events and the \<^verbatim>\<open>Node\<close> of a process. Ports are shared
  objects, so they live in an explicit store (\<open>nd_heap\<close>, allocated upwards) and a port reference
  holds an index into it, or \<open>None\<close> for a null pointer. The random name source is a parameter: the
  \<open>i\<close>-th name of the \<open>c\<close>-th call of \<^verbatim>\<open>base::RandBytes\<close>, which the repository declares only. A result
  that a function forgets to return is \<open>None\<close>.
\<close>

section \<open>Random names\<close>

record rng =
  rg_source :: "nat \<Rightarrow> nat \<Rightarrow> name"
  rg_calls :: nat
  rg_cache :: "name list"
  rg_index :: nat

definition kRandomNameCacheSize :: nat where
  "kRandomNameCacheSize = 256"

definition rng_new :: "(nat \<Rightarrow> nat \<Rightarrow> name) \<Rightarrow> rng" where
  "rng_new source = \<lparr>rg_source = source, rg_calls = 0,
     rg_cache = replicate kRandomNameCacheSize kInvalidName, rg_index = kRandomNameCacheSize\<rparr>"

definition generate_random_name :: "rng \<Rightarrow> name \<times> rng" where
  "generate_random_name g = (rg_source g (rg_calls g) 0, g\<lparr>rg_calls := Suc (rg_calls g)\<rparr>)"

definition generate_random_port_name :: "rng \<Rightarrow> port_name \<times> rng" where
  "generate_random_port_name g =
     (let g1 = (if rg_index g = kRandomNameCacheSize
                then g\<lparr>rg_cache := map (rg_source g (rg_calls g)) [0..<kRandomNameCacheSize],
                       rg_calls := Suc (rg_calls g), rg_index := 0\<rparr>
                else g)
      in (rg_cache g1 ! rg_index g1, g1\<lparr>rg_index := Suc (rg_index g1)\<rparr>))"

section \<open>Events, ports, references\<close>

record event =
  ev_to_port :: port_name
  ev_from_port :: port_name
  ev_message :: "message option"

definition event_create :: event where
  "event_create = \<lparr>ev_to_port = kInvalidName, ev_from_port = kInvalidName, ev_message = None\<rparr>"

definition attach_message :: "message \<Rightarrow> event \<Rightarrow> event" where
  "attach_message m e = e\<lparr>ev_message := Some m\<rparr>"

text \<open>\<^verbatim>\<open>GetMessage<UserMessage>()\<close>: the dynamic cast gives null for another class.\<close>

definition get_user_message :: "event \<Rightarrow> user_message option" where
  "get_user_message e = (case ev_message e of Some (UserMessage m) \<Rightarrow> Some m | _ \<Rightarrow> None)"

datatype port_state = kUninitialized | kReceiving | kBuffering | kProxying | kClosed

record port =
  pt_state :: port_state
  pt_peer_port_name :: port_name
  pt_peer_node_name :: node_name
  pt_message_queue :: message_queue
  pt_control_message_queue :: "(node_name \<times> event) list"
  pt_peer_closed :: bool
  pt_peer_lost_unexpectedly :: bool
  pt_control_event_queues :: "(node_name \<times> port_name) \<Rightarrow> event list option"

text \<open>\<^verbatim>\<open>make_shared<Port>()\<close> value-initializes, so the members without initializer are zero.\<close>

definition port_create :: port where
  "port_create = \<lparr>pt_state = kUninitialized, pt_peer_port_name = kInvalidName,
     pt_peer_node_name = kInvalidName, pt_message_queue = mq_new, pt_control_message_queue = [],
     pt_peer_closed = False, pt_peer_lost_unexpectedly = False,
     pt_control_event_queues = (\<lambda>_. None)\<rparr>"

definition is_next_event :: "node_name \<Rightarrow> event \<Rightarrow> port \<Rightarrow> bool" where
  "is_next_event from_node e p \<longleftrightarrow> True"

definition take_pending_message :: "event list \<Rightarrow> port \<Rightarrow> event list" where
  "take_pending_message messages p = messages"

definition buffer_event :: "node_name \<Rightarrow> event \<Rightarrow> port \<Rightarrow> port" where
  "buffer_event from_node e p =
     (let (heap, queues) = um_index [] (from_node, ev_from_port e) (pt_control_event_queues p)
      in p\<lparr>pt_control_event_queues := queues((from_node, ev_from_port e) \<mapsto> heap @ [e])\<rparr>)"

record port_ref =
  pr_name :: port_name
  pr_port :: "nat option"

definition port_ref_default :: port_ref where
  "port_ref_default = \<lparr>pr_name = kInvalidName, pr_port = None\<rparr>"

definition port_ref_make :: "port_name \<Rightarrow> nat option \<Rightarrow> port_ref" where
  "port_ref_make nm p = \<lparr>pr_name = nm, pr_port = p\<rparr>"

definition pr_is_valid :: "port_ref \<Rightarrow> bool" where
  "pr_is_valid r \<longleftrightarrow> pr_port r \<noteq> None"

section \<open>The node\<close>

definition node_OK :: int where "node_OK = 0"
definition ERROR_PORT_UNKNOWN :: int where "ERROR_PORT_UNKNOWN = - 10"
definition ERROR_PORT_EXISTS :: int where "ERROR_PORT_EXISTS = - 11"
definition ERROR_PORT_STATE_UNEXPECTED :: int where "ERROR_PORT_STATE_UNEXPECTED = - 12"

type_synonym peer_port_map = "port_name \<rightharpoonup> (port_name, port_ref) omap"

record ports_node =
  nd_name :: node_name
  nd_ports :: "port_name \<rightharpoonup> nat option"
  nd_peer_port_maps :: "node_name \<rightharpoonup> peer_port_map"
  nd_heap :: "port list"
  nd_rng :: rng

definition node_new :: "node_name \<Rightarrow> rng \<Rightarrow> ports_node" where
  "node_new nm g = \<lparr>nd_name = nm, nd_ports = (\<lambda>_. None), nd_peer_port_maps = (\<lambda>_. None),
     nd_heap = [], nd_rng = g\<rparr>"

definition deref_port :: "nat option \<Rightarrow> ports_node \<Rightarrow> port res" where
  "deref_port p nd =
     (case p of None \<Rightarrow> Inl NullDeref
      | Some a \<Rightarrow> if a < length (nd_heap nd) then Inr (nd_heap nd ! a) else Inl NullDeref)"

definition set_port :: "nat option \<Rightarrow> port \<Rightarrow> ports_node \<Rightarrow> ports_node" where
  "set_port p x nd = (case p of None \<Rightarrow> nd | Some a \<Rightarrow> nd\<lparr>nd_heap := (nd_heap nd)[a := x]\<rparr>)"

text \<open>\<^verbatim>\<open>peer_port_maps_[node][peer].emplace(local, ref)\<close>.\<close>

definition register_peer :: "node_name \<Rightarrow> port_name \<Rightarrow> port_name \<Rightarrow> port_ref \<Rightarrow> ports_node \<Rightarrow> ports_node" where
  "register_peer peer_node peer_port local_port r nd =
     (let (ppm, maps) = um_index (\<lambda>_. None) peer_node (nd_peer_port_maps nd);
          (refs, ppm') = um_index [] peer_port ppm
      in nd\<lparr>nd_peer_port_maps := maps(peer_node \<mapsto> ppm'(peer_port \<mapsto> om_emplace local_port r refs))\<rparr>)"

definition add_port_with_name :: "port_name \<Rightarrow> nat option \<Rightarrow> ports_node \<Rightarrow> (int \<times> ports_node) res" where
  "add_port_with_name nm p nd =
     rbind (deref_port p nd) (\<lambda>port.
       let nd1 = (if pt_peer_port_name port \<noteq> kInvalidName
                  then register_peer (pt_peer_node_name port) (pt_peer_port_name port) nm
                         (port_ref_make nm p) nd
                  else nd)
       in if nd_ports nd1 nm \<noteq> None then Inr (ERROR_PORT_EXISTS, nd1)
          else Inr (node_OK, nd1\<lparr>nd_ports := um_emplace nm p (nd_ports nd1)\<rparr>))"

text \<open>The out parameter is passed in and returned.\<close>

definition create_uninitialized_port :: "port_ref \<Rightarrow> ports_node \<Rightarrow> (int \<times> port_ref \<times> ports_node) res" where
  "create_uninitialized_port r nd =
     (let (nm, g) = generate_random_port_name (nd_rng nd);
          p = Some (length (nd_heap nd));
          nd1 = nd\<lparr>nd_rng := g, nd_heap := nd_heap nd @ [port_create]\<rparr>
      in rbind (add_port_with_name nm p nd1) (\<lambda>(e, nd2).
           if e \<noteq> node_OK then Inr (e, r, nd2)
           else Inr (node_OK, port_ref_make nm p, nd2)))"

definition update_port_peer_address ::
  "port_name \<Rightarrow> nat option \<Rightarrow> node_name \<Rightarrow> port_name \<Rightarrow> ports_node \<Rightarrow> ports_node res" where
  "update_port_peer_address local_name local_port new_peer_node new_peer_port nd =
     rbind (deref_port local_port nd) (\<lambda>port.
       let nd1 = set_port local_port (port\<lparr>pt_peer_node_name := new_peer_node,
                                         pt_peer_port_name := new_peer_port\<rparr>) nd
       in Inr (if new_peer_port \<noteq> kInvalidName
               then register_peer new_peer_node new_peer_port local_name
                      (port_ref_make local_name local_port) nd1
               else nd1))"

definition initialize_port :: "port_ref \<Rightarrow> node_name \<Rightarrow> port_name \<Rightarrow> ports_node \<Rightarrow> (int \<times> ports_node) res" where
  "initialize_port r peer_node_nm peer_port_nm nd =
     rbind (deref_port (pr_port r) nd) (\<lambda>port.
       if pt_state port \<noteq> kUninitialized then Inr (ERROR_PORT_STATE_UNEXPECTED, nd)
       else let nd1 = set_port (pr_port r) (port\<lparr>pt_state := kReceiving\<rparr>) nd in
         rbind (update_port_peer_address (pr_name r) (pr_port r) peer_node_nm peer_port_nm nd1)
           (\<lambda>nd2. Inr (node_OK, nd2)))"

definition create_port_pair ::
  "port_ref \<Rightarrow> port_ref \<Rightarrow> ports_node \<Rightarrow> (int \<times> port_ref \<times> port_ref \<times> ports_node) res" where
  "create_port_pair r0 r1 nd =
     rbind (create_uninitialized_port r0 nd) (\<lambda>(e, r0, nd).
       if e \<noteq> node_OK then Inr (e, r0, r1, nd)
       else rbind (create_uninitialized_port r1 nd) (\<lambda>(e, r1, nd).
         if e \<noteq> node_OK then Inr (e, r0, r1, nd)
         else rbind (initialize_port r0 (nd_name nd) (pr_name r1) nd) (\<lambda>(e, nd).
           if e \<noteq> node_OK then Inr (e, r0, r1, nd)
           else rbind (initialize_port r1 (nd_name nd) (pr_name r0) nd) (\<lambda>(e, nd).
             if e \<noteq> node_OK then Inr (e, r0, r1, nd)
             else Inr (node_OK, r0, r1, nd)))))"

definition erase_port :: "port_name \<Rightarrow> ports_node \<Rightarrow> ports_node" where
  "erase_port nm nd =
     (case nd_ports nd nm of None \<Rightarrow> nd | Some _ \<Rightarrow> nd\<lparr>nd_ports := um_erase nm (nd_ports nd)\<rparr>)"

text \<open>\<^verbatim>\<open>ClosePort\<close> has no \<^verbatim>\<open>return\<close> statement.\<close>

definition close_port :: "port_ref \<Rightarrow> ports_node \<Rightarrow> (int option \<times> ports_node) res" where
  "close_port r nd =
     rbind (deref_port (pr_port r) nd) (\<lambda>port.
       let messages = take_pending_message [] port
       in Inr (None, erase_port (pr_name r) nd))"

text \<open>The local port name is returned also when the merge fails.\<close>

definition merge_ports ::
  "port_ref \<Rightarrow> node_name \<Rightarrow> port_name \<Rightarrow> ports_node \<Rightarrow> (int \<times> port_name \<times> ports_node) res" where
  "merge_ports r destination_node destination_port nd =
     (let nd1 = erase_port (pr_name r) nd in
      rbind (deref_port (pr_port r) nd1) (\<lambda>remote_port.
        let local_name = pt_peer_port_name remote_port in
        case nd_ports nd1 local_name of
          None \<Rightarrow> Inr (ERROR_PORT_UNKNOWN, local_name, nd1)
        | Some p \<Rightarrow>
            rbind (deref_port p nd1) (\<lambda>local_port.
              let (ppm, maps) = um_index (\<lambda>_. None) (pt_peer_node_name local_port) (nd_peer_port_maps nd1);
                  nd2 = nd1\<lparr>nd_peer_port_maps :=
                           maps(pt_peer_node_name local_port \<mapsto> um_erase (pr_name r) ppm)\<rparr>
              in rbind (update_port_peer_address local_name p destination_node destination_port nd2)
                   (\<lambda>nd3. Inr (node_OK, local_name, nd3)))))"

text \<open>\<^verbatim>\<open>peer_port_maps_[name_][peer][local]\<close>, each index made by default when absent.\<close>

definition index_peer :: "node_name \<Rightarrow> port_name \<Rightarrow> port_name \<Rightarrow> ports_node \<Rightarrow> port_ref \<times> ports_node" where
  "index_peer nm peer_port local_port nd =
     (let (ppm, maps) = um_index (\<lambda>_. None) nm (nd_peer_port_maps nd);
          (refs, ppm') = um_index [] peer_port ppm;
          (r, refs') = om_index port_ref_default local_port refs
      in (r, nd\<lparr>nd_peer_port_maps := maps(nm \<mapsto> ppm'(peer_port \<mapsto> refs'))\<rparr>))"

definition merge_ports_response ::
  "port_name \<Rightarrow> node_name \<Rightarrow> port_name \<Rightarrow> ports_node \<Rightarrow> (int \<times> ports_node) res" where
  "merge_ports_response local_peer_port_nm destination_node destination_port nd =
     (case nd_ports nd local_peer_port_nm of
        None \<Rightarrow> Inr (ERROR_PORT_UNKNOWN, nd)
      | Some p \<Rightarrow>
          rbind (deref_port p nd) (\<lambda>local_peer_port.
            let local_name = pt_peer_port_name local_peer_port;
                (r, nd1) = index_peer (nd_name nd) local_peer_port_nm local_name nd
            in rbind (merge_ports r destination_node destination_port nd1)
                 (\<lambda>(_, _, nd2). Inr (0, nd2))))"

text \<open>
  Sending goes through the delegate, \<open>forward\<close>, whose state is the caller's; \<open>nd\<close> is the node in
  that state. \<^verbatim>\<open>SendUserMessageInternal\<close> has no \<^verbatim>\<open>return\<close> statement, so the result of
  \<^verbatim>\<open>SendUserMessage\<close> is indeterminate.
\<close>

definition send_user_message_internal ::
  "(node_name \<Rightarrow> event \<Rightarrow> 's \<Rightarrow> 's res) \<Rightarrow> ports_node \<Rightarrow> port_ref \<Rightarrow> event \<Rightarrow> 's \<Rightarrow> (int option \<times> event \<times> 's) res" where
  "send_user_message_internal forward nd r e s =
     rbind (deref_port (pr_port r) nd) (\<lambda>port.
       case get_user_message e of
         None \<Rightarrow> Inl NullDeref
       | Some m \<Rightarrow>
           let e1 = e\<lparr>ev_from_port := pr_name r, ev_to_port := pt_peer_port_name port,
                      ev_message := Some (UserMessage (m\<lparr>um_to_port_name := pt_peer_port_name port,
                                                        um_from_port_name := pr_name r\<rparr>))\<rparr>
           in rbind (forward (pt_peer_node_name port) e1 s) (\<lambda>s1. Inr (None, e1, s1)))"

definition node_send_user_message ::
  "(node_name \<Rightarrow> event \<Rightarrow> 's \<Rightarrow> 's res) \<Rightarrow> ports_node \<Rightarrow> port_ref \<Rightarrow> event \<Rightarrow> 's \<Rightarrow> (int option \<times> event \<times> 's) res" where
  "node_send_user_message forward nd r e s = send_user_message_internal forward nd r e s"

definition node_on_user_message :: "node_name \<Rightarrow> event \<Rightarrow> ports_node \<Rightarrow> (int \<times> ports_node) res" where
  "node_on_user_message from_node e nd =
     (case get_user_message e of
        None \<Rightarrow> Inl NullDeref
      | Some m \<Rightarrow>
          let (p, ports) = um_index None (um_to_port_name m) (nd_ports nd);
              nd1 = nd\<lparr>nd_ports := ports\<rparr>
          in rbind (deref_port p nd1) (\<lambda>port.
               Inr (0, set_port p (port\<lparr>pt_message_queue := snd (accept_message m (pt_message_queue port))\<rparr>) nd1)))"

definition node_get_message :: "port_ref \<Rightarrow> event \<Rightarrow> ports_node \<Rightarrow> (int \<times> event \<times> ports_node) res" where
  "node_get_message r e nd =
     rbind (deref_port (pr_port r) nd) (\<lambda>port.
       if has_next_message (pt_message_queue port)
       then rbind (get_next_message (pt_message_queue port)) (\<lambda>(m, q).
              Inr (node_OK, attach_message (UserMessage m) e,
                   set_port (pr_port r) (port\<lparr>pt_message_queue := q\<rparr>) nd))
       else Inr (node_OK, e, nd))"

end
