(* ===== verification/Ports_Node_Spec.thy ===== *)
theory Ports_Node_Spec
  imports Ports_Node
begin

text \<open>
  What the node of a process guarantees: an invariant of its tables that every operation preserves,
  and the effect of each operation on ports, on the name table and on the addresses of the peers.
\<close>

section \<open>Frames\<close>

lemma register_peer_sel [node_simps]:
  "nd_name (register_peer a b c r nd) = nd_name nd" "nd_ports (register_peer a b c r nd) = nd_ports nd"
  "nd_heap (register_peer a b c r nd) = nd_heap nd" "nd_rng (register_peer a b c r nd) = nd_rng nd"
  by (simp_all add: register_peer_def split: prod.splits)

lemma index_peer_sel [node_simps]:
  "nd_name (snd (index_peer a b c nd)) = nd_name nd" "nd_ports (snd (index_peer a b c nd)) = nd_ports nd"
  "nd_heap (snd (index_peer a b c nd)) = nd_heap nd" "nd_rng (snd (index_peer a b c nd)) = nd_rng nd"
  by (simp_all add: index_peer_def split: prod.splits)

lemma erase_port_sel [node_simps]:
  "nd_name (erase_port nm nd) = nd_name nd" "nd_ports (erase_port nm nd) = (nd_ports nd)(nm := None)"
  "nd_heap (erase_port nm nd) = nd_heap nd" "nd_rng (erase_port nm nd) = nd_rng nd"
  "nd_peer_port_maps (erase_port nm nd) = nd_peer_port_maps nd"
  by (auto simp: erase_port_def um_erase_def split: option.splits)

lemma deref_port_Some [node_simps]: "a < length (nd_heap nd) \<Longrightarrow> deref_port (Some a) nd = Inr (nd_heap nd ! a)"
  by (simp add: deref_port_def)

lemma deref_port_None [node_simps]: "deref_port None nd = Inl NullDeref"
  by (simp add: deref_port_def)

lemma set_port_sel [node_simps]:
  "nd_name (set_port p x nd) = nd_name nd" "nd_ports (set_port p x nd) = nd_ports nd"
  "nd_rng (set_port p x nd) = nd_rng nd" "nd_peer_port_maps (set_port p x nd) = nd_peer_port_maps nd"
  "length (nd_heap (set_port p x nd)) = length (nd_heap nd)"
  "nd_heap (set_port (Some a) x nd) = (nd_heap nd)[a := x]"
  by (simp_all add: set_port_def split: option.splits)

text \<open>The table of peers: what the nested maps hold for a node, a peer port and a local port.\<close>

definition peer_ref :: "ports_node \<Rightarrow> node_name \<Rightarrow> port_name \<Rightarrow> port_name \<Rightarrow> port_ref option" where
  "peer_ref nd pn pp lp =
     (case nd_peer_port_maps nd pn of None \<Rightarrow> None
      | Some ppm \<Rightarrow> (case ppm pp of None \<Rightarrow> None | Some refs \<Rightarrow> om_find lp refs))"

definition refs_inv :: "ports_node \<Rightarrow> bool" where
  "refs_inv nd \<longleftrightarrow> (\<forall>pn ppm pp refs. nd_peer_port_maps nd pn = Some ppm \<longrightarrow> ppm pp = Some refs \<longrightarrow> om_inv refs)"

lemma om_inv_small [simp]: "om_inv []" "om_inv [x]"
  by (simp_all add: om_inv_def)

lemma peer_ref_frame [node_simps]:
  "peer_ref (nd\<lparr>nd_ports := x\<rparr>) = peer_ref nd" "peer_ref (nd\<lparr>nd_heap := y\<rparr>) = peer_ref nd"
  "peer_ref (nd\<lparr>nd_rng := z\<rparr>) = peer_ref nd" "peer_ref (set_port p w nd) = peer_ref nd"
  "peer_ref (erase_port nm nd) = peer_ref nd"
  by (rule ext, rule ext, rule ext, simp add: peer_ref_def node_simps)+

lemma refs_inv_frame [node_simps]:
  "refs_inv (nd\<lparr>nd_ports := x\<rparr>) = refs_inv nd" "refs_inv (nd\<lparr>nd_heap := y\<rparr>) = refs_inv nd"
  "refs_inv (nd\<lparr>nd_rng := z\<rparr>) = refs_inv nd" "refs_inv (set_port p w nd) = refs_inv nd"
  "refs_inv (erase_port nm nd) = refs_inv nd"
  by (simp_all add: refs_inv_def node_simps)

lemma register_peer_ref:
  "refs_inv nd \<Longrightarrow> refs_inv (register_peer pn pp lp r nd)
     \<and> peer_ref (register_peer pn pp lp r nd) pn' pp' lp' =
        (if pn' = pn \<and> pp' = pp \<and> lp' = lp \<and> peer_ref nd pn pp lp = None then Some r
         else peer_ref nd pn' pp' lp')"
  by (auto simp: register_peer_def um_index_def refs_inv_def peer_ref_def om.find_emplace om.ok_emplace
      split: option.splits)

section \<open>The invariant\<close>

definition ref_ok :: "ports_node \<Rightarrow> port_ref \<Rightarrow> bool" where
  "ref_ok nd r \<longleftrightarrow> (\<exists>a < length (nd_heap nd). pr_port r = Some a)"

definition node_wf :: "ports_node \<Rightarrow> bool" where
  "node_wf nd \<longleftrightarrow>
     (\<forall>nm p. nd_ports nd nm = Some p \<longrightarrow> (\<exists>a < length (nd_heap nd). p = Some a))
     \<and> refs_inv nd
     \<and> (\<forall>pn pp lp r. peer_ref nd pn pp lp = Some r \<longrightarrow> ref_ok nd r)
     \<and> length (rg_cache (nd_rng nd)) = kRandomNameCacheSize \<and> rg_index (nd_rng nd) \<le> kRandomNameCacheSize"

lemma node_wf_new: "node_wf (node_new nm (rng_new src))"
  by (simp add: node_wf_def node_new_def rng_new_def refs_inv_def peer_ref_def)

lemma node_wf_ports:
  assumes "node_wf nd" and "nd_ports nd nm = Some p"
  obtains a where "p = Some a" and "a < length (nd_heap nd)"
  using assms by (auto simp: node_wf_def)

lemma rng_step:
  assumes "length (rg_cache g) = kRandomNameCacheSize" and "rg_index g \<le> kRandomNameCacheSize"
    and "generate_random_port_name g = (nm, g')"
  shows "length (rg_cache g') = kRandomNameCacheSize \<and> rg_index g' \<le> kRandomNameCacheSize"
  using assms by (auto simp: generate_random_port_name_def Let_def kRandomNameCacheSize_def split: if_splits)

lemma node_wf_register_peer:
  assumes "node_wf nd" and "ref_ok nd r"
  shows "node_wf (register_peer pn pp lp r nd)"
proof -
  have "refs_inv nd" using assms(1) by (simp add: node_wf_def)
  note reg = register_peer_ref [OF this, of pn pp lp r]
  show ?thesis
    using assms reg by (auto simp: node_wf_def ref_ok_def node_simps split: if_splits)
qed

lemma node_wf_set_port: "node_wf nd \<Longrightarrow> node_wf (set_port p x nd)"
  by (auto simp: node_wf_def ref_ok_def node_simps)

lemma node_wf_erase_port: "node_wf nd \<Longrightarrow> node_wf (erase_port nm nd)"
  by (auto simp: node_wf_def ref_ok_def node_simps)

lemma node_wf_erase_peer:
  assumes "node_wf nd"
  shows "node_wf (nd\<lparr>nd_peer_port_maps := (snd (um_index (\<lambda>_. None) pn (nd_peer_port_maps nd)))
           (pn \<mapsto> um_erase pp (fst (um_index (\<lambda>_. None) pn (nd_peer_port_maps nd))))\<rparr>)"
    (is "node_wf ?nd")
proof -
  have ref: "peer_ref ?nd pn' pp' lp = (if pn' = pn \<and> pp' = pp then None else peer_ref nd pn' pp' lp)" for pn' pp' lp
    by (auto simp: peer_ref_def um_index_def um_erase_def split: option.splits)
  have "refs_inv ?nd"
    using assms by (auto simp: node_wf_def refs_inv_def um_index_def um_erase_def split: option.splits if_splits)
  then show ?thesis
    using assms by (auto simp: node_wf_def ref ref_ok_def split: if_splits)
qed

lemma update_port_peer_address_wf:
  assumes "node_wf nd" and "update_port_peer_address lp p pn pp nd = Inr nd'"
  shows "node_wf nd'"
  using assms
  by (cases p) (auto simp: update_port_peer_address_def deref_port_def rbind_eq_Inr_iff Let_def ref_ok_def
      port_ref_make_def node_simps split: if_splits intro!: node_wf_register_peer node_wf_set_port)

lemma add_port_with_name_wf:
  assumes "node_wf nd" and "add_port_with_name nm p nd = Inr (e, nd')"
  shows "node_wf nd'"
proof -
  obtain a where p: "p = Some a" "a < length (nd_heap nd)"
    using assms(2) by (cases p) (auto simp: add_port_with_name_def deref_port_def rbind_eq_Inr_iff split: if_splits)
  define nd1 where "nd1 = (if pt_peer_port_name (nd_heap nd ! a) \<noteq> kInvalidName
     then register_peer (pt_peer_node_name (nd_heap nd ! a)) (pt_peer_port_name (nd_heap nd ! a)) nm (port_ref_make nm p) nd else nd)"
  have nd1: "node_wf nd1" "nd_heap nd1 = nd_heap nd"
    using assms(1) p by (auto simp: nd1_def ref_ok_def port_ref_make_def node_simps intro!: node_wf_register_peer)
  then have "node_wf (nd1\<lparr>nd_ports := um_emplace nm p (nd_ports nd1)\<rparr>)"
    using p by (auto simp: node_wf_def ref_ok_def node_simps um.find_emplace split: if_splits)
  moreover have "add_port_with_name nm p nd = (if nd_ports nd1 nm \<noteq> None then Inr (ERROR_PORT_EXISTS, nd1)
      else Inr (node_OK, nd1\<lparr>nd_ports := um_emplace nm p (nd_ports nd1)\<rparr>))"
    using p by (auto simp: add_port_with_name_def deref_port_Some Let_def nd1_def)
  ultimately show ?thesis using assms(2) nd1(1) by (auto split: if_splits)
qed

lemma create_uninitialized_port_wf:
  assumes "node_wf nd" and "create_uninitialized_port r nd = Inr (e, r', nd')"
  shows "node_wf nd'"
proof -
  obtain nm g where g: "generate_random_port_name (nd_rng nd) = (nm, g)" by fastforce
  let ?nd1 = "nd\<lparr>nd_rng := g, nd_heap := nd_heap nd @ [port_create]\<rparr>"
  have "refs_inv ?nd1 = refs_inv nd" "peer_ref ?nd1 = peer_ref nd"
    by (simp_all add: refs_inv_def peer_ref_def fun_eq_iff)
  then have "node_wf ?nd1"
    using assms(1) rng_step [OF _ _ g] by (fastforce simp: node_wf_def ref_ok_def)
  then show ?thesis
    using assms(2) g by (auto simp: create_uninitialized_port_def Let_def rbind_eq_Inr_iff
        split: if_splits prod.splits dest: add_port_with_name_wf)
qed

lemma initialize_port_wf:
  assumes "node_wf nd" and "initialize_port r pn pp nd = Inr (e, nd')"
  shows "node_wf nd'"
  using assms by (auto simp: initialize_port_def rbind_eq_Inr_iff Let_def split: if_splits
      dest: update_port_peer_address_wf [OF node_wf_set_port])

lemma create_port_pair_wf:
  assumes "node_wf nd" and "create_port_pair r0 r1 nd = Inr (e, r0', r1', nd')"
  shows "node_wf nd'"
proof -
  obtain e0 s0 nd0 where 0: "create_uninitialized_port r0 nd = Inr (e0, s0, nd0)"
    using assms(2) by (auto simp: create_port_pair_def rbind_eq_Inr_iff)
  then have wf0: "node_wf nd0" using assms(1) by (blast intro: create_uninitialized_port_wf)
  show ?thesis
  proof (cases "e0 = node_OK")
    case True
    with 0 assms(2) obtain e1 s1 nd1 where 1: "create_uninitialized_port r1 nd0 = Inr (e1, s1, nd1)"
      by (auto simp: create_port_pair_def rbind_eq_Inr_iff)
    then have wf1: "node_wf nd1" using wf0 by (blast intro: create_uninitialized_port_wf)
    show ?thesis
    proof (cases "e1 = node_OK")
      case e1: True
      with 0 1 True assms(2) obtain e2 nd2 where 2: "initialize_port s0 (nd_name nd1) (pr_name s1) nd1 = Inr (e2, nd2)"
        by (auto simp: create_port_pair_def rbind_eq_Inr_iff)
      then have wf2: "node_wf nd2" using wf1 by (blast intro: initialize_port_wf)
      then have "node_wf nd3" if "initialize_port s1 (nd_name nd2) (pr_name s0) nd2 = Inr (e3, nd3)" for e3 nd3
        using that by (blast intro: initialize_port_wf)
      with 0 1 2 True e1 wf2 assms(2) show ?thesis
        by (auto simp: create_port_pair_def rbind_eq_Inr_iff split: if_splits)
    qed (use 0 1 True wf1 assms(2) in \<open>simp add: create_port_pair_def\<close>)
  qed (use 0 wf0 assms(2) in \<open>simp add: create_port_pair_def\<close>)
qed

lemma merge_ports_wf:
  assumes "node_wf nd" and "merge_ports r dn dp nd = Inr (e, nm, nd')"
  shows "node_wf nd'"
proof -
  let ?nd1 = "erase_port (pr_name r) nd"
  have wf: "node_wf ?nd1" using assms(1) by (rule node_wf_erase_port)
  show ?thesis
    using assms(2) wf
    by (auto simp: merge_ports_def Let_def rbind_eq_Inr_iff case_prod_beta split: option.splits
        intro: update_port_peer_address_wf [OF node_wf_erase_peer [OF wf]])
qed

text \<open>Indexing an entry that is there changes nothing that can be observed; a missing one is null.\<close>

lemma index_peer_spec:
  assumes "refs_inv nd"
  shows "fst (index_peer pn pp lp nd) = (case peer_ref nd pn pp lp of None \<Rightarrow> port_ref_default | Some r \<Rightarrow> r)
    \<and> refs_inv (snd (index_peer pn pp lp nd))
    \<and> peer_ref (snd (index_peer pn pp lp nd)) pn' pp' lp' =
        (if pn' = pn \<and> pp' = pp \<and> lp' = lp \<and> peer_ref nd pn pp lp = None then Some port_ref_default
         else peer_ref nd pn' pp' lp')"
  using assms
  by (auto simp: index_peer_def um_index_def om_index_def refs_inv_def peer_ref_def om.find_emplace om.ok_emplace
      split: option.splits)

lemma merge_ports_response_wf:
  assumes "node_wf nd" and "merge_ports_response lpp dn dp nd = Inr (e, nd')"
  shows "node_wf nd'"
proof (cases "nd_ports nd lpp")
  case None
  with assms show ?thesis by (simp add: merge_ports_response_def)
next
  case (Some p)
  obtain a where a: "p = Some a" "a < length (nd_heap nd)" using node_wf_ports [OF assms(1) Some] .
  let ?lp = "pt_peer_port_name (nd_heap nd ! a)"
  obtain r nd1 where idx: "index_peer (nd_name nd) lpp ?lp nd = (r, nd1)" by fastforce
  have inv: "refs_inv nd" using assms(1) by (simp add: node_wf_def)
  note spec = index_peer_spec [OF inv, of "nd_name nd" lpp ?lp, simplified idx fst_conv snd_conv]
  note sel = index_peer_sel [of "nd_name nd" lpp ?lp nd, simplified idx snd_conv]
  obtain e' nm where m: "merge_ports r dn dp nd1 = Inr (e', nm, nd')"
    using assms(2) Some a idx by (auto simp: merge_ports_response_def node_simps Let_def rbind_eq_Inr_iff)
  then have "pr_port r \<noteq> None" by (cases "pr_port r") (simp_all add: merge_ports_def Let_def node_simps)
  then have "peer_ref nd (nd_name nd) lpp ?lp = Some r"
    using spec by (auto simp: port_ref_default_def split: option.splits)
  then have "node_wf nd1"
    using assms(1) spec sel by (auto simp: node_wf_def ref_ok_def)
  with m show ?thesis by (blast intro: merge_ports_wf)
qed

lemma node_on_user_message_wf:
  assumes "node_wf nd" and "node_on_user_message fn ev nd = Inr (e, nd')"
  shows "node_wf nd'"
proof -
  obtain m where m: "get_user_message ev = Some m"
    using assms(2) by (auto simp: node_on_user_message_def split: option.splits)
  show ?thesis
  proof (cases "nd_ports nd (um_to_port_name m)")
    case None
    with m assms(2) show ?thesis by (simp add: node_on_user_message_def um_index_def node_simps)
  next
    case (Some p)
    with m assms show ?thesis
      by (auto simp: node_on_user_message_def um_index_def rbind_eq_Inr_iff intro: node_wf_set_port)
  qed
qed

lemma node_get_message_wf:
  assumes "node_wf nd" and "node_get_message r ev nd = Inr (e, ev', nd')"
  shows "node_wf nd'"
  using assms by (auto simp: node_get_message_def rbind_eq_Inr_iff split: if_splits intro: node_wf_set_port)

text \<open>The states of a node: everything its operations reach, whatever references they are given.\<close>

inductive node_reach :: "ports_node \<Rightarrow> bool" where
  nr_new: "node_reach (node_new nm (rng_new src))"
| nr_create: "node_reach nd \<Longrightarrow> create_uninitialized_port r nd = Inr (e, r', nd') \<Longrightarrow> node_reach nd'"
| nr_pair: "node_reach nd \<Longrightarrow> create_port_pair r0 r1 nd = Inr (e, r0', r1', nd') \<Longrightarrow> node_reach nd'"
| nr_init: "node_reach nd \<Longrightarrow> initialize_port r pn pp nd = Inr (e, nd') \<Longrightarrow> node_reach nd'"
| nr_add: "node_reach nd \<Longrightarrow> add_port_with_name nm p nd = Inr (e, nd') \<Longrightarrow> node_reach nd'"
| nr_close: "node_reach nd \<Longrightarrow> close_port r nd = Inr (eo, nd') \<Longrightarrow> node_reach nd'"
| nr_merge: "node_reach nd \<Longrightarrow> merge_ports r dn dp nd = Inr (e, nm, nd') \<Longrightarrow> node_reach nd'"
| nr_response: "node_reach nd \<Longrightarrow> merge_ports_response lp dn dp nd = Inr (e, nd') \<Longrightarrow> node_reach nd'"
| nr_message: "node_reach nd \<Longrightarrow> node_on_user_message fn ev nd = Inr (e, nd') \<Longrightarrow> node_reach nd'"
| nr_get: "node_reach nd \<Longrightarrow> node_get_message r ev nd = Inr (e, ev', nd') \<Longrightarrow> node_reach nd'"

lemma close_port_wf: "node_wf nd \<Longrightarrow> close_port r nd = Inr (eo, nd') \<Longrightarrow> node_wf nd'"
  by (auto simp: close_port_def rbind_eq_Inr_iff intro: node_wf_erase_port)

lemma node_reach_wf: "node_reach nd \<Longrightarrow> node_wf nd"
proof (induction rule: node_reach.induct)
  case (nr_new nm src)
  show ?case by (rule node_wf_new)
qed (blast intro: create_uninitialized_port_wf create_port_pair_wf initialize_port_wf add_port_with_name_wf
    close_port_wf merge_ports_wf merge_ports_response_wf node_on_user_message_wf node_get_message_wf)+

section \<open>Effects\<close>

lemma create_uninitialized_port_eq:
  assumes "generate_random_port_name (nd_rng nd) = (nm, g)"
  shows "create_uninitialized_port r nd =
    (if nd_ports nd nm \<noteq> None
     then Inr (ERROR_PORT_EXISTS, r, nd\<lparr>nd_rng := g, nd_heap := nd_heap nd @ [port_create]\<rparr>)
     else Inr (node_OK, port_ref_make nm (Some (length (nd_heap nd))),
       nd\<lparr>nd_rng := g, nd_heap := nd_heap nd @ [port_create],
          nd_ports := (nd_ports nd)(nm \<mapsto> Some (length (nd_heap nd)))\<rparr>))"
  using assms
  by (auto simp: create_uninitialized_port_def add_port_with_name_def deref_port_def port_create_def
      um_emplace_def ERROR_PORT_EXISTS_def node_OK_def Let_def split: option.splits)

lemma initialize_port_eq:
  assumes "pr_port r = Some a" and "a < length (nd_heap nd)" and "pt_state (nd_heap nd ! a) = kUninitialized"
    and "pp \<noteq> kInvalidName"
  shows "initialize_port r pn pp nd = Inr (node_OK, register_peer pn pp (pr_name r) (port_ref_make (pr_name r) (Some a))
    (nd\<lparr>nd_heap := (nd_heap nd)[a := (nd_heap nd ! a)\<lparr>pt_state := kReceiving, pt_peer_node_name := pn, pt_peer_port_name := pp\<rparr>]\<rparr>))"
  using assms by (simp add: initialize_port_def update_port_peer_address_def deref_port_def set_port_def)

lemma port_ref_make_sel [node_simps]: "pr_name (port_ref_make nm p) = nm" "pr_port (port_ref_make nm p) = p"
  by (simp_all add: port_ref_make_def)

text \<open>The state after a pair has been made.\<close>

definition linked_port :: "node_name \<Rightarrow> port_name \<Rightarrow> port" where
  "linked_port pn pp = port_create\<lparr>pt_state := kReceiving, pt_peer_node_name := pn, pt_peer_port_name := pp\<rparr>"

lemma create_port_pair_eq:
  assumes "generate_random_port_name (nd_rng nd) = (n0, g0)" and "generate_random_port_name g0 = (n1, g1)"
    and "nd_ports nd n0 = None" and "nd_ports nd n1 = None" and "n0 \<noteq> n1" and "n0 \<noteq> kInvalidName" and "n1 \<noteq> kInvalidName"
  defines "a \<equiv> length (nd_heap nd)"
  shows "create_port_pair r0 r1 nd = Inr (node_OK, port_ref_make n0 (Some a), port_ref_make n1 (Some (Suc a)),
    register_peer (nd_name nd) n0 n1 (port_ref_make n1 (Some (Suc a)))
      (register_peer (nd_name nd) n1 n0 (port_ref_make n0 (Some a))
        (nd\<lparr>nd_rng := g1, nd_heap := nd_heap nd @ [linked_port (nd_name nd) n1, linked_port (nd_name nd) n0],
            nd_ports := (nd_ports nd)(n0 \<mapsto> Some a, n1 \<mapsto> Some (Suc a))\<rparr>)))"
proof -
  define nd1 where "nd1 = nd\<lparr>nd_rng := g0, nd_heap := nd_heap nd @ [port_create], nd_ports := (nd_ports nd)(n0 \<mapsto> Some a)\<rparr>"
  define nd2 where "nd2 = nd1\<lparr>nd_rng := g1, nd_heap := nd_heap nd1 @ [port_create],
    nd_ports := (nd_ports nd1)(n1 \<mapsto> Some (length (nd_heap nd1)))\<rparr>"
  let ?r0 = "port_ref_make n0 (Some a)" and ?r1 = "port_ref_make n1 (Some (Suc a))"
  have len: "length (nd_heap nd1) = Suc a" "length (nd_heap nd2) = Suc (Suc a)" "nd_name nd2 = nd_name nd"
    by (simp_all add: nd1_def nd2_def a_def)
  have c0: "create_uninitialized_port r0 nd = Inr (node_OK, ?r0, nd1)"
    using create_uninitialized_port_eq [OF assms(1), of r0] assms(3) by (simp add: nd1_def a_def)
  have c1: "create_uninitialized_port r1 nd1 = Inr (node_OK, ?r1, nd2)"
    using create_uninitialized_port_eq [of nd1 n1 g1 r1] assms(2,4,5) len(1) by (simp add: nd1_def nd2_def)
  have heap: "nd_heap nd2 ! a = port_create" "nd_heap nd2 ! Suc a = port_create"
    by (simp_all add: nd2_def nd1_def a_def nth_append)
  define nd3 where "nd3 = nd2\<lparr>nd_heap := (nd_heap nd2)[a := linked_port (nd_name nd) n1]\<rparr>"
  define nd4 where "nd4 = register_peer (nd_name nd) n1 n0 ?r0 nd3"
  have i0: "initialize_port ?r0 (nd_name nd2) n1 nd2 = Inr (node_OK, nd4)"
    using initialize_port_eq [of ?r0 a nd2 n1 "nd_name nd2"] heap len assms(7)
    by (simp add: port_ref_make_def nd3_def nd4_def linked_port_def port_create_def)
  have heap4: "nd_heap nd4 = (nd_heap nd2)[a := linked_port (nd_name nd) n1]" "nd_name nd4 = nd_name nd"
    by (simp_all add: nd4_def nd3_def node_simps len)
  have i1: "initialize_port ?r1 (nd_name nd4) n0 nd4 = Inr (node_OK, register_peer (nd_name nd) n0 n1 ?r1
      (nd4\<lparr>nd_heap := (nd_heap nd4)[Suc a := linked_port (nd_name nd) n0]\<rparr>))"
    using initialize_port_eq [of ?r1 "Suc a" nd4 n0 "nd_name nd4"] heap heap4 len assms(6)
    by (simp add: port_ref_make_def linked_port_def port_create_def)
  have reg: "(register_peer pn pp lp r x)\<lparr>nd_heap := h\<rparr> = register_peer pn pp lp r (x\<lparr>nd_heap := h\<rparr>)" for pn pp lp r x h
    by (simp add: register_peer_def split: prod.splits)
  have "nd3\<lparr>nd_heap := (nd_heap nd4)[Suc a := linked_port (nd_name nd) n0]\<rparr> =
      nd\<lparr>nd_rng := g1, nd_heap := nd_heap nd @ [linked_port (nd_name nd) n1, linked_port (nd_name nd) n0],
         nd_ports := (nd_ports nd)(n0 \<mapsto> Some a, n1 \<mapsto> Some (Suc a))\<rparr>"
    by (simp add: heap4 nd3_def nd2_def nd1_def a_def list_update_append)
  moreover have "create_port_pair r0 r1 nd = Inr (node_OK, ?r0, ?r1, register_peer (nd_name nd) n0 n1 ?r1
      (nd4\<lparr>nd_heap := (nd_heap nd4)[Suc a := linked_port (nd_name nd) n0]\<rparr>))"
    using i0 i1 by (simp add: create_port_pair_def c0 c1 port_ref_make_sel)
  ultimately show ?thesis by (simp only: nd4_def reg)
qed

lemma register_peer_frames:
  "nd_ports (register_peer pn pp lp r nd) = nd_ports nd \<and> nd_heap (register_peer pn pp lp r nd) = nd_heap nd
   \<and> nd_name (register_peer pn pp lp r nd) = nd_name nd \<and> nd_rng (register_peer pn pp lp r nd) = nd_rng nd"
  by (simp add: node_simps)

lemma merge_ports_effect:
  assumes "node_wf nd" and "pr_port r = Some b" and "b < length (nd_heap nd)"
    and "pt_peer_port_name (nd_heap nd ! b) = lp" and "nd_ports nd lp = Some (Some a)" and "lp \<noteq> pr_name r"
    and "dp \<noteq> kInvalidName"
  obtains nd' where "merge_ports r dn dp nd = Inr (node_OK, lp, nd')"
    and "nd_ports nd' = (nd_ports nd)(pr_name r := None)"
    and "nd_heap nd' = (nd_heap nd)[a := (nd_heap nd ! a)\<lparr>pt_peer_node_name := dn, pt_peer_port_name := dp\<rparr>]"
    and "nd_name nd' = nd_name nd" and "nd_rng nd' = nd_rng nd" and "node_wf nd'"
proof -
  let ?nd1 = "erase_port (pr_name r) nd"
  obtain a' where "a < length (nd_heap nd)" using node_wf_ports [OF assms(1,5)] by auto
  note a = this
  let ?pn = "pt_peer_node_name (nd_heap nd ! a)"
  define nd2 where "nd2 = ?nd1\<lparr>nd_peer_port_maps := (snd (um_index (\<lambda>_. None) ?pn (nd_peer_port_maps ?nd1)))
      (?pn \<mapsto> um_erase (pr_name r) (fst (um_index (\<lambda>_. None) ?pn (nd_peer_port_maps ?nd1))))\<rparr>"
  have nd2: "nd_heap nd2 = nd_heap nd" "nd_ports nd2 = (nd_ports nd)(pr_name r := None)"
    "nd_name nd2 = nd_name nd" "nd_rng nd2 = nd_rng nd"
    by (simp_all add: nd2_def node_simps)
  define nd3 where "nd3 = register_peer dn dp lp (port_ref_make lp (Some a))
     (set_port (Some a) ((nd_heap nd ! a)\<lparr>pt_peer_node_name := dn, pt_peer_port_name := dp\<rparr>) nd2)"
  have "update_port_peer_address lp (Some a) dn dp nd2 = Inr nd3"
    using a nd2 assms(7) by (simp add: update_port_peer_address_def deref_port_Some nd3_def)
  then have m: "merge_ports r dn dp nd = Inr (node_OK, lp, nd3)"
    using assms(2-6) a by (simp add: merge_ports_def Let_def node_simps case_prod_beta nd2_def)
  show thesis
    by (rule that [OF m]) (simp_all add: nd3_def node_simps nd2 merge_ports_wf [OF assms(1) m, unfolded nd3_def])
qed

lemma node_on_user_message_known:
  assumes "node_wf nd" and "nd_ports nd (um_to_port_name m) = Some (Some a)"
  shows "a < length (nd_heap nd)"
    and "node_on_user_message fn (attach_message (UserMessage m) ev) nd =
      Inr (0, nd\<lparr>nd_heap := (nd_heap nd)[a := (nd_heap nd ! a)\<lparr>pt_message_queue :=
          (pt_message_queue (nd_heap nd ! a))\<lparr>mq_heap := mq_heap (pt_message_queue (nd_heap nd ! a)) @ [m]\<rparr>\<rparr>]\<rparr>)"
proof -
  show a: "a < length (nd_heap nd)" using node_wf_ports [OF assms] by auto
  then show "node_on_user_message fn (attach_message (UserMessage m) ev) nd =
      Inr (0, nd\<lparr>nd_heap := (nd_heap nd)[a := (nd_heap nd ! a)\<lparr>pt_message_queue :=
          (pt_message_queue (nd_heap nd ! a))\<lparr>mq_heap := mq_heap (pt_message_queue (nd_heap nd ! a)) @ [m]\<rparr>\<rparr>]\<rparr>)"
    using assms(2) by (simp add: node_on_user_message_def get_user_message_def attach_message_def um_index_def
        node_simps set_port_def accept_message_def)
qed

lemma node_on_user_message_unknown:
  "nd_ports nd (um_to_port_name m) = None \<Longrightarrow>
   node_on_user_message fn (attach_message (UserMessage m) ev) nd = Inl NullDeref"
  by (simp add: node_on_user_message_def get_user_message_def attach_message_def um_index_def node_simps)

section \<open>The name generator\<close>

fun gen_names :: "nat \<Rightarrow> rng \<Rightarrow> port_name list \<times> rng" where
  "gen_names 0 g = ([], g)"
| "gen_names (Suc n) g =
     (let (nm, g1) = generate_random_port_name g; (nms, g2) = gen_names n g1 in (nm # nms, g2))"

text \<open>The generator after \<open>k\<close> names.\<close>

definition rng_after :: "(nat \<Rightarrow> nat \<Rightarrow> name) \<Rightarrow> nat \<Rightarrow> rng \<Rightarrow> bool" where
  "rng_after src k g \<longleftrightarrow> rg_source g = src \<and>
     (if k = 0 then rg_index g = 256 \<and> rg_calls g = 0
      else rg_index g = (k - 1) mod 256 + 1 \<and> rg_calls g = (k - 1) div 256 + 1
         \<and> rg_cache g = map (src ((k - 1) div 256)) [0..<256])"

lemma generate_after:
  assumes "rng_after src k g"
  obtains g' where "generate_random_port_name g = (src (k div 256) (k mod 256), g')" and "rng_after src (Suc k) g'"
proof (cases "k mod 256 = 0")
  case True
  then obtain j where k: "k = 256 * j" by (metis mod_0_imp_dvd dvd_def)
  have step: "(k - 1) mod 256 = 255" "(k - 1) div 256 = j - 1" if "0 < j"
  proof -
    have "k - 1 = 255 + 256 * (j - 1)" using that k by (cases j) simp_all
    then show "(k - 1) mod 256 = 255" "(k - 1) div 256 = j - 1" by simp_all
  qed
  have "rg_index g = 256 \<and> rg_calls g = j \<and> rg_source g = src"
    using assms k step by (cases "j = 0") (auto simp: rng_after_def)
  with k have idx: "rg_index g = 256" "rg_calls g = k div 256" "rg_source g = src" by simp_all
  then show thesis
    using idx True
    by (intro that [of "snd (generate_random_port_name g)"])
       (simp_all add: generate_random_port_name_def kRandomNameCacheSize_def rng_after_def Let_def)
next
  case False
  obtain m j where kj: "k = Suc m + 256 * j" "Suc m < 256"
  proof -
    have "k = Suc (k mod 256 - 1) + 256 * (k div 256)" "Suc (k mod 256 - 1) < 256" using False by simp_all
    then show thesis using that by blast
  qed
  have "k - 1 = m + 256 * j" using kj by simp
  then have k: "k \<noteq> 0" "(k - 1) mod 256 + 1 = k mod 256" "(k - 1) div 256 = k div 256"
    using kj by simp_all
  then have "rg_index g = k mod 256" "rg_cache g = map (src (k div 256)) [0..<256]" "rg_calls g = k div 256 + 1" "rg_source g = src"
    using assms by (simp_all add: rng_after_def)
  moreover have "k mod 256 \<noteq> 256" by (metis mod_less_divisor less_irrefl zero_less_numeral)
  ultimately show thesis
    by (intro that [of "snd (generate_random_port_name g)"])
       (simp_all add: generate_random_port_name_def kRandomNameCacheSize_def rng_after_def nth_append)
qed

lemma gen_names_after:
  "rng_after src k g \<Longrightarrow> fst (gen_names n g) = map (\<lambda>i. src (i div 256) (i mod 256)) [k..<k + n]"
proof (induction n arbitrary: k g)
  case (Suc n)
  obtain g' where g': "generate_random_port_name g = (src (k div 256) (k mod 256), g')" "rng_after src (Suc k) g'"
    using generate_after [OF Suc.prems] .
  have "[k..<k + Suc n] = k # [Suc k..<Suc k + n]" by (simp add: upt_conv_Cons)
  then show ?case using Suc.IH [OF g'(2)] g'(1) by (simp add: case_prod_beta)
qed simp

section \<open>Properties\<close>

text \<open>
  C17: In every state a node can reach, whatever references it was given, each name it knows leads to
  an allocated port, each reference in the table of peers is valid and the table is ordered, and the
  name cache is within its bounds.
\<close>

theorem ports_node_invariant:
  assumes "node_reach nd"
  shows "(\<forall>nm p. nd_ports nd nm = Some p \<longrightarrow> (\<exists>a < length (nd_heap nd). p = Some a))
    \<and> (\<forall>pn pp lp r. peer_ref nd pn pp lp = Some r \<longrightarrow> (\<exists>a < length (nd_heap nd). pr_port r = Some a))
    \<and> refs_inv nd \<and> rg_index (nd_rng nd) \<le> 256"
  using node_reach_wf [OF assms] by (simp add: node_wf_def ref_ok_def kRandomNameCacheSize_def)

theorem ports_node_invariant_witness: "refs_inv (node_new (Name 1 2) (rng_new (\<lambda>_ _. Name 3 4)))"
  using ports_node_invariant [OF nr_new [of "Name 1 2" "\<lambda>_ _. Name 3 4"]] by blast

text \<open>
  \<^verbatim>\<open>CreatePortPair\<close> with two names the node does not know makes two receiving ports, each the
  peer of the other at this node, known under their names and registered in the table of peers, and
  changes no other port.
\<close>

lemma create_port_pair_links:
  assumes "node_wf nd" and "generate_random_port_name (nd_rng nd) = (n0, g0)" and "generate_random_port_name g0 = (n1, g1)"
    and "nd_ports nd n0 = None" and "nd_ports nd n1 = None" and "n0 \<noteq> n1" and "n0 \<noteq> kInvalidName" and "n1 \<noteq> kInvalidName"
  shows "\<exists>a nd'. create_port_pair r0 r1 nd = Inr (node_OK, port_ref_make n0 (Some a), port_ref_make n1 (Some (Suc a)), nd')
    \<and> nd_ports nd' = (nd_ports nd)(n0 \<mapsto> Some a, n1 \<mapsto> Some (Suc a))
    \<and> nd_heap nd' = nd_heap nd @ [linked_port (nd_name nd) n1, linked_port (nd_name nd) n0]
    \<and> a = length (nd_heap nd) \<and> nd_name nd' = nd_name nd \<and> node_wf nd'
    \<and> (peer_ref nd (nd_name nd) n1 n0 = None \<longrightarrow> peer_ref nd' (nd_name nd) n1 n0 = Some (port_ref_make n0 (Some a)))
    \<and> (peer_ref nd (nd_name nd) n0 n1 = None \<longrightarrow> peer_ref nd' (nd_name nd) n0 n1 = Some (port_ref_make n1 (Some (Suc a))))"
proof -
  let ?a = "length (nd_heap nd)"
  let ?base = "nd\<lparr>nd_rng := g1, nd_heap := nd_heap nd @ [linked_port (nd_name nd) n1, linked_port (nd_name nd) n0],
            nd_ports := (nd_ports nd)(n0 \<mapsto> Some ?a, n1 \<mapsto> Some (Suc ?a))\<rparr>"
  let ?mid = "register_peer (nd_name nd) n1 n0 (port_ref_make n0 (Some ?a)) ?base"
  let ?nd' = "register_peer (nd_name nd) n0 n1 (port_ref_make n1 (Some (Suc ?a))) ?mid"
  have eq: "create_port_pair r0 r1 nd = Inr (node_OK, port_ref_make n0 (Some ?a), port_ref_make n1 (Some (Suc ?a)), ?nd')"
    by (rule create_port_pair_eq [OF assms(2-8)])
  have base: "refs_inv ?base" "peer_ref ?base = peer_ref nd"
    using assms(1) by (simp_all add: node_wf_def refs_inv_def peer_ref_def fun_eq_iff)
  note mid = register_peer_ref [OF base(1), of "nd_name nd" n1 n0 "port_ref_make n0 (Some ?a)"]
  note fin = register_peer_ref [of ?mid "nd_name nd" n0 n1 "port_ref_make n1 (Some (Suc ?a))"]
  have "node_wf ?nd'" using assms(1) eq by (rule create_port_pair_wf)
  then show ?thesis
    using eq mid fin base(2) assms(6) by (intro exI [of _ ?a] exI [of _ ?nd']) (simp add: register_peer_frames)
qed

text \<open>
  C20: \<^verbatim>\<open>MergePorts\<close> on one half of a pair erases that half from the table of names and makes the other
  half a peer of the destination; no other port changes. With the other half unknown it reports
  \<^verbatim>\<open>ERROR_PORT_UNKNOWN\<close> and only erases.
\<close>

theorem merge_ports_readdresses:
  assumes "node_wf nd" and "pr_port r = Some b" and "b < length (nd_heap nd)"
    and "lp = pt_peer_port_name (nd_heap nd ! b)" and "lp \<noteq> pr_name r" and "dp \<noteq> kInvalidName"
  shows "case nd_ports nd lp of
      None \<Rightarrow> merge_ports r dn dp nd = Inr (ERROR_PORT_UNKNOWN, lp, erase_port (pr_name r) nd)
    | Some p \<Rightarrow> \<exists>a nd'. p = Some a \<and> merge_ports r dn dp nd = Inr (node_OK, lp, nd')
        \<and> nd_ports nd' = (nd_ports nd)(pr_name r := None)
        \<and> nd_heap nd' = (nd_heap nd)[a := (nd_heap nd ! a)\<lparr>pt_peer_node_name := dn, pt_peer_port_name := dp\<rparr>]"
proof (cases "nd_ports nd lp")
  case None
  then show ?thesis using assms by (simp add: merge_ports_def Let_def node_simps)
next
  case (Some p)
  obtain a where "p = Some a" using node_wf_ports [OF assms(1) Some] .
  then show ?thesis
    using merge_ports_effect [OF assms(1-3) assms(4) [symmetric] _ assms(5,6), of a dn] Some by force
qed

theorem merge_ports_readdresses_witness:
  "\<exists>nd r nd'. merge_ports r (Name 5 5) (Name 6 6) nd = Inr (node_OK, Name 1 1, nd')
     \<and> nd_ports nd' (Name 1 2) = None"
proof -
  let ?r = "port_ref_make (Name 1 2) (Some 1)"
  let ?nd = "\<lparr>nd_name = Name 9 9, nd_ports = [Name 1 1 \<mapsto> Some 0, Name 1 2 \<mapsto> Some 1], nd_peer_port_maps = (\<lambda>_. None),
     nd_heap = [linked_port (Name 9 9) (Name 1 2), linked_port (Name 9 9) (Name 1 1)],
     nd_rng = rng_new (\<lambda>_ _. Name 0 0)\<rparr>"
  have "node_wf ?nd" by (auto simp: node_wf_def refs_inv_def peer_ref_def rng_new_def)
  moreover have "nd_ports ?nd (Name 1 1) = Some (Some 0)" by simp
  ultimately show ?thesis
    using merge_ports_readdresses [of ?nd ?r 1 "Name 1 1" "Name 6 6" "Name 5 5"]
    by (force simp: node_simps linked_port_def kInvalidName_def)
qed

text \<open>
  A user message for a known port is added to that port's queue and nothing else changes; one
  for an unknown port dereferences a null pointer.
\<close>

lemma user_message_delivery:
  assumes "node_wf nd"
  shows "case nd_ports nd (um_to_port_name m) of
      None \<Rightarrow> node_on_user_message fn (attach_message (UserMessage m) ev) nd = Inl NullDeref
    | Some p \<Rightarrow> \<exists>a nd'. p = Some a \<and> node_on_user_message fn (attach_message (UserMessage m) ev) nd = Inr (0, nd')
        \<and> mq_heap (pt_message_queue (nd_heap nd' ! a)) = mq_heap (pt_message_queue (nd_heap nd ! a)) @ [m]
        \<and> nd_ports nd' = nd_ports nd \<and> (\<forall>b. b \<noteq> a \<longrightarrow> nd_heap nd' ! b = nd_heap nd ! b)"
proof (cases "nd_ports nd (um_to_port_name m)")
  case None
  then show ?thesis by (simp add: node_on_user_message_unknown)
next
  case (Some p)
  obtain a where "p = Some a" using node_wf_ports [OF assms Some] .
  then show ?thesis using node_on_user_message_known(2) [OF assms, of m a fn ev] node_on_user_message_known(1) [OF assms, of m a] Some by simp
qed

text \<open>
  The port name generator hands out the names of each batch of 256 one by one, each once, and
  asks for a new batch exactly when one is used up.
\<close>

lemma port_names_enumerate:
  "fst (gen_names n (rng_new src)) = map (\<lambda>i. src (i div 256) (i mod 256)) [0..<n]"
  using gen_names_after [of src 0 "rng_new src" n] by (simp add: rng_after_def rng_new_def kRandomNameCacheSize_def)

end
