(* ===== verification/Protocol_Spec.thy ===== *)
theory Protocol_Spec
  imports Protocol
begin

text \<open>
  What the wire format guarantees: every encoder writes the bytes of its encoding, every decoder
  reads its own encoding back, and a string survives \<^verbatim>\<open>DeserializeMessage\<close> when it is shorter than
  128 bytes. Longer ones have a longer length prefix, of which only the first byte is skipped.
\<close>

section \<open>Encoders and decoders\<close>

lemma length_name_bytes [simp]: "length (name_bytes nm) = 16"
  by (simp add: name_bytes_def)

lemma appends_write_name: "appends (write_name nm) (name_bytes nm)"
  using appends_seq [OF cu64.wr_appends [OF TrueI, of "nm_v1 nm"] cu64.wr_appends [OF TrueI, of "nm_v2 nm"]]
  by (simp add: write_name_def [abs_def] name_bytes_def)

lemma yields_read_name: "yields read_name (name_bytes nm) nm"
proof -
  let ?rd = "\<lambda>bt. rbind (read_fuint64 bt) (\<lambda>(b, bt). Inr (Name (nm_v1 nm) b, bt))"
  have "yields ?rd (le_enc 8 (nm_v2 nm)) nm"
    using yields_map [OF cu64.rd_yields [OF TrueI, of "nm_v2 nm"], of "Name (nm_v1 nm)"] by simp
  from yields_bind [OF cu64.rd_yields [OF TrueI, of "nm_v1 nm"], of "\<lambda>a bt. rbind (read_fuint64 bt) (\<lambda>(b, bt). Inr (Name a b, bt))", OF this]
  show ?thesis by (simp add: read_name_def [abs_def] name_bytes_def)
qed

interpretation cname: codec name_bytes write_name read_name "\<lambda>_. True"
  by unfold_locales (simp_all add: appends_write_name yields_read_name)

lemma appends_write_meta: "appends (write_meta p) (meta_bytes p (length (p_data p)))"
proof -
  have w8: "appends (write_fuint8 b) [b]" for b
    using cu8.wr_appends [OF TrueI, of b] by (simp add: le_enc_def)
  show ?thesis
    using appends_seq [OF w8 [of "p_magic p"] appends_seq [OF w8 [of "p_version p"]
        appends_seq [OF w8 [of "p_type p"] cu32.wr_appends [OF TrueI, of "of_nat (length (p_data p))"]]]]
    by (simp add: write_meta_def [abs_def] meta_bytes_def)
qed

lemma yields_decode_meta:
  "yields (decode_meta p) ([a, b, c] @ le_enc 4 (d :: u32))
     (p\<lparr>p_magic := a, p_version := b, p_type := c, p_content_length := d\<rparr>)"
proof -
  have r8: "yields read_fuint8 [b] b" for b
    using cu8.rd_yields [OF TrueI, of b] by (simp add: le_enc_def)
  have "yields (\<lambda>bt. rbind (read_fuint32 bt) (\<lambda>(d, bt).
       Inr (p\<lparr>p_magic := a, p_version := b, p_type := c, p_content_length := d\<rparr>, bt))) (le_enc 4 d)
       (p\<lparr>p_magic := a, p_version := b, p_type := c, p_content_length := d\<rparr>)"
    using yields_map [OF cu32.rd_yields [OF TrueI, of d], of "\<lambda>d. p\<lparr>p_magic := a, p_version := b, p_type := c, p_content_length := d\<rparr>"]
    by simp
  then have "yields (\<lambda>bt. rbind (read_fuint8 bt) (\<lambda>(c, bt). rbind (read_fuint32 bt) (\<lambda>(d, bt).
       Inr (p\<lparr>p_magic := a, p_version := b, p_type := c, p_content_length := d\<rparr>, bt)))) ([c] @ le_enc 4 d)
       (p\<lparr>p_magic := a, p_version := b, p_type := c, p_content_length := d\<rparr>)"
    by (rule yields_bind [OF r8])
  then have "yields (\<lambda>bt. rbind (read_fuint8 bt) (\<lambda>(b, bt). rbind (read_fuint8 bt) (\<lambda>(c, bt). rbind (read_fuint32 bt) (\<lambda>(d, bt).
       Inr (p\<lparr>p_magic := a, p_version := b, p_type := c, p_content_length := d\<rparr>, bt))))) ([b] @ [c] @ le_enc 4 d)
       (p\<lparr>p_magic := a, p_version := b, p_type := c, p_content_length := d\<rparr>)"
    by (rule yields_bind [OF r8])
  then have "yields (decode_meta p) ([a] @ [b] @ [c] @ le_enc 4 d)
       (p\<lparr>p_magic := a, p_version := b, p_type := c, p_content_length := d\<rparr>)"
    unfolding decode_meta_def [abs_def] by (rule yields_bind [OF r8])
  then show ?thesis by simp
qed

text \<open>Two names in a row, the shape of three of the bodies.\<close>

lemma yields_two_names:
  "yields (\<lambda>bt. rbind (read_name bt) (\<lambda>(a, bt). rbind (read_name bt) (\<lambda>(b, bt). Inr ((a, b), bt))))
     (name_bytes a @ name_bytes b) (a, b)"
  by (rule yields_bind [OF yields_read_name], rule yields_map [OF yields_read_name])

lemma yields_bodies:
  "yields read_accept_invitee (name_bytes t @ name_bytes n) (t, n)"
  "yields read_accept_invitation (name_bytes t @ name_bytes n) (t, n)"
  "yields read_response_port_merge (name_bytes t @ name_bytes n) (t, n)"
  by (simp_all only: read_accept_invitee_def [abs_def] read_accept_invitation_def [abs_def]
      read_response_port_merge_def [abs_def] yields_two_names)

lemma yields_accept_peer:
  "yields read_accept_peer (name_bytes t @ name_bytes n @ name_bytes p) (t, n, p)"
  unfolding read_accept_peer_def [abs_def]
  by (rule yields_bind [OF yields_read_name], rule yields_bind [OF yields_read_name],
      rule yields_map [OF yields_read_name])

lemma yields_request_port_merge:
  "length nm < 2 ^ 64 \<Longrightarrow> yields read_request_port_merge (name_bytes c @ str64 nm) (c, nm)"
  unfolding read_request_port_merge_def [abs_def]
  by (rule yields_bind [OF yields_read_name], rule yields_map [OF cs64.rd_yields]) simp

lemma yields_user_message:
  assumes "length (um_data m) < 2 ^ 32"
  shows "yields read_user_message (name_bytes (um_from_port_name m) @ name_bytes (um_to_port_name m) @ str32 (um_data m)) m"
proof -
  let ?f = "\<lambda>str. \<lparr>um_from_port_name = um_from_port_name m, um_to_port_name = um_to_port_name m, um_data = str\<rparr>"
  have fm: "?f (um_data m) = m" by (cases m) simp
  have "yields (\<lambda>bt. rbind (read_string_f32 bt) (\<lambda>(str, bt). Inr (?f str, bt))) (str32 (um_data m)) (?f (um_data m))"
    using yields_map [OF cs32.rd_yields, of "um_data m" ?f] assms by simp
  then have "yields (\<lambda>bt. rbind (read_string_f32 bt) (\<lambda>(str, bt). Inr (?f str, bt))) (str32 (um_data m)) m"
    using fm by simp
  then show ?thesis
    unfolding read_user_message_def [abs_def]
    by (intro yields_bind [OF yields_read_name] yields_bind [OF yields_read_name]) simp
qed

lemma appends_message_write: "appends (message_write m) (message_bytes m)"
proof (cases m)
  case (AcceptInvitee t n)
  have "message_write m = (\<lambda>bt. rbind (write_name t bt) (write_name n))"
    by (rule ext) (simp add: AcceptInvitee write_accept_invitee_def)
  then show ?thesis by (simp add: AcceptInvitee appends_seq appends_write_name)
next
  case (AcceptInvitation t n)
  have "message_write m = (\<lambda>bt. rbind (write_name t bt) (write_name n))"
    by (rule ext) (simp add: AcceptInvitation write_accept_invitation_def)
  then show ?thesis by (simp add: AcceptInvitation appends_seq appends_write_name)
next
  case (AcceptPeer t n p)
  have "message_write m = (\<lambda>bt. rbind (write_name t bt) (\<lambda>bt. rbind (write_name n bt) (write_name p)))"
    by (rule ext) (simp add: AcceptPeer write_accept_peer_def rbind_assoc)
  then show ?thesis by (simp add: AcceptPeer appends_seq appends_write_name)
next
  case (RequestPortMerge c n)
  have "message_write m = (\<lambda>bt. rbind (write_name c bt) (write_string_f64 n))"
    by (rule ext) (simp add: RequestPortMerge write_request_port_merge_def)
  then show ?thesis by (simp add: RequestPortMerge appends_seq appends_write_name write_string_f64_always)
next
  case (ResponsePortMerge c p)
  have "message_write m = (\<lambda>bt. rbind (write_name c bt) (write_name p))"
    by (rule ext) (simp add: ResponsePortMerge write_response_port_merge_def)
  then show ?thesis by (simp add: ResponsePortMerge appends_seq appends_write_name)
next
  case (UserMessage u)
  have "message_write m = (\<lambda>bt. rbind (write_name (um_from_port_name u) bt)
      (\<lambda>bt. rbind (write_name (um_to_port_name u) bt) (write_string_f32 (um_data u))))"
    by (rule ext) (simp add: UserMessage write_user_message_def rbind_assoc)
  then show ?thesis by (simp add: UserMessage appends_seq appends_write_name write_string_f32_always)
qed

section \<open>Serialization\<close>

text \<open>A new byte array, an appending writer, the position at the start: the string is the encoding.\<close>

lemma fresh_write:
  assumes "appends wr e"
  obtains ba where "wr (ba_new 4096 fresh) = Inr ba" and "ba_wf ba" and "ba_data ba = e"
    and "m_size ba = length e" and "m_position ba = length e" and "m_baseSize ba = 4096"
proof -
  obtain ba where ba: "wr (ba_new 4096 fresh) = Inr ba" "ba_wf ba" "ba_data ba = e"
    "m_position ba = m_size ba" "m_baseSize ba = 4096"
    using assms ba_new_wf [of 4096 fresh] unfolding appends_def by fastforce
  moreover from this have "m_size ba = length e" using ba_wf_length_data [of ba] by simp
  ultimately show thesis using that by simp
qed

lemma encode_to_string:
  assumes "appends wr e"
  shows "rbind (rbind (wr (ba_new 4096 fresh)) (set_position 0)) ba_to_string = Inr e"
proof -
  obtain ba where "wr (ba_new 4096 fresh) = Inr ba" "ba_wf ba" "ba_data ba = e"
    using fresh_write [OF assms] by metis
  then show ?thesis by (simp add: set_position_within ba_to_string_spec)
qed

lemma serialize_message_bytes: "serialize_message fresh m = Inr (message_bytes m)"
  unfolding serialize_message_def message_encode_def
  by (rule encode_to_string [OF appends_message_write])

lemma serialize_protocol_bytes: "serialize_protocol fresh p = Inr (protocol_bytes p)"
  unfolding serialize_protocol_def protocol_encode_def protocol_bytes_def
  by (rule encode_to_string [OF appends_seq [OF appends_write_meta write_string_f32_always]])

section \<open>Deserialization\<close>

text \<open>The byte array the decoder is given: the prefix and the string, the position at 1.\<close>

lemma ser_offset_1:
  assumes "ba_wf s" and "m_position s = 0" and "1 \<le> m_size s"
  shows "ser_offset 1 s = Inr (ba_seek 1 s)"
proof -
  have "unat (scast ((of_nat (m_position s) :: u32) + 1) :: u64) = 1"
    by (simp add: assms(2))
  then show ?thesis using assms by (simp add: ser_offset_def set_position_within)
qed

lemma deserialize_at_1:
  obtains s where "deserialize fresh raw decode = rbind (decode s) (\<lambda>(x, _). Inr x)"
    and "ba_wf s" and "ba_data s = strv raw" and "m_position s = 1" and "m_baseSize s = 4096"
proof -
  obtain s where s: "ser_write (CString raw) (ser_new fresh) = Inr s" "ba_wf s" "ba_data s = strv raw"
    "m_size s = length (strv raw)" "m_baseSize s = 4096"
    using fresh_write [OF appends_ser_write [of "CString raw"], of fresh] unfolding ser_new_def
    by (metis cenc.simps(12))
  have "1 \<le> length (strv raw)" by (simp add: strv_def Suc_le_eq)
  then have "deserialize fresh raw decode = rbind (decode (ba_seek 1 (ba_seek 0 s))) (\<lambda>(x, _). Inr x)"
    using s by (simp add: deserialize_def ser_reset_def set_position_within ser_offset_1)
  then show thesis
    using s \<open>1 \<le> length (strv raw)\<close> by (intro that [of "ba_seek 1 s"]) simp_all
qed

lemma strv_small: "length str < 128 \<Longrightarrow> strv str = of_nat (length str) # str"
  by (simp add: strv_def unat_of_nat_small varint_small)

lemma deserialize_short:
  assumes "yields decode e x" and "length (e @ rest) < 128"
  shows "deserialize fresh (e @ rest) decode = Inr x"
proof -
  obtain s where s: "deserialize fresh (e @ rest) decode = rbind (decode s) (\<lambda>(x, _). Inr x)"
    "ba_wf s" "ba_data s = strv (e @ rest)" "m_position s = 1" "m_baseSize s = 4096"
    by (rule deserialize_at_1)
  have strv: "strv (e @ rest) = of_nat (length (e @ rest)) # e @ rest"
    by (rule strv_small [OF assms(2)])
  then have "m_size s = Suc (length (e @ rest))"
    using ba_wf_length_data [OF s(2)] s(3) by simp
  then have "m_size s < m_capacity s"
    using ba_wf_slack [OF s(2)] s(5) assms(2) by simp
  moreover have "stands_at e s" using s(3,4) strv by (simp add: stands_at_def)
  ultimately have "decode s = Inr (x, ba_seek (1 + length e) s)"
    using assms(1) s(2,4) \<open>m_size s = Suc (length (e @ rest))\<close> unfolding yields_def by force
  with s(1) show ?thesis by simp
qed

section \<open>Bodies of 128 bytes or more\<close>

text \<open>Fixed-width readers return whatever bytes stand there.\<close>

lemma yields_any_fint:
  "length e = 8 \<Longrightarrow> yields read_fuint64 e (le_dec e)" "length e = 4 \<Longrightarrow> yields read_fuint32 e (le_dec e)"
  using yields_map [OF yields_read, of 8 e "le_dec :: bytes \<Rightarrow> u64"] yields_map [OF yields_read, of 4 e "le_dec :: bytes \<Rightarrow> u32"]
  by (simp_all add: read_fuint64_def read_fuint32_def read_fint_def [abs_def])

lemma yields_any_name:
  assumes "length e = 16"
  shows "yields read_name e (Name (le_dec (take 8 e)) (le_dec (drop 8 e)))"
proof -
  have "yields read_name (take 8 e @ drop 8 e) (Name (le_dec (take 8 e)) (le_dec (drop 8 e)))"
    unfolding read_name_def [abs_def]
    by (rule yields_bind [OF yields_any_fint(1)], simp add: assms,
        rule yields_map [OF yields_any_fint(1)], simp add: assms)
  then show ?thesis by simp
qed

lemma strv_two_bytes:
  assumes "128 \<le> length str" and "length str < 128 * 128"
  obtains b0 b1 where "strv str = b0 # b1 # str"
proof -
  have "unat (of_nat (length str) :: u64) = length str"
    using assms(2) by (intro unat_of_nat_small) simp
  then have "length (varint (unat (of_nat (length str) :: u64))) = 2"
    using length_varint_two [of "length str"] assms by simp
  then obtain b0 b1 where "varint (unat (of_nat (length str) :: u64)) = [b0, b1]"
    by (auto simp: length_Suc_conv numeral_2_eq_2)
  then show thesis using that by (simp add: strv_def)
qed

text \<open>A length field read one byte early is at least 256 times the length.\<close>

lemma shifted_length:
  assumes "n < 2 ^ 16"
  shows "256 * n \<le> unat (le_dec (x # take 3 (le_enc 4 (of_nat n :: u32))) :: u32)"
proof -
  let ?w = "of_nat n :: u32"
  have "take 3 (le_enc 4 ?w) = le_enc 3 ?w" by (simp add: numeral_eq_Suc)
  moreover have "unat (take_bit 24 ?w) = unat ?w"
    using assms by (simp add: unsigned_take_bit_eq unsigned_of_nat take_bit_nat_eq_self)
  ultimately have dec: "(le_dec (take 3 (le_enc 4 ?w)) :: u32) = ?w"
    by (simp add: le_dec_le_enc_take word_unat_eq_iff)
  have "(le_dec (x # take 3 (le_enc 4 ?w)) :: u32) = ucast x + push_bit 8 ?w"
    by (simp only: le_dec.simps dec, rule disjunctive_add [symmetric])
       (auto simp: bit_ucast_iff bit_push_bit_iff dest: bit_imp_le_length)
  moreover have "unat (push_bit 8 ?w) = 256 * n"
    using assms by (simp add: push_bit_eq_mult unat_word_ariths unsigned_of_nat take_bit_nat_eq_self)
  moreover have "unat (ucast x :: u32) < 256"
  proof -
    have "unat x < 256" by (rule order_less_le_trans [OF unsigned_less]) simp
    then show ?thesis by (simp add: unsigned_ucast_eq take_bit_nat_eq_self)
  qed
  ultimately show ?thesis using assms by (simp add: unat_word_ariths)
qed

lemma user_message_overlong:
  assumes "92 \<le> length (um_data m)" and "length (um_data m) < 16348"
  shows "deserialize fresh (message_bytes (UserMessage m)) read_user_message = Inl OutOfRange"
proof -
  let ?raw = "message_bytes (UserMessage m)" and ?L = "length (um_data m)"
  let ?e = "name_bytes (um_from_port_name m) @ name_bytes (um_to_port_name m)"
  let ?len = "le_enc 4 (of_nat ?L :: u32)"
  have raw: "?raw = ?e @ ?len @ um_data m" by (simp add: str32_def)
  obtain s where s: "deserialize fresh ?raw read_user_message = rbind (read_user_message s) (\<lambda>(x, _). Inr x)"
    "ba_wf s" "ba_data s = strv ?raw" "m_position s = 1"
    by (rule deserialize_at_1) 
  obtain b0 b1 where strv: "strv ?raw = b0 # b1 # ?raw"
    by (rule strv_two_bytes [of ?raw]) (use assms in simp_all)
  have size: "m_size s = 38 + ?L" using ba_wf_length_data [OF s(2)] s(3) strv by simp
  define n1 where "n1 = take 16 (b1 # ?e)"
  define n2 where "n2 = take 16 (drop 16 (b1 # ?e))"
  define ln where "ln = last ?e # take 3 ?len"
  have last: "drop n xs = [last xs]" if "length xs = Suc n" for n and xs :: bytes
    using that append_butlast_last_id [of xs] by (metis append_eq_conv_conj length_butlast diff_Suc_1 list.size(3) nat.distinct(1))
  have "drop 32 (b1 # ?e) = [last ?e]" using last [of ?e 31] by (simp add: numeral_eq_Suc)
  then have "b1 # ?e = n1 @ n2 @ [last ?e]"
    using append_take_drop_id [of 16 "b1 # ?e"] append_take_drop_id [of 16 "drop 16 (b1 # ?e)"]
    by (simp add: n1_def n2_def del: append_take_drop_id)
  then have split: "b1 # ?raw = (n1 @ n2 @ ln) @ drop 3 ?len @ um_data m"
    using append_take_drop_id [of 3 ?len] unfolding raw ln_def by (metis append.assoc append_Cons append_Nil)
  have len: "length n1 = 16" "length n2 = 16" "length ln = 4" by (simp_all add: n1_def n2_def ln_def)
  have "stands_at (n1 @ n2 @ ln) s"
    using s(3,4) strv split by (simp add: stands_at_def len)
  then have at: "stands_at n1 s" "stands_at n2 (ba_seek 17 s)" "stands_at ln (ba_seek 33 s)"
    by (simp_all add: stands_at_append s(4) len)
  have room: "38 + ?L \<le> m_capacity s" using ba_wf_bounds(2) [OF s(2)] size by simp
  have "read_name s = Inr (Name (le_dec (take 8 n1)) (le_dec (drop 8 n1)), ba_seek 17 s)"
    using yields_any_name [OF len(1)] at(1) s(2,4) room len by (simp add: yields_def)
  moreover have "read_name (ba_seek 17 s) = Inr (Name (le_dec (take 8 n2)) (le_dec (drop 8 n2)), ba_seek 33 s)"
    using yields_any_name [OF len(2)] at(2) s(2,4) room len size by (simp add: yields_def)
  moreover have "read_fuint32 (ba_seek 33 s) = Inr (le_dec ln, ba_seek 37 s)"
    using yields_any_fint(2) [OF len(3)] at(3) s(2,4) room len size by (simp add: yields_def)
  moreover have "256 * ?L \<le> unat (le_dec ln :: u32)"
    unfolding ln_def by (rule shifted_length) (use assms in simp)
  then have "ba_read (unat (le_dec ln :: u32)) (ba_seek 37 s) = Inl OutOfRange"
    using s(2) size assms by (simp add: ba_read_spec)
  ultimately show ?thesis
    by (simp add: s(1) read_user_message_def read_string_f32_def del: message_bytes.simps)
qed

section \<open>Properties\<close>

text \<open>
  C16: Every message body shorter than 128 bytes survives the wire: what \<^verbatim>\<open>SerializeMessage\<close> returns
  for it, \<^verbatim>\<open>DeserializeMessage\<close> at its class decodes to the same fields, whatever new memory holds.
\<close>

theorem message_roundtrip:
  assumes "length (message_bytes m) < 128"
  shows "\<exists>raw. serialize_message fresh m = Inr raw \<and>
    (case m of
       AcceptInvitee t n \<Rightarrow> deserialize fresh' raw read_accept_invitee = Inr (t, n)
     | AcceptInvitation t n \<Rightarrow> deserialize fresh' raw read_accept_invitation = Inr (t, n)
     | AcceptPeer t n p \<Rightarrow> deserialize fresh' raw read_accept_peer = Inr (t, n, p)
     | RequestPortMerge c n \<Rightarrow> deserialize fresh' raw read_request_port_merge = Inr (c, n)
     | ResponsePortMerge c p \<Rightarrow> deserialize fresh' raw read_response_port_merge = Inr (c, p)
     | UserMessage u \<Rightarrow> deserialize fresh' raw read_user_message = Inr u)"
proof (intro exI [of _ "message_bytes m"] conjI)
  show "serialize_message fresh m = Inr (message_bytes m)" by (rule serialize_message_bytes)
  have short: "deserialize fresh' (message_bytes m) decode = Inr x" if "yields decode (message_bytes m) x" for decode and x :: 'x
    using deserialize_short [OF that, of "[]" fresh'] assms by simp
  have req: "length n < 2 ^ 64" if "m = RequestPortMerge c n" for c n using assms that by simp
  have usr: "length (um_data u) < 2 ^ 32" if "m = UserMessage u" for u using assms that by simp
  show "case m of
       AcceptInvitee t n \<Rightarrow> deserialize fresh' (message_bytes m) read_accept_invitee = Inr (t, n)
     | AcceptInvitation t n \<Rightarrow> deserialize fresh' (message_bytes m) read_accept_invitation = Inr (t, n)
     | AcceptPeer t n p \<Rightarrow> deserialize fresh' (message_bytes m) read_accept_peer = Inr (t, n, p)
     | RequestPortMerge c n \<Rightarrow> deserialize fresh' (message_bytes m) read_request_port_merge = Inr (c, n)
     | ResponsePortMerge c p \<Rightarrow> deserialize fresh' (message_bytes m) read_response_port_merge = Inr (c, p)
     | UserMessage u \<Rightarrow> deserialize fresh' (message_bytes m) read_user_message = Inr u"
  proof (cases m)
    case (AcceptInvitee t n)
    then show ?thesis using short [of read_accept_invitee "(t, n)"] by (simp add: yields_bodies)
  next
    case (AcceptInvitation t n)
    then show ?thesis using short [of read_accept_invitation "(t, n)"] by (simp add: yields_bodies)
  next
    case (AcceptPeer t n p)
    then show ?thesis using short [of read_accept_peer "(t, n, p)"] by (simp add: yields_accept_peer)
  next
    case (RequestPortMerge c n)
    then show ?thesis using short [of read_request_port_merge "(c, n)"] req by (simp add: yields_request_port_merge)
  next
    case (ResponsePortMerge c p)
    then show ?thesis using short [of read_response_port_merge "(c, p)"] by (simp add: yields_bodies)
  next
    case (UserMessage u)
    then show ?thesis using short [of read_user_message u] usr by (simp add: yields_user_message)
  qed
qed

theorem message_roundtrip_witness:
  "deserialize (\<lambda>_ _. 0) (message_bytes (UserMessage \<lparr>um_from_port_name = Name 1 2, um_to_port_name = Name 3 4, um_data = [104, 105]\<rparr>))
     read_user_message = Inr \<lparr>um_from_port_name = Name 1 2, um_to_port_name = Name 3 4, um_data = [104, 105]\<rparr>"
  using message_roundtrip [of "UserMessage \<lparr>um_from_port_name = Name 1 2, um_to_port_name = Name 3 4, um_data = [104, 105]\<rparr>" "\<lambda>_ _. 0" "\<lambda>_ _. 0"]
  by (simp add: serialize_message_bytes)

text \<open>
  The envelope on the wire is an 11-byte header and the body; the header alone decodes to the
  magic number, version and type written, with the size of the body (modulo 2^32) as its content
  length.
\<close>

lemma envelope_header:
  "\<exists>raw. serialize_protocol fresh p = Inr raw \<and> length raw = kBaseLen + length (p_data p)
    \<and> drop kBaseLen raw = p_data p
    \<and> deserialize_protocol fresh' (take kBaseLen raw) =
        Inr \<lparr>p_magic = p_magic p, p_version = p_version p, p_type = p_type p,
             p_content_length = of_nat (length (p_data p)), p_data = []\<rparr>"
proof (intro exI [of _ "protocol_bytes p"] conjI)
  let ?n = "of_nat (length (p_data p)) :: u32"
  have bytes: "protocol_bytes p = ([p_magic p, p_version p, p_type p] @ le_enc 4 ?n) @ le_enc 4 ?n @ p_data p"
    by (simp add: protocol_bytes_def meta_bytes_def str32_def)
  show "serialize_protocol fresh p = Inr (protocol_bytes p)" by (rule serialize_protocol_bytes)
  show "length (protocol_bytes p) = kBaseLen + length (p_data p)" by (simp add: bytes kBaseLen_def)
  show "drop kBaseLen (protocol_bytes p) = p_data p" by (simp add: bytes kBaseLen_def)
  have "take kBaseLen (protocol_bytes p) = ([p_magic p, p_version p, p_type p] @ le_enc 4 ?n) @ le_enc 4 ?n"
    by (simp add: bytes kBaseLen_def)
  then show "deserialize_protocol fresh' (take kBaseLen (protocol_bytes p)) =
      Inr \<lparr>p_magic = p_magic p, p_version = p_version p, p_type = p_type p,
           p_content_length = ?n, p_data = []\<rparr>"
    using deserialize_short [OF yields_decode_meta [of protocol_default "p_magic p" "p_version p" "p_type p" ?n], of "le_enc 4 ?n" fresh']
    by (simp add: deserialize_protocol_def protocol_decode_def [abs_def] protocol_default_def)
qed

text \<open>
  C33: A user message of 92 to 16347 bytes of data is sent whole, and decoding it always throws: the
  length prefix takes two bytes, one is skipped, and the length field read one byte early exceeds
  what is left.
\<close>

theorem user_message_not_decoded:
  assumes "92 \<le> length (um_data m)" and "length (um_data m) < 16348"
  shows "\<exists>raw. serialize_message fresh (UserMessage m) = Inr raw \<and> length raw = 36 + length (um_data m)
    \<and> deserialize fresh' raw read_user_message = Inl OutOfRange"
  using user_message_overlong [OF assms, of fresh'] by (auto simp: serialize_message_bytes)

theorem user_message_not_decoded_witness:
  "deserialize (\<lambda>_ _. 0) (message_bytes (UserMessage \<lparr>um_from_port_name = Name 1 2, um_to_port_name = Name 3 4, um_data = replicate 92 0\<rparr>))
     read_user_message = Inl OutOfRange"
  using user_message_not_decoded [of "\<lparr>um_from_port_name = Name 1 2, um_to_port_name = Name 3 4, um_data = replicate 92 0\<rparr>" "\<lambda>_ _. 0" "\<lambda>_ _. 0"]
  by (simp add: serialize_message_bytes del: message_bytes.simps)

end
