(* ===== verification/Sock_Ops.thy ===== *)
theory Sock_Ops
  imports Prelude
begin

text \<open>
  \<^verbatim>\<open>src/core/sock_ops.cc\<close>: receiving and sending over a socket. The kernel is a list of the outcomes
  its next system calls have; a call for which there is no outcome yet has not returned, and the
  function is \<open>None\<close>. A received chunk is never longer than what was asked for (\<open>fits\<close>), as
  \<^verbatim>\<open>recv\<close> guarantees; the empty chunk is the end of the stream. An integer result is an \<^verbatim>\<open>int\<close>.
\<close>

datatype errno = EAGAIN | EINTR | EOther

datatype rx = RData bytes | RErr errno

datatype tx = TOk nat | TErr errno

fun sock_recv :: "rx list \<Rightarrow> nat \<Rightarrow> (int \<times> bytes \<times> rx list) option" where
  "sock_recv [] n = None"
| "sock_recv (RData bs # q) n = Some (int (length bs), bs, q)"
| "sock_recv (RErr e # q) n =
     (if e = EAGAIN then Some (- 1, [], q)
      else if e \<noteq> EINTR then Some (- 1, [], q)
      else sock_recv q n)"

text \<open>\<open>got\<close> is what the buffer holds so far, \<open>n\<close> bytes are wanted.\<close>

fun recvn_loop :: "rx list \<Rightarrow> nat \<Rightarrow> bytes \<Rightarrow> (int \<times> bytes \<times> rx list) option" where
  "recvn_loop [] n got = None"
| "recvn_loop (RData bs # q) n got =
     (if length bs = n - length got then Some (int n, got @ bs, q)
      else if bs = [] then Some (0, got, q)
      else recvn_loop q n (got @ bs))"
| "recvn_loop (RErr e # q) n got =
     (if e = EAGAIN then Some (- 1, got, q)
      else if e \<noteq> EINTR then Some (- 1, got, q)
      else recvn_loop q n got)"

definition sock_recvn :: "rx list \<Rightarrow> nat \<Rightarrow> (int \<times> bytes \<times> rx list) option" where
  "sock_recvn q n = recvn_loop q n []"

text \<open>\<open>sent\<close> is what the kernel has taken, \<open>rest\<close> what remains.\<close>

fun send_loop :: "tx list \<Rightarrow> nat \<Rightarrow> bytes \<Rightarrow> bytes \<Rightarrow> (int \<times> bytes \<times> tx list) option" where
  "send_loop [] n sent rest = None"
| "send_loop (TOk r # q) n sent rest =
     (if r = length rest then Some (int n, sent @ rest, q)
      else send_loop q n (sent @ take r rest) (drop r rest))"
| "send_loop (TErr e # q) n sent rest =
     (if e = EAGAIN then Some (- 1, sent, q)
      else if e \<noteq> EINTR then Some (- 1, sent, q)
      else send_loop q n sent rest)"

definition sock_send :: "tx list \<Rightarrow> bytes \<Rightarrow> (int \<times> bytes \<times> tx list) option" where
  "sock_send q buf = send_loop q (length buf) [] buf"

section \<open>Receiving\<close>

text \<open>What \<^verbatim>\<open>recv\<close> guarantees while \<open>m\<close> bytes are wanted.\<close>

fun fits :: "rx list \<Rightarrow> nat \<Rightarrow> bool" where
  "fits [] m \<longleftrightarrow> True"
| "fits (RData bs # q) m \<longleftrightarrow> length bs \<le> m \<and> (length bs < m \<longrightarrow> fits q (m - length bs))"
| "fits (RErr e # q) m \<longleftrightarrow> fits q m"

fun rx_bytes :: "rx list \<Rightarrow> bytes" where
  "rx_bytes [] = []"
| "rx_bytes (RData bs # q) = bs @ rx_bytes q"
| "rx_bytes (RErr e # q) = rx_bytes q"

lemma recvn_loop_outcome:
  assumes "fits q (n - length got)" and "length got \<le> n" and "recvn_loop q n got = Some (r, buf, q')"
  shows "\<exists>done. q = done @ q' \<and> buf = got @ rx_bytes done
    \<and> (r = int n \<and> length buf = n \<or> (r = 0 \<or> r = - 1) \<and> length buf \<le> n)"
  using assms
proof (induction q n got rule: recvn_loop.induct)
  case (2 bs q n got)
  show ?case
  proof (cases "length bs = n - length got \<or> bs = []")
    case True
    with 2 show ?thesis by (intro exI [of _ "[RData bs]"]) (auto split: if_splits)
  next
    case False
    then obtain d where "q = d @ q'" "buf = (got @ bs) @ rx_bytes d"
      "r = int n \<and> length buf = n \<or> (r = 0 \<or> r = - 1) \<and> length buf \<le> n"
      using 2 by (fastforce simp: le_less)
    then show ?thesis by (intro exI [of _ "RData bs # d"]) simp
  qed
next
  case (3 e q n got)
  show ?case
  proof (cases "e = EINTR")
    case True
    with 3 obtain d where "q = d @ q'" "buf = got @ rx_bytes d"
      "r = int n \<and> length buf = n \<or> (r = 0 \<or> r = - 1) \<and> length buf \<le> n"
      by auto
    then show ?thesis by (intro exI [of _ "RErr e # d"]) simp
  next
    case False
    with 3 show ?thesis by (intro exI [of _ "[RErr e]"]) (auto split: if_splits)
  qed
qed simp

text \<open>Interrupted calls are retried, so a stream that delivers is received whole.\<close>

fun delivers :: "rx list \<Rightarrow> bool" where
  "delivers [] \<longleftrightarrow> True"
| "delivers (RData bs # q) \<longleftrightarrow> bs \<noteq> [] \<and> delivers q"
| "delivers (RErr e # q) \<longleftrightarrow> e = EINTR \<and> delivers q"

lemma recvn_loop_complete:
  assumes "delivers q" and "length got + length (rx_bytes q) = n" and "rx_bytes q \<noteq> []"
  shows "\<exists>rest. recvn_loop (q @ q') n got = Some (int n, got @ rx_bytes q, rest @ q') \<and> rx_bytes rest = [] \<and> delivers rest"
  using assms
proof (induction q n got rule: recvn_loop.induct)
  case (2 bs q n got)
  show ?case
  proof (cases "rx_bytes q = []")
    case True
    with 2 show ?thesis by (intro exI [of _ q]) auto
  next
    case False
    with 2 show ?thesis by auto
  qed
qed auto

section \<open>Sending\<close>

lemma send_loop_outcome:
  assumes "send_loop q n sent rest = Some (r, out, q')"
  shows "(\<exists>k. out = sent @ take k rest) \<and> (r = int n \<and> out = sent @ rest \<or> r = - 1)"
  using assms
proof (induction q n sent rest rule: send_loop.induct)
  case (2 k q n sent rest)
  show ?case
  proof (cases "k = length rest")
    case True
    with 2(2) show ?thesis by (auto intro: exI [of _ "length rest"])
  next
    case False
    with 2 obtain m where "out = (sent @ take k rest) @ take m (drop k rest)"
      "r = int n \<and> out = (sent @ take k rest) @ drop k rest \<or> r = - 1"
      by auto
    then show ?thesis by (auto simp: take_add [symmetric])
  qed
next
  case (3 e q n sent rest)
  then show ?case by (auto split: if_splits intro: exI [of _ 0])
qed simp

section \<open>Properties\<close>

text \<open>
  \<^verbatim>\<open>Recvn\<close> fills the buffer with consecutive bytes of the stream: it returns the full count
  only when the buffer is full, and 0 or -1 with a shorter prefix when the peer closed or the
  call failed.
\<close>

lemma recvn_prefix:
  assumes "fits q n" and "sock_recvn q n = Some (r, buf, q')"
  shows "\<exists>used. q = used @ q' \<and> buf = rx_bytes used
    \<and> (r = int n \<and> length buf = n \<or> (r = 0 \<or> r = - 1) \<and> length buf \<le> n)"
  using recvn_loop_outcome [of q n "[]" r buf q'] assms by (simp add: sock_recvn_def)

text \<open>
  C19: When the bytes wanted arrive in pieces of any size, interrupted any number of times, \<^verbatim>\<open>Recvn\<close>
  returns all of them.
\<close>

theorem recvn_reassembles:
  assumes "delivers q" and "rx_bytes q \<noteq> []"
  shows "\<exists>rest. sock_recvn (q @ q') (length (rx_bytes q)) = Some (int (length (rx_bytes q)), rx_bytes q, rest @ q')
    \<and> rx_bytes rest = []"
  using recvn_loop_complete [OF assms(1), of "[]" "length (rx_bytes q)" q'] assms(2)
  by (auto simp: sock_recvn_def)

theorem recvn_reassembles_witness:
  "\<exists>rest. sock_recvn ([RErr EINTR, RData [1], RData [2, 3]] @ [RData [4]]) 3 = Some (3, [1, 2, 3], rest @ [RData [4]])"
  using recvn_reassembles [of "[RErr EINTR, RData [1], RData [2, 3]]" "[RData [4]]"] by (auto simp: numeral_3_eq_3)

text \<open>
  \<^verbatim>\<open>Send\<close> hands over a prefix of the buffer; it returns the size only when all of it was taken,
  and otherwise -1.
\<close>

lemma send_prefix:
  assumes "sock_send q buf = Some (r, out, q')"
  shows "(\<exists>k. out = take k buf) \<and> (r = int (length buf) \<and> out = buf \<or> r = - 1)"
  using send_loop_outcome [of q "length buf" "[]" buf r out q'] assms by (simp add: sock_send_def)

end
