(* ===== verification/Io_Runner.thy ===== *)
theory Io_Runner
  imports Names
begin

text \<open>
  The event loop side: \<^verbatim>\<open>src/core/io_task_runner.h\<close>, which maps file descriptors to their delegates,
  and \<^verbatim>\<open>src/core/libuv_io_task_runner_adapter.cc\<close>. libuv itself is outside: the calls of
  \<^verbatim>\<open>uv_poll_start\<close> are recorded, and its callback is a function of the status and events libuv
  passes. A delegate is any type \<open>'d\<close>; its two handlers are arguments.
\<close>

section \<open>The runner\<close>

datatype io_event = kReadable | kWritable | kReadWritable

fun io_code :: "io_event \<Rightarrow> nat" where
  "io_code kReadable = 2"
| "io_code kWritable = 4"
| "io_code kReadWritable = 6"

text \<open>libuv's documented constants.\<close>

definition UV_READABLE :: nat where "UV_READABLE = 1"
definition UV_WRITABLE :: nat where "UV_WRITABLE = 2"
definition UV_DISCONNECT :: nat where "UV_DISCONNECT = 4"

record 'd io_runner =
  io_delegates :: "(int, 'd) omap"
  io_handles :: "(int, nat) omap"   \<comment> \<open>the fd a poll handle stands for, and the handle\<close>
  io_next_handle :: nat
  io_polls :: "(nat \<times> nat) list"   \<comment> \<open>the calls of \<^verbatim>\<open>uv_poll_start\<close>: handle and events\<close>
  io_closed :: bool

definition io_new :: "'d io_runner" where
  "io_new = \<lparr>io_delegates = [], io_handles = [], io_next_handle = 0, io_polls = [], io_closed = False\<rparr>"

definition io_delegate :: "int \<Rightarrow> 'd io_runner \<Rightarrow> 'd option" where
  "io_delegate fd io = om_find fd (io_delegates io)"

text \<open>\<^verbatim>\<open>delegate_map_[delegate->handle()] = delegate\<close>: the last one set wins.\<close>

definition set_delegate :: "int \<Rightarrow> 'd \<Rightarrow> 'd io_runner \<Rightarrow> 'd io_runner" where
  "set_delegate fd d io = io\<lparr>io_delegates := om_emplace fd d (om_erase fd (io_delegates io))\<rparr>"

definition uv_events :: "io_event \<Rightarrow> nat" where
  "uv_events ev = (if io_code ev div 2 mod 2 = 1 then UV_READABLE else 0)
     + (if io_code ev div 4 mod 2 = 1 then UV_WRITABLE else 0)"

definition add_fd_event :: "int \<Rightarrow> io_event \<Rightarrow> 'd io_runner \<Rightarrow> 'd io_runner" where
  "add_fd_event fd ev io =
     (let (h, io1) = (case om_find fd (io_handles io) of
            None \<Rightarrow> (io_next_handle io,
              io\<lparr>io_handles := om_emplace fd (io_next_handle io) (io_handles io),
                 io_next_handle := Suc (io_next_handle io)\<rparr>)
          | Some h \<Rightarrow> (h, io))
      in io1\<lparr>io_polls := io_polls io1 @ [(h, uv_events ev)]\<rparr>)"

definition del_fd_event :: "int \<Rightarrow> io_event \<Rightarrow> 'd io_runner \<Rightarrow> 'd io_runner" where
  "del_fd_event fd ev io =
     (case om_find fd (io_handles io) of
        None \<Rightarrow> io
      | Some h \<Rightarrow> io\<lparr>io_polls := io_polls io @ [(h, UV_DISCONNECT)]\<rparr>)"

definition io_close :: "'d io_runner \<Rightarrow> 'd io_runner" where
  "io_close io = (if io_closed io then io else io\<lparr>io_closed := True\<rparr>)"

section \<open>The callbacks\<close>

text \<open>
  \<open>delegate_of\<close> looks the delegate up in the caller's state, so that a handler may change it.
\<close>

definition on_libuv_fd_active ::
  "(int \<Rightarrow> 's \<Rightarrow> 'd option) \<Rightarrow> ('d \<Rightarrow> int \<Rightarrow> 's \<Rightarrow> 's res) \<Rightarrow> ('d \<Rightarrow> int \<Rightarrow> 's \<Rightarrow> 's res)
    \<Rightarrow> int \<Rightarrow> int \<Rightarrow> nat \<Rightarrow> 's \<Rightarrow> 's res" where
  "on_libuv_fd_active delegate_of readable writeable fd status events s =
     (if status < 0 then Inr s
      else rbind (if events div UV_READABLE mod 2 = 1
                  then (case delegate_of fd s of None \<Rightarrow> Inl NullDeref | Some d \<Rightarrow> readable d fd s)
                  else Inr s)
        (\<lambda>s. if events div UV_WRITABLE mod 2 = 1
             then (case delegate_of fd s of None \<Rightarrow> Inl NullDeref | Some d \<Rightarrow> writeable d fd s)
             else Inr s))"

text \<open>\<^verbatim>\<open>OnLibuvFdClose\<close> frees the handle and then reads the descriptor from it.\<close>

definition on_libuv_fd_close :: "nat \<Rightarrow> 'd io_runner \<Rightarrow> 'd io_runner res" where
  "on_libuv_fd_close handle io = Inl MemoryOverrun"

section \<open>Laws\<close>

definition io_wf :: "'d io_runner \<Rightarrow> bool" where
  "io_wf io \<longleftrightarrow> om_inv (io_delegates io) \<and> om_inv (io_handles io)
     \<and> (\<forall>fd h. om_find fd (io_handles io) = Some h \<longrightarrow> h < io_next_handle io)
     \<and> (\<forall>fd fd' h. om_find fd (io_handles io) = Some h \<longrightarrow> om_find fd' (io_handles io) = Some h \<longrightarrow> fd = fd')"

lemma io_wf_new: "io_wf io_new"
  by (simp add: io_wf_def io_new_def om_inv_def)

lemma io_delegate_set:
  "io_wf io \<Longrightarrow> io_delegate fd' (set_delegate fd d io) = (if fd' = fd then Some d else io_delegate fd' io)"
  by (simp add: io_wf_def io_delegate_def set_delegate_def om.find_emplace om.find_erase om.ok_erase)

lemma io_wf_set_delegate: "io_wf io \<Longrightarrow> io_wf (set_delegate fd d io)"
  by (simp add: io_wf_def set_delegate_def om.ok_emplace om.ok_erase)

lemma io_wf_add_fd_event: "io_wf io \<Longrightarrow> io_wf (add_fd_event fd ev io)"
  by (auto simp: io_wf_def add_fd_event_def om.find_emplace om.ok_emplace split: option.splits if_splits)
     (metis less_SucI less_irrefl)+

lemma io_delegate_add_fd_event [simp]: "io_delegate fd' (add_fd_event fd ev io) = io_delegate fd' io"
  by (auto simp: io_delegate_def add_fd_event_def split: option.splits)

section \<open>Properties\<close>

text \<open>
  C36: After a delegate has been set and its descriptor added, the runner polls that descriptor, with one
  handle that no other descriptor has and that is reused when the descriptor is added again; other
  descriptors keep their delegates. An event that is both readable and writable calls the delegate's
  read handler first, then the write handler of whatever delegate the descriptor has then; an event
  with an error status calls nothing; and one for a descriptor without a delegate dereferences null.
\<close>

theorem events_reach_last_delegate:
  assumes "io_wf io" and "io' = add_fd_event fd kReadWritable (set_delegate fd d io)"
  shows "io_delegate fd io' = Some d \<and> (\<forall>fd'. fd' \<noteq> fd \<longrightarrow> io_delegate fd' io' = io_delegate fd' io) \<and> io_wf io'
    \<and> (\<exists>h. om_find fd (io_handles io') = Some h \<and> io_polls io' = io_polls io @ [(h, UV_READABLE + UV_WRITABLE)]
         \<and> (\<forall>fd'. om_find fd' (io_handles io') = Some h \<longrightarrow> fd' = fd)
         \<and> (\<forall>h'. om_find fd (io_handles io) = Some h' \<longrightarrow> h = h'))
    \<and> on_libuv_fd_active io_delegate readable writeable fd 0 (UV_READABLE + UV_WRITABLE) io' =
        rbind (readable d fd io') (\<lambda>s. case io_delegate fd s of None \<Rightarrow> Inl NullDeref | Some d' \<Rightarrow> writeable d' fd s)
    \<and> on_libuv_fd_active io_delegate readable writeable fd (- 1) events io' = Inr io'
    \<and> (io_delegate fd'' io = None \<and> fd'' \<noteq> fd \<longrightarrow>
        on_libuv_fd_active io_delegate readable writeable fd'' 0 UV_READABLE io' = Inl NullDeref)"
proof -
  have wf1: "io_wf (set_delegate fd d io)" using assms(1) by (rule io_wf_set_delegate)
  then have wf': "io_wf io'" unfolding assms(2) by (rule io_wf_add_fd_event)
  have del: "io_delegate x io' = (if x = fd then Some d else io_delegate x io)" for x
    using io_delegate_set [OF assms(1), of x fd d] by (simp add: assms(2))
  have inv: "om_inv (io_handles io)" using assms(1) by (simp add: io_wf_def)
  have ev: "uv_events kReadWritable = UV_READABLE + UV_WRITABLE" by (simp add: uv_events_def)
  obtain h where h: "om_find fd (io_handles io') = Some h" "io_polls io' = io_polls io @ [(h, UV_READABLE + UV_WRITABLE)]"
    "\<forall>h'. om_find fd (io_handles io) = Some h' \<longrightarrow> h = h'"
    using inv by (cases "om_find fd (io_handles io)")
      (simp_all add: assms(2) add_fd_event_def set_delegate_def ev om.find_emplace)
  have one: "\<forall>fd'. om_find fd' (io_handles io') = Some h \<longrightarrow> fd' = fd" using wf' h(1) by (auto simp: io_wf_def)
  have "on_libuv_fd_active io_delegate readable writeable fd 0 (UV_READABLE + UV_WRITABLE) io' =
        rbind (readable d fd io') (\<lambda>s. case io_delegate fd s of None \<Rightarrow> Inl NullDeref | Some d' \<Rightarrow> writeable d' fd s)"
    by (simp add: on_libuv_fd_active_def UV_READABLE_def UV_WRITABLE_def del)
  moreover have "on_libuv_fd_active io_delegate readable writeable fd (- 1) events io' = Inr io'"
    by (simp add: on_libuv_fd_active_def)
  moreover have "io_delegate fd'' io = None \<and> fd'' \<noteq> fd \<longrightarrow>
        on_libuv_fd_active io_delegate readable writeable fd'' 0 UV_READABLE io' = Inl NullDeref"
    by (simp add: on_libuv_fd_active_def UV_READABLE_def del)
  moreover have "io_delegate fd io' = Some d" "\<forall>fd'. fd' \<noteq> fd \<longrightarrow> io_delegate fd' io' = io_delegate fd' io" by (simp_all add: del)
  ultimately show ?thesis using wf' h one by - (intro conjI exI [of _ h]; assumption)
qed

theorem events_reach_last_delegate_witness:
  "io_delegate 3 (add_fd_event 3 kReadWritable (set_delegate 3 True (io_new :: bool io_runner))) = Some True"
  using events_reach_last_delegate [OF io_wf_new refl, of 3 True] by blast

end
