(* ===== verification/Channel.thy ===== *)
theory Channel
  imports Protocol_Spec Sock_Ops Io_Runner
begin

text \<open>
  \<^verbatim>\<open>src/core/channel.cc\<close>, \<^verbatim>\<open>channel_posix.cc\<close> and \<^verbatim>\<open>node_channel.cc\<close>: a channel queues outgoing
  protocols and moves them over a socket when the event loop says so; a node channel owns one,
  knows the name of the remote node and turns incoming messages into calls of its delegate. The
  delegate is a record of handlers over the caller's state \<open>'s\<close>. A socket is the outcomes of its
  next system calls (\<open>Sock_Ops\<close>); \<open>None\<close> is a handler that has not returned.
\<close>

section \<open>The posix channel\<close>

record channel =
  ch_socket :: int
  ch_writing_protocol :: "protocol list"
  ch_closed :: bool
  ch_delegate :: bool         \<comment> \<open>\<^verbatim>\<open>delegate_\<close> is not null\<close>
  ch_io_task_runner :: bool   \<comment> \<open>\<^verbatim>\<open>io_task_runner_\<close> is not null\<close>

definition channel_new :: "int \<Rightarrow> channel" where
  "channel_new fd = \<lparr>ch_socket = fd, ch_writing_protocol = [], ch_closed = False,
     ch_delegate = True, ch_io_task_runner = True\<rparr>"

text \<open>The constructor registers with the runner, which it dereferences.\<close>

definition channel_create :: "int \<Rightarrow> 'd \<Rightarrow> 'd io_runner option \<Rightarrow> (channel \<times> 'd io_runner option) res" where
  "channel_create fd d io =
     (case io of None \<Rightarrow> Inl NullDeref
      | Some r \<Rightarrow> Inr (channel_new fd, Some (set_delegate fd d r)))"

definition channel_start :: "channel \<Rightarrow> 'd io_runner option \<Rightarrow> 'd io_runner option res" where
  "channel_start ch io =
     (if \<not> ch_io_task_runner ch then Inl NullDeref
      else case io of None \<Rightarrow> Inl NullDeref
      | Some r \<Rightarrow> Inr (Some (add_fd_event (ch_socket ch) kReadWritable r)))"

definition channel_read :: "channel \<Rightarrow> channel" where
  "channel_read ch = ch"

definition channel_write :: "protocol \<Rightarrow> channel \<Rightarrow> channel" where
  "channel_write p ch = ch\<lparr>ch_writing_protocol := ch_writing_protocol ch @ [p]\<rparr>"

definition channel_shutdown_impl :: "channel \<Rightarrow> channel" where
  "channel_shutdown_impl ch = ch\<lparr>ch_io_task_runner := False\<rparr>"

definition channel_shutdown :: "channel \<Rightarrow> channel" where
  "channel_shutdown ch =
     (if ch_closed ch then ch
      else (channel_shutdown_impl ch)\<lparr>ch_delegate := False, ch_closed := True\<rparr>)"

text \<open>
  The destructor of the base class calls \<^verbatim>\<open>Shutdown\<close>, when the derived object is already gone: on a channel
  that has not been shut down \<^verbatim>\<open>ShutdownImpl\<close> is then the pure virtual function of \<^verbatim>\<open>Channel\<close>.
\<close>

definition channel_destroy :: "channel \<Rightarrow> unit res" where
  "channel_destroy ch = (if ch_closed ch then Inr () else Inl PureVirtualCall)"

lemma channel_destroy_shutdown: "channel_destroy (channel_shutdown ch) = Inr ()"
  by (simp add: channel_destroy_def channel_shutdown_def)

text \<open>\<^verbatim>\<open>Send\<close>'s result is not looked at. The bytes are those the kernel took.\<close>

fun flush :: "(nat \<Rightarrow> nat \<Rightarrow> byte) \<Rightarrow> protocol list \<Rightarrow> tx list \<Rightarrow> (bytes \<times> tx list) res option" where
  "flush fresh [] q = Some (Inr ([], q))"
| "flush fresh (p # ps) q =
     (case serialize_protocol fresh p of
        Inl f \<Rightarrow> Some (Inl f)
      | Inr data \<Rightarrow>
          (case sock_send q data of
             None \<Rightarrow> None
           | Some (r, out, q1) \<Rightarrow>
               (case flush fresh ps q1 of
                  None \<Rightarrow> None
                | Some (Inl f) \<Rightarrow> Some (Inl f)
                | Some (Inr (outs, q2)) \<Rightarrow> Some (Inr (out @ outs, q2)))))"

definition on_fd_writeable :: "(nat \<Rightarrow> nat \<Rightarrow> byte) \<Rightarrow> channel \<Rightarrow> tx list \<Rightarrow> (channel \<times> bytes \<times> tx list) res option" where
  "on_fd_writeable fresh ch q =
     (case flush fresh (ch_writing_protocol ch) q of
        None \<Rightarrow> None
      | Some (Inl f) \<Rightarrow> Some (Inl f)
      | Some (Inr (out, q1)) \<Rightarrow> Some (Inr (ch\<lparr>ch_writing_protocol := []\<rparr>, out, q1)))"

text \<open>
  \<^verbatim>\<open>ReadFixBufFromSocket(uint16)\<close> returns a string of the wanted length whatever \<^verbatim>\<open>Recvn\<close> says: what was
  not received is the previous contents of the buffer, \<open>junk\<close>.
\<close>

definition read_fix_buf :: "(nat \<Rightarrow> byte) \<Rightarrow> u16 \<Rightarrow> rx list \<Rightarrow> (bytes \<times> rx list) option" where
  "read_fix_buf junk fix_len q =
     (case sock_recvn q (unat fix_len) of
        None \<Rightarrow> None
      | Some (r, buf, q1) \<Rightarrow> Some (buf @ map junk [length buf..<unat fix_len], q1))"

definition read_header :: "(nat \<Rightarrow> nat \<Rightarrow> byte) \<Rightarrow> (nat \<Rightarrow> byte) \<Rightarrow> nat \<Rightarrow> rx list \<Rightarrow> (protocol \<times> rx list) res option" where
  "read_header fresh junk header_length q =
     (case read_fix_buf junk (of_nat header_length) q of
        None \<Rightarrow> None
      | Some (buf, q1) \<Rightarrow> Some (rbind (deserialize_protocol fresh buf) (\<lambda>p. Inr (p, q1))))"

text \<open>The content length goes through \<^verbatim>\<open>int\<close> to \<^verbatim>\<open>uint16\<close>.\<close>

definition read_body :: "(nat \<Rightarrow> byte) \<Rightarrow> u32 \<Rightarrow> rx list \<Rightarrow> (bytes \<times> rx list) option" where
  "read_body junk content_len q = read_fix_buf junk (ucast content_len) q"

definition read_protocol :: "(nat \<Rightarrow> nat \<Rightarrow> byte) \<Rightarrow> (nat \<Rightarrow> byte) \<Rightarrow> rx list \<Rightarrow> (protocol \<times> rx list) res option" where
  "read_protocol fresh junk q =
     (case read_header fresh junk kBaseLen q of
        None \<Rightarrow> None
      | Some (Inl f) \<Rightarrow> Some (Inl f)
      | Some (Inr (p, q1)) \<Rightarrow>
          (case read_body junk (p_content_length p) q1 of
             None \<Rightarrow> None
           | Some (body, q2) \<Rightarrow> Some (Inr (p\<lparr>p_data := body\<rparr>, q2))))"

text \<open>\<open>handle\<close> is \<^verbatim>\<open>delegate_->OnChannelMessage\<close>; the delegate is null after a shutdown.\<close>

definition on_fd_readable :: "(nat \<Rightarrow> nat \<Rightarrow> byte) \<Rightarrow> (nat \<Rightarrow> byte) \<Rightarrow> (protocol \<Rightarrow> 's \<Rightarrow> 's res) \<Rightarrow> channel
    \<Rightarrow> rx list \<Rightarrow> 's \<Rightarrow> ('s \<times> rx list) res option" where
  "on_fd_readable fresh junk handle ch q s =
     (case read_protocol fresh junk q of
        None \<Rightarrow> None
      | Some (Inl f) \<Rightarrow> Some (Inl f)
      | Some (Inr (p, q1)) \<Rightarrow>
          Some (if ch_delegate ch then rbind (handle p s) (\<lambda>s1. Inr (s1, q1)) else Inl NullDeref))"

section \<open>The node channel\<close>

record node_channel =
  nc_channel :: "channel option"
  nc_remote_node_name :: node_name

text \<open>What a node channel calls on its delegate, over the delegate's state.\<close>

record 's nc_delegate =
  OnAcceptInvitee :: "node_name \<Rightarrow> node_name \<Rightarrow> node_name \<Rightarrow> 's \<Rightarrow> 's res"
  OnAcceptInvitation :: "node_name \<Rightarrow> node_name \<Rightarrow> node_name \<Rightarrow> 's \<Rightarrow> 's res"
  OnRequestPortMerge :: "node_name \<Rightarrow> port_name \<Rightarrow> bytes \<Rightarrow> 's \<Rightarrow> 's res"
  OnResponsePortMerge :: "node_name \<Rightarrow> port_name \<Rightarrow> port_name \<Rightarrow> 's \<Rightarrow> 's res"
  OnUserMessage :: "node_name \<Rightarrow> user_message \<Rightarrow> 's \<Rightarrow> 's res"
  OnNodeChannelError :: "node_name \<Rightarrow> 's \<Rightarrow> 's res"

definition node_channel_create :: "int \<Rightarrow> 'd \<Rightarrow> 'd io_runner option \<Rightarrow> (node_channel \<times> 'd io_runner option) res" where
  "node_channel_create fd d io =
     rbind (channel_create fd d io) (\<lambda>(ch, io1).
       Inr (\<lparr>nc_channel = Some ch, nc_remote_node_name = kInvalidName\<rparr>, io1))"

definition nc_start :: "node_channel \<Rightarrow> 'd io_runner option \<Rightarrow> 'd io_runner option res" where
  "nc_start nc io = (case nc_channel nc of None \<Rightarrow> Inr io | Some ch \<Rightarrow> channel_start ch io)"

definition nc_shutdown :: "node_channel \<Rightarrow> node_channel" where
  "nc_shutdown nc = (case nc_channel nc of None \<Rightarrow> nc | Some ch \<Rightarrow> nc\<lparr>nc_channel := None\<rparr>)"

text \<open>The node channel owns its channel, and destroys it with itself.\<close>

definition node_channel_destroy :: "node_channel \<Rightarrow> unit res" where
  "node_channel_destroy nc = (case nc_channel nc of None \<Rightarrow> Inr () | Some ch \<Rightarrow> channel_destroy ch)"

definition set_remote_node_name :: "node_name \<Rightarrow> node_channel \<Rightarrow> node_channel" where
  "set_remote_node_name nm nc = nc\<lparr>nc_remote_node_name := nm\<rparr>"

definition write_channel_message :: "protocol \<Rightarrow> node_channel \<Rightarrow> node_channel" where
  "write_channel_message p nc =
     (case nc_channel nc of None \<Rightarrow> nc | Some ch \<Rightarrow> nc\<lparr>nc_channel := Some (channel_write p ch)\<rparr>)"

definition send_channel_message :: "protocol \<Rightarrow> node_channel \<Rightarrow> node_channel" where
  "send_channel_message p nc = write_channel_message p nc"

text \<open>The message is serialized into the content of a protocol of its type.\<close>

definition protocol_of :: "(nat \<Rightarrow> nat \<Rightarrow> byte) \<Rightarrow> message \<Rightarrow> protocol res" where
  "protocol_of fresh m = rbind (serialize_message fresh m) (\<lambda>str. Inr (protocol_create (message_type m) str))"

definition send_message :: "(nat \<Rightarrow> nat \<Rightarrow> byte) \<Rightarrow> message \<Rightarrow> node_channel \<Rightarrow> node_channel res" where
  "send_message fresh m nc = rbind (protocol_of fresh m) (\<lambda>p. Inr (send_channel_message p nc))"

definition nc_accept_invitee :: "(nat \<Rightarrow> nat \<Rightarrow> byte) \<Rightarrow> node_name \<Rightarrow> node_name \<Rightarrow> node_channel \<Rightarrow> node_channel res" where
  "nc_accept_invitee fresh inviter_name token nc = send_message fresh (AcceptInvitee token inviter_name) nc"

definition nc_accept_invitation :: "(nat \<Rightarrow> nat \<Rightarrow> byte) \<Rightarrow> node_name \<Rightarrow> node_name \<Rightarrow> node_channel \<Rightarrow> node_channel res" where
  "nc_accept_invitation fresh token invitee_name nc = send_message fresh (AcceptInvitation token invitee_name) nc"

definition nc_accept_peer :: "(nat \<Rightarrow> nat \<Rightarrow> byte) \<Rightarrow> node_name \<Rightarrow> node_name \<Rightarrow> port_name \<Rightarrow> node_channel \<Rightarrow> node_channel res" where
  "nc_accept_peer fresh sender_name token port_nm nc = send_message fresh (AcceptPeer token sender_name port_nm) nc"

definition nc_request_port_merge :: "(nat \<Rightarrow> nat \<Rightarrow> byte) \<Rightarrow> port_name \<Rightarrow> bytes \<Rightarrow> node_channel \<Rightarrow> node_channel res" where
  "nc_request_port_merge fresh connector pipe_name nc = send_message fresh (RequestPortMerge connector pipe_name) nc"

definition nc_response_port_merge :: "(nat \<Rightarrow> nat \<Rightarrow> byte) \<Rightarrow> port_name \<Rightarrow> port_name \<Rightarrow> node_channel \<Rightarrow> node_channel res" where
  "nc_response_port_merge fresh connector port_nm nc = send_message fresh (ResponsePortMerge connector port_nm) nc"

text \<open>
  \<^verbatim>\<open>OnChannelMessage\<close>. After the switch the code logs \<^verbatim>\<open>message->msg_type()\<close> of a pointer it never
  set, before it would report the channel error.
\<close>

definition on_channel_message ::
  "(nat \<Rightarrow> nat \<Rightarrow> byte) \<Rightarrow> 's nc_delegate \<Rightarrow> node_name \<Rightarrow> protocol \<Rightarrow> 's \<Rightarrow> 's res" where
  "on_channel_message fresh delegate remote p s =
     (if p_type p = msg_code kAcceptInvitation
      then rbind (deserialize fresh (p_data p) read_accept_invitation) (\<lambda>(token, invitee).
             OnAcceptInvitation delegate remote token invitee s)
      else if p_type p = msg_code kAcceptInvitee
      then rbind (deserialize fresh (p_data p) read_accept_invitee) (\<lambda>(token, inviter).
             OnAcceptInvitee delegate remote inviter token s)
      else if p_type p = msg_code kRequestPortMerge
      then rbind (deserialize fresh (p_data p) read_request_port_merge) (\<lambda>(connector, pipe_name).
             OnRequestPortMerge delegate remote connector pipe_name s)
      else if p_type p = msg_code kResponsePortMerge
      then rbind (deserialize fresh (p_data p) read_response_port_merge) (\<lambda>(connector, port_nm).
             OnResponsePortMerge delegate remote connector port_nm s)
      else if p_type p = msg_code kUserMessage
      then rbind (deserialize fresh (p_data p) read_user_message) (\<lambda>m.
             OnUserMessage delegate remote m s)
      else Inl NullDeref)"

text \<open>\<^verbatim>\<open>OnChannelError\<close> shuts the channel down and reports; \<open>upd\<close> stores the node channel.\<close>

definition on_channel_error :: "'s nc_delegate \<Rightarrow> (node_channel \<Rightarrow> 's \<Rightarrow> 's) \<Rightarrow> node_channel \<Rightarrow> 's \<Rightarrow> 's res" where
  "on_channel_error delegate upd nc s = OnNodeChannelError delegate (nc_remote_node_name nc) (upd (nc_shutdown nc) s)"

section \<open>Sending\<close>

text \<open>\<^verbatim>\<open>Send\<close> takes everything: the socket's next calls accept the whole of each message.\<close>

lemma flush_all:
  "flush fresh ps (map (\<lambda>p. TOk (length (protocol_bytes p))) ps @ q) = Some (Inr (concat (map protocol_bytes ps), q))"
  by (induction ps) (simp_all add: serialize_protocol_bytes sock_send_def)

text \<open>Whatever happens, each message contributes a prefix of its bytes and none is kept.\<close>

lemma flush_prefixes:
  assumes "flush fresh ps q = Some (Inr (out, q'))"
  shows "\<exists>ks. length ks = length ps \<and> out = concat (map2 (\<lambda>k p. take k (protocol_bytes p)) ks ps)"
  using assms
proof (induction ps arbitrary: q out)
  case (Cons p ps)
  then obtain r o1 q1 o2 where send: "sock_send q (protocol_bytes p) = Some (r, o1, q1)"
    and rest: "flush fresh ps q1 = Some (Inr (o2, q'))" and out: "out = o1 @ o2"
    by (auto simp: serialize_protocol_bytes split: option.splits sum.splits)
  obtain k where k: "o1 = take k (protocol_bytes p)"
    using send_loop_outcome [of q "length (protocol_bytes p)" "[]" "protocol_bytes p" r o1 q1] send
    by (auto simp: sock_send_def)
  obtain ks where "length ks = length ps" "o2 = concat (map2 (\<lambda>k p. take k (protocol_bytes p)) ks ps)"
    using Cons.IH [OF rest] by blast
  with k out show ?case by (intro exI [of _ "k # ks"]) simp
qed simp

section \<open>Receiving\<close>

lemma read_fix_buf_whole:
  assumes "delivers q" and "rx_bytes q = bs" and "bs \<noteq> []" and "length bs < 2 ^ 16"
  obtains rest where "read_fix_buf junk (of_nat (length bs)) (q @ q') = Some (bs, rest @ q')"
    and "rx_bytes rest = []" and "delivers rest"
proof -
  have n: "unat (of_nat (length bs) :: u16) = length bs" using assms(4) by (simp add: unat_of_nat_small)
  obtain rest where "recvn_loop (q @ q') (length bs) [] = Some (int (length bs), bs, rest @ q')"
    "rx_bytes rest = []" "delivers rest"
    using recvn_loop_complete [OF assms(1), of "[]" "length bs" q'] assms(2,3) by auto
  then show thesis using that n by (simp add: read_fix_buf_def sock_recvn_def)
qed

lemma rx_bytes_append [simp]: "rx_bytes (q @ q') = rx_bytes q @ rx_bytes q'"
  by (induction q rule: rx_bytes.induct) simp_all

lemma delivers_append [simp]: "delivers (q @ q') \<longleftrightarrow> delivers q \<and> delivers q'"
  by (induction q rule: delivers.induct) auto

text \<open>A message read from a stream that delivers its header and then its body.\<close>

lemma read_protocol_whole:
  assumes "delivers qh" and "delivers qb" and "rx_bytes qh = take kBaseLen (protocol_bytes p)"
    and "rx_bytes qb = p_data p" and "p_data p \<noteq> []" and "length (p_data p) < 2 ^ 16"
  shows "\<exists>rest. read_protocol fresh junk (qh @ qb @ q') =
      Some (Inr (p\<lparr>p_content_length := of_nat (length (p_data p))\<rparr>, rest @ q'))
    \<and> rx_bytes rest = [] \<and> delivers rest"
proof -
  let ?n = "of_nat (length (p_data p)) :: u32"
  let ?hd = "take kBaseLen (protocol_bytes p)"
  have hd: "?hd = ([p_magic p, p_version p, p_type p] @ le_enc 4 ?n) @ le_enc 4 ?n" and hlen: "length ?hd = kBaseLen"
    by (simp_all add: protocol_bytes_def meta_bytes_def str32_def kBaseLen_def)
  have ne: "?hd \<noteq> []" by (simp only: hd) simp
  obtain r1 where r1: "read_fix_buf junk (of_nat kBaseLen) (qh @ qb @ q') = Some (?hd, r1 @ qb @ q')"
    "rx_bytes r1 = []" "delivers r1"
    by (rule read_fix_buf_whole [OF assms(1,3) ne, where q' = "qb @ q'" and junk = junk, unfolded hlen])
       (simp_all add: hd kBaseLen_def)
  have dec: "deserialize_protocol fresh ?hd = Inr (p\<lparr>p_content_length := ?n, p_data := []\<rparr>)"
    using deserialize_short [OF yields_decode_meta [of protocol_default "p_magic p" "p_version p" "p_type p" ?n], of "le_enc 4 ?n" fresh]
    by (simp add: hd deserialize_protocol_def protocol_decode_def [abs_def] protocol_default_def)
  have "(ucast ?n :: u16) = of_nat (length (p_data p))"
    using assms(6) by (simp add: word_unat_eq_iff unsigned_ucast_eq unsigned_of_nat take_bit_nat_eq_self)
  then obtain r2 where r2: "read_body junk ?n ((r1 @ qb) @ q') = Some (p_data p, r2 @ q')" "rx_bytes r2 = []" "delivers r2"
    using read_fix_buf_whole [of "r1 @ qb" "p_data p" junk q'] assms r1 by (auto simp: read_body_def)
  show ?thesis
    using r1 r2 dec by (intro exI [of _ r2]) (simp add: read_protocol_def read_header_def)
qed

text \<open>Reading several messages.\<close>

fun read_many :: "(nat \<Rightarrow> nat \<Rightarrow> byte) \<Rightarrow> (nat \<Rightarrow> byte) \<Rightarrow> nat \<Rightarrow> rx list \<Rightarrow> (protocol list \<times> rx list) res option" where
  "read_many fresh junk 0 q = Some (Inr ([], q))"
| "read_many fresh junk (Suc n) q =
     (case read_protocol fresh junk q of
        None \<Rightarrow> None
      | Some (Inl f) \<Rightarrow> Some (Inl f)
      | Some (Inr (p, q1)) \<Rightarrow>
          (case read_many fresh junk n q1 of
             None \<Rightarrow> None
           | Some (Inl f) \<Rightarrow> Some (Inl f)
           | Some (Inr (ps, q2)) \<Rightarrow> Some (Inr (p # ps, q2))))"

text \<open>
  The pieces in which a message arrives: \<^verbatim>\<open>recv\<close> is never asked for more than the rest of the header
  or of the body, so no piece crosses from one to the other.
\<close>

definition arrives :: "rx list \<times> rx list \<Rightarrow> protocol \<Rightarrow> bool" where
  "arrives = (\<lambda>(qh, qb) p. delivers qh \<and> delivers qb
     \<and> rx_bytes qh = take kBaseLen (protocol_bytes p) \<and> rx_bytes qb = drop kBaseLen (protocol_bytes p))"

definition sendable :: "protocol \<Rightarrow> bool" where
  "sendable p \<longleftrightarrow> p_data p \<noteq> [] \<and> length (p_data p) < 2 ^ 16"

text \<open>A message as the receiver has it: the content length is set when the header is read.\<close>

definition arrived :: "protocol \<Rightarrow> protocol" where
  "arrived p = p\<lparr>p_content_length := of_nat (length (p_data p))\<rparr>"

lemma read_many_whole:
  assumes "list_all2 arrives qs ps" and "list_all sendable ps" and "rx_bytes r = []" and "delivers r"
  shows "\<exists>rest. read_many fresh junk (length ps) (r @ concat (map (\<lambda>(qh, qb). qh @ qb) qs) @ q') = Some (Inr (map arrived ps, rest @ q'))"
  using assms
proof (induction ps arbitrary: qs r rule: list.induct)
  case Nil
  then show ?case by (auto intro: exI [of _ r])
next
  case (Cons p ps)
  obtain qh qb qs' where qs: "qs = (qh, qb) # qs'" "arrives (qh, qb) p" "list_all2 arrives qs' ps"
    using Cons.prems(1) by (auto simp: list_all2_Cons2)
  have drop: "drop kBaseLen (protocol_bytes p) = p_data p"
    by (simp add: protocol_bytes_def meta_bytes_def str32_def kBaseLen_def)
  let ?more = "concat (map (\<lambda>(qh, qb). qh @ qb) qs')"
  obtain rest where rest: "read_protocol fresh junk ((r @ qh) @ qb @ ?more @ q') = Some (Inr (arrived p, rest @ ?more @ q'))"
    "rx_bytes rest = []" "delivers rest"
    using read_protocol_whole [of "r @ qh" qb p fresh junk "?more @ q'"] qs(2) Cons.prems(2-4)
    by (auto simp: arrives_def drop sendable_def arrived_def)
  obtain rest' where "read_many fresh junk (length ps) (rest @ ?more @ q') = Some (Inr (map arrived ps, rest' @ q'))"
    using Cons.IH [OF qs(3) _ rest(2,3)] Cons.prems(2) by auto
  with rest(1) show ?case by (simp add: qs(1))
qed

section \<open>Dispatching\<close>

text \<open>
  The handler of the delegate that each class of message has. \<^verbatim>\<open>AcceptPeer\<close> has none: the switch of
  \<^verbatim>\<open>OnChannelMessage\<close> has no case for it, so that its receiver goes on to the log statement.
\<close>

fun handler_call :: "'s nc_delegate \<Rightarrow> node_name \<Rightarrow> message \<Rightarrow> ('s \<Rightarrow> 's res) option" where
  "handler_call d remote (AcceptInvitee token inviter) = Some (OnAcceptInvitee d remote inviter token)"
| "handler_call d remote (AcceptInvitation token invitee) = Some (OnAcceptInvitation d remote token invitee)"
| "handler_call d remote (RequestPortMerge connector nm) = Some (OnRequestPortMerge d remote connector nm)"
| "handler_call d remote (ResponsePortMerge connector pn) = Some (OnResponsePortMerge d remote connector pn)"
| "handler_call d remote (UserMessage m) = Some (OnUserMessage d remote m)"
| "handler_call d remote (AcceptPeer token peer pn) = None"

text \<open>What becomes of a message: its handler is called, or the process crashes on the null pointer that is logged.\<close>

definition delivery :: "'s nc_delegate \<Rightarrow> node_name \<Rightarrow> message \<Rightarrow> 's \<Rightarrow> 's res" where
  "delivery d remote m s = (case handler_call d remote m of None \<Rightarrow> Inl NullDeref | Some h \<Rightarrow> h s)"

lemma delivery_simps [simp]:
  "delivery d remote (AcceptInvitee token inviter) s = OnAcceptInvitee d remote inviter token s"
  "delivery d remote (AcceptInvitation token invitee) s = OnAcceptInvitation d remote token invitee s"
  "delivery d remote (RequestPortMerge connector nm) s = OnRequestPortMerge d remote connector nm s"
  "delivery d remote (ResponsePortMerge connector pn) s = OnResponsePortMerge d remote connector pn s"
  "delivery d remote (UserMessage u) s = OnUserMessage d remote u s"
  "delivery d remote (AcceptPeer token peer pn) s = Inl NullDeref"
  by (simp_all add: delivery_def)

lemma deserialize_whole: "yields rd e x \<Longrightarrow> length e < 128 \<Longrightarrow> deserialize fresh e rd = Inr x"
  using deserialize_short [of rd e x "[]" fresh] by simp

lemma on_channel_message_delivers:
  assumes "length (message_bytes m) < 128" and "p_type p = msg_code (message_type m)" and "p_data p = message_bytes m"
  shows "on_channel_message fresh d remote p s = delivery d remote m s"
proof (cases m)
  case (AcceptInvitee t n)
  then have "deserialize fresh (p_data p) read_accept_invitee = Inr (t, n)"
    using assms deserialize_whole [OF yields_bodies(1)] by simp
  then show ?thesis using AcceptInvitee assms(2) by (simp add: on_channel_message_def)
next
  case (AcceptInvitation t n)
  then have "deserialize fresh (p_data p) read_accept_invitation = Inr (t, n)"
    using assms deserialize_whole [OF yields_bodies(2)] by simp
  then show ?thesis using AcceptInvitation assms(2) by (simp add: on_channel_message_def)
next
  case (RequestPortMerge c n)
  then have "deserialize fresh (p_data p) read_request_port_merge = Inr (c, n)"
    using assms deserialize_whole [OF yields_request_port_merge] by simp
  then show ?thesis using RequestPortMerge assms(2) by (simp add: on_channel_message_def)
next
  case (ResponsePortMerge c n)
  then have "deserialize fresh (p_data p) read_response_port_merge = Inr (c, n)"
    using assms deserialize_whole [OF yields_bodies(3)] by simp
  then show ?thesis using ResponsePortMerge assms(2) by (simp add: on_channel_message_def)
next
  case (UserMessage u)
  then have "deserialize fresh (p_data p) read_user_message = Inr u"
    using assms deserialize_whole [OF yields_user_message] by simp
  then show ?thesis using UserMessage assms(2) by (simp add: on_channel_message_def)
qed (use assms(2) in \<open>simp add: on_channel_message_def\<close>)

text \<open>
  The contract between a node channel and its delegate: an invariant of the delegate's state that
  each of its handlers keeps is kept by every message that arrives, well-formed or not.
\<close>

locale delegate_inv =
  fixes d :: "'s nc_delegate" and inv :: "'s \<Rightarrow> bool"
  assumes keeps_invitee: "inv s \<Longrightarrow> OnAcceptInvitee d fn a b s = Inr s' \<Longrightarrow> inv s'"
    and keeps_invitation: "inv s \<Longrightarrow> OnAcceptInvitation d fn a b s = Inr s' \<Longrightarrow> inv s'"
    and keeps_request: "inv s \<Longrightarrow> OnRequestPortMerge d fn a nm s = Inr s' \<Longrightarrow> inv s'"
    and keeps_response: "inv s \<Longrightarrow> OnResponsePortMerge d fn a b s = Inr s' \<Longrightarrow> inv s'"
    and keeps_user: "inv s \<Longrightarrow> OnUserMessage d fn m s = Inr s' \<Longrightarrow> inv s'"
begin

lemma keeps_delivery: "inv s \<Longrightarrow> delivery d fn m s = Inr s' \<Longrightarrow> inv s'"
  by (cases m) (auto intro: keeps_invitee keeps_invitation keeps_request keeps_response keeps_user)

lemma keeps_message: "inv s \<Longrightarrow> on_channel_message fresh d fn p s = Inr s' \<Longrightarrow> inv s'"
  by (auto simp: on_channel_message_def rbind_eq_Inr_iff split: if_splits
      intro: keeps_invitee keeps_invitation keeps_request keeps_response keeps_user)

end

text \<open>What sending a message on an open node channel adds to its queue.\<close>

lemma protocol_of_eq: "protocol_of fresh m = Inr (protocol_create (message_type m) (message_bytes m))"
  by (simp add: protocol_of_def serialize_message_bytes)

lemma send_message_eq:
  "send_message fresh m nc = Inr (write_channel_message (protocol_create (message_type m) (message_bytes m)) nc)"
  by (simp add: send_message_def protocol_of_eq send_channel_message_def)

section \<open>Properties\<close>

text \<open>
  C12: When the socket accepts what it is given, everything queued goes out in order, whole, and a
  receiver that gets those bytes in any pieces, interrupted any number of times, reads exactly the
  messages sent, in order, each with its content length set.
\<close>

theorem wire_transfers_messages:
  assumes "list_all sendable (ch_writing_protocol ch)"
    and "q = map (\<lambda>p. TOk (length (protocol_bytes p))) (ch_writing_protocol ch)"
    and "list_all2 arrives qs (ch_writing_protocol ch)"
  shows "on_fd_writeable fresh ch q = Some (Inr (ch\<lparr>ch_writing_protocol := []\<rparr>,
      concat (map protocol_bytes (ch_writing_protocol ch)), []))
    \<and> rx_bytes (concat (map (\<lambda>(qh, qb). qh @ qb) qs)) = concat (map protocol_bytes (ch_writing_protocol ch))
    \<and> (\<exists>rest. read_many fresh' junk (length (ch_writing_protocol ch)) (concat (map (\<lambda>(qh, qb). qh @ qb) qs))
        = Some (Inr (map arrived (ch_writing_protocol ch), rest)))"
proof (intro conjI)
  show "on_fd_writeable fresh ch q = Some (Inr (ch\<lparr>ch_writing_protocol := []\<rparr>,
      concat (map protocol_bytes (ch_writing_protocol ch)), []))"
    using flush_all [of fresh "ch_writing_protocol ch" "[]"] assms(2) by (simp add: on_fd_writeable_def)
  show "rx_bytes (concat (map (\<lambda>(qh, qb). qh @ qb) qs)) = concat (map protocol_bytes (ch_writing_protocol ch))"
    using assms(3) by (induction rule: list_all2_induct) (auto simp: arrives_def)
  show "\<exists>rest. read_many fresh' junk (length (ch_writing_protocol ch)) (concat (map (\<lambda>(qh, qb). qh @ qb) qs))
        = Some (Inr (map arrived (ch_writing_protocol ch), rest))"
    using read_many_whole [OF assms(3,1), of "[]" fresh' junk "[]"] by simp
qed

theorem wire_transfers_messages_witness:
  "\<exists>rest. read_many (\<lambda>_ _. 0) (\<lambda>_. 7) 1
      [RData [0xcc, 1], RErr EINTR, RData [5, 2, 0, 0, 0, 2, 0, 0, 0], RData [104], RData [105]]
    = Some (Inr ([\<lparr>p_magic = 0xcc, p_version = 1, p_type = 5, p_content_length = 2, p_data = [104, 105]\<rparr>], rest))"
proof -
  let ?p = "\<lparr>p_magic = 0xcc, p_version = 1, p_type = 5, p_content_length = 2, p_data = [104, 105 :: byte]\<rparr>"
  have bytes: "protocol_bytes ?p = [0xcc, 1, 5, 2, 0, 0, 0, 2, 0, 0, 0, 104, 105]"
    by code_simp
  have "arrives ([RData [0xcc, 1], RErr EINTR, RData [5, 2, 0, 0, 0, 2, 0, 0, 0]], [RData [104], RData [105]]) ?p"
    by (simp add: arrives_def bytes kBaseLen_def)
  then show ?thesis
    using wire_transfers_messages [of "(channel_new 3)\<lparr>ch_writing_protocol := [?p]\<rparr>"
        "map (\<lambda>p. TOk (length (protocol_bytes p))) [?p]"
        "[([RData [0xcc, 1], RErr EINTR, RData [5, 2, 0, 0, 0, 2, 0, 0, 0]], [RData [104], RData [105]])]"
        "\<lambda>_ _. 0" "\<lambda>_ _. 0" "\<lambda>_. 7"]
    by (simp add: sendable_def arrived_def)
qed

text \<open>
  C34: Writing never keeps a message for later: whatever the socket does, the queue is empty afterwards
  and of each message only a prefix has gone out; one refused with \<^verbatim>\<open>EAGAIN\<close> is lost.
\<close>

theorem writeable_drops_unsent:
  "(\<forall>ch' out q'. on_fd_writeable fresh ch q = Some (Inr (ch', out, q')) \<longrightarrow>
      ch_writing_protocol ch' = []
      \<and> (\<exists>ks. length ks = length (ch_writing_protocol ch)
           \<and> out = concat (map2 (\<lambda>k p. take k (protocol_bytes p)) ks (ch_writing_protocol ch))))
   \<and> on_fd_writeable fresh (ch\<lparr>ch_writing_protocol := [p]\<rparr>) [TErr EAGAIN]
      = Some (Inr (ch\<lparr>ch_writing_protocol := []\<rparr>, [], []))"
proof (intro conjI allI impI)
  fix ch' out q'
  assume w: "on_fd_writeable fresh ch q = Some (Inr (ch', out, q'))"
  show "ch_writing_protocol ch' = []"
    using w by (auto simp: on_fd_writeable_def split: option.splits sum.splits)
  show "\<exists>ks. length ks = length (ch_writing_protocol ch)
      \<and> out = concat (map2 (\<lambda>k p. take k (protocol_bytes p)) ks (ch_writing_protocol ch))"
    by (rule flush_prefixes [of fresh _ q out q'])
       (use w in \<open>auto simp: on_fd_writeable_def split: option.splits sum.splits\<close>)
next
  have "protocol_bytes p \<noteq> []" by (simp add: protocol_bytes_def meta_bytes_def)
  then show "on_fd_writeable fresh (ch\<lparr>ch_writing_protocol := [p]\<rparr>) [TErr EAGAIN]
      = Some (Inr (ch\<lparr>ch_writing_protocol := []\<rparr>, [], []))"
    by (simp add: on_fd_writeable_def serialize_protocol_bytes sock_send_def)
qed

theorem writeable_drops_unsent_witness:
  "on_fd_writeable (\<lambda>_ _. 0) ((channel_new 3)\<lparr>ch_writing_protocol := [protocol_default]\<rparr>) [TErr EAGAIN]
     = Some (Inr ((channel_new 3)\<lparr>ch_writing_protocol := []\<rparr>, [], []))"
  using writeable_drops_unsent [of "\<lambda>_ _. 0" "channel_new 3" "[]" protocol_default] by blast

text \<open>
  C21: A message shorter than 128 bytes, sent on a node channel and received by another, calls the handler of its
  class on the delegate, once, with the fields sent and the remote name, for the five classes that have a
  handler. \<^verbatim>\<open>AcceptPeer\<close> has none, though it can be sent: its receiver calls nothing and crashes on a null pointer
  where it would report the error.
\<close>

theorem message_reaches_handler:
  assumes "length (message_bytes m) < 128"
  shows "\<exists>p. protocol_of fresh m = Inr p \<and> p_magic p = kMagic
    \<and> on_channel_message fresh' d remote (p\<lparr>p_content_length := len\<rparr>) s =
        (case m of
           AcceptInvitee token inviter \<Rightarrow> OnAcceptInvitee d remote inviter token s
         | AcceptInvitation token invitee \<Rightarrow> OnAcceptInvitation d remote token invitee s
         | RequestPortMerge connector nm \<Rightarrow> OnRequestPortMerge d remote connector nm s
         | ResponsePortMerge connector pn \<Rightarrow> OnResponsePortMerge d remote connector pn s
         | UserMessage u \<Rightarrow> OnUserMessage d remote u s
         | AcceptPeer token peer pn \<Rightarrow> Inl NullDeref)"
  using on_channel_message_delivers [OF assms, of "protocol_create (message_type m) (message_bytes m)\<lparr>p_content_length := len\<rparr>" fresh' d remote s]
  by (simp add: protocol_of_eq protocol_create_def protocol_default_def split: message.split)

theorem message_reaches_handler_witness:
  "(\<exists>p. protocol_of (\<lambda>_ _. 0) (RequestPortMerge (Name 1 2) [104]) = Inr p
     \<and> on_channel_message (\<lambda>_ _. 0) \<lparr>OnAcceptInvitee = \<lambda>_ _ _. Inr, OnAcceptInvitation = \<lambda>_ _ _. Inr,
          OnRequestPortMerge = \<lambda>_ c nm n. Inr (c, nm), OnResponsePortMerge = \<lambda>_ _ _. Inr,
          OnUserMessage = \<lambda>_ _. Inr, OnNodeChannelError = \<lambda>_. Inr\<rparr>
          (Name 3 4) (p\<lparr>p_content_length := 25\<rparr>) (Name 0 0, [])
        = Inr (Name 1 2, [104]))
   \<and> (\<exists>p. protocol_of (\<lambda>_ _. 0) (AcceptPeer (Name 1 2) (Name 3 4) (Name 5 6)) = Inr p
     \<and> on_channel_message (\<lambda>_ _. 0) \<lparr>OnAcceptInvitee = \<lambda>_ _ _. Inr, OnAcceptInvitation = \<lambda>_ _ _. Inr,
          OnRequestPortMerge = \<lambda>_ _ _. Inr, OnResponsePortMerge = \<lambda>_ _ _. Inr,
          OnUserMessage = \<lambda>_ _. Inr, OnNodeChannelError = \<lambda>_. Inr\<rparr>
          (Name 3 4) (p\<lparr>p_content_length := 48\<rparr>) (0 :: nat) = Inl NullDeref)"
  using message_reaches_handler [of "AcceptPeer (Name 1 2) (Name 3 4) (Name 5 6)" "\<lambda>_ _. 0" "\<lambda>_ _. 0"
    "\<lparr>OnAcceptInvitee = \<lambda>_ _ _. Inr, OnAcceptInvitation = \<lambda>_ _ _. Inr,
      OnRequestPortMerge = \<lambda>_ _ _. Inr, OnResponsePortMerge = \<lambda>_ _ _. Inr,
      OnUserMessage = \<lambda>_ _. Inr, OnNodeChannelError = \<lambda>_. Inr\<rparr>" "Name 3 4" 48 "0 :: nat"]
    message_reaches_handler [of "RequestPortMerge (Name 1 2) [104]" "\<lambda>_ _. 0" "\<lambda>_ _. 0"
    "\<lparr>OnAcceptInvitee = \<lambda>_ _ _. Inr, OnAcceptInvitation = \<lambda>_ _ _. Inr,
      OnRequestPortMerge = \<lambda>_ c nm n. Inr (c, nm), OnResponsePortMerge = \<lambda>_ _ _. Inr,
      OnUserMessage = \<lambda>_ _. Inr, OnNodeChannelError = \<lambda>_. Inr\<rparr>" "Name 3 4" 25 "(Name 0 0, [])"]
  by (auto simp: name_bytes_def)

text \<open>
  A message of any type without a handler dereferences a null pointer instead of reporting a
  channel error; the \<^verbatim>\<open>AcceptPeer\<close> message, which a node channel can send, is one, so that sending it
  crashes the receiver.
\<close>

lemma unknown_type_crashes:
  assumes "nc_channel nc = Some ch"
  shows "\<exists>p. nc_accept_peer fresh sender token pn nc =
        Inr (nc\<lparr>nc_channel := Some (ch\<lparr>ch_writing_protocol := ch_writing_protocol ch @ [p]\<rparr>)\<rparr>)
      \<and> on_channel_message fresh' d remote (arrived p) s = Inl NullDeref
      \<and> (\<forall>p'. p_type p' \<notin> {msg_code kAcceptInvitation, msg_code kAcceptInvitee, msg_code kRequestPortMerge,
            msg_code kResponsePortMerge, msg_code kUserMessage}
          \<longrightarrow> on_channel_message fresh' d remote p' s = Inl NullDeref)"
proof (intro exI [of _ "protocol_create kAcceptPeer (message_bytes (AcceptPeer token sender pn))"] conjI allI impI)
  show "nc_accept_peer fresh sender token pn nc = Inr (nc\<lparr>nc_channel := Some (ch\<lparr>ch_writing_protocol :=
      ch_writing_protocol ch @ [protocol_create kAcceptPeer (message_bytes (AcceptPeer token sender pn))]\<rparr>)\<rparr>)"
    using assms by (simp add: nc_accept_peer_def send_message_eq write_channel_message_def channel_write_def)
qed (auto simp: on_channel_message_def arrived_def protocol_create_def)

end
