(* ===== verification/Node_Controller.thy ===== *)
theory Node_Controller
  imports Ports_Node_Spec Channel
begin

text \<open>
  \<^verbatim>\<open>src/core/node_controller.cc\<close>: the hub of a process. It owns the port node and the node channels,
  carries out the invitation handshake and the merging of ports, and forwards user messages. Node
  channels are shared objects, kept in a store (\<open>ct_channels\<close>) and named by their index; the io task
  runner is the process's and is \<open>None\<close> until it is set. The tables hold node channels by
  \<^verbatim>\<open>std::shared_ptr\<close>: where an operation gives up a reference, \<open>release_channel\<close> destroys the channel if it
  was the last one. \<open>fresh\<close> is the contents of new memory.
\<close>

record controller =
  ct_name :: node_name
  ct_node :: ports_node
  ct_io_task_runner :: "nat io_runner option"
  ct_inviter_name :: node_name
  ct_inviter_channel :: "nat option"
  ct_peers :: "node_name \<rightharpoonup> nat"
  ct_pending_peer_messages :: "node_name \<rightharpoonup> protocol list"
  ct_reserved_ports :: "(node_name, (bytes, port_ref) omap) omap"
  ct_pending_port_merges :: "(bytes \<times> port_ref) list"
  ct_pending_invitations :: "node_name \<rightharpoonup> nat"
  ct_channels :: "node_channel list"

definition controller_new :: "(nat \<Rightarrow> nat \<Rightarrow> name) \<Rightarrow> controller" where
  "controller_new src =
     (let (nm, g) = generate_random_name (rng_new src)
      in \<lparr>ct_name = nm, ct_node = node_new nm g, ct_io_task_runner = None,
          ct_inviter_name = kInvalidName, ct_inviter_channel = None, ct_peers = (\<lambda>_. None),
          ct_pending_peer_messages = (\<lambda>_. None), ct_reserved_ports = [], ct_pending_port_merges = [],
          ct_pending_invitations = (\<lambda>_. None), ct_channels = []\<rparr>)"

definition set_io_task_runner :: "nat io_runner option \<Rightarrow> controller \<Rightarrow> controller" where
  "set_io_task_runner io ct = ct\<lparr>ct_io_task_runner := io\<rparr>"

section \<open>Channels of the controller\<close>

definition deref_channel :: "nat option \<Rightarrow> controller \<Rightarrow> node_channel res" where
  "deref_channel c ct =
     (case c of None \<Rightarrow> Inl NullDeref
      | Some i \<Rightarrow> if i < length (ct_channels ct) then Inr (ct_channels ct ! i) else Inl NullDeref)"

text \<open>A call of a method that changes the node channel.\<close>

definition with_channel :: "nat option \<Rightarrow> (node_channel \<Rightarrow> node_channel res) \<Rightarrow> controller \<Rightarrow> controller res" where
  "with_channel c f ct =
     rbind (deref_channel c ct) (\<lambda>nc. rbind (f nc) (\<lambda>nc1.
       Inr (ct\<lparr>ct_channels := (ct_channels ct)[the c := nc1]\<rparr>)))"

definition start_channel_of :: "nat option \<Rightarrow> controller \<Rightarrow> controller res" where
  "start_channel_of c ct =
     rbind (deref_channel c ct) (\<lambda>nc. rbind (nc_start nc (ct_io_task_runner ct)) (\<lambda>io.
       Inr (ct\<lparr>ct_io_task_runner := io\<rparr>)))"

definition create_channel :: "int \<Rightarrow> controller \<Rightarrow> (nat \<times> controller) res" where
  "create_channel fd ct =
     (let i = length (ct_channels ct) in
      rbind (node_channel_create fd i (ct_io_task_runner ct)) (\<lambda>(nc, io).
        Inr (i, ct\<lparr>ct_channels := ct_channels ct @ [nc], ct_io_task_runner := io\<rparr>)))"

definition get_peer_channel :: "node_name \<Rightarrow> controller \<Rightarrow> nat option" where
  "get_peer_channel nm ct = ct_peers ct nm"

definition get_inviter_channel :: "controller \<Rightarrow> nat option" where
  "get_inviter_channel ct = get_peer_channel (ct_inviter_name ct) ct"

section \<open>The life time of a channel\<close>

text \<open>
  The shared pointers to a node channel that the controller keeps: \<^verbatim>\<open>inviter_channel_\<close> and the values of
  \<^verbatim>\<open>peers_\<close> and \<^verbatim>\<open>pending_invitations_\<close>. A local pointer to it counts until the end of its scope, which
  is where \<open>release_channel\<close> stands.
\<close>

definition referenced :: "nat \<Rightarrow> controller \<Rightarrow> bool" where
  "referenced c ct \<longleftrightarrow>
     ct_inviter_channel ct = Some c \<or> c \<in> ran (ct_peers ct) \<or> c \<in> ran (ct_pending_invitations ct)"

definition release_channel :: "nat option \<Rightarrow> controller \<Rightarrow> controller res" where
  "release_channel r ct =
     (case r of None \<Rightarrow> Inr ct
      | Some c \<Rightarrow> if referenced c ct then Inr ct
                  else rbind (node_channel_destroy (ct_channels ct ! c)) (\<lambda>_. Inr ct))"

section \<open>Sending\<close>

definition send_peer_event :: "(nat \<Rightarrow> nat \<Rightarrow> byte) \<Rightarrow> node_name \<Rightarrow> event \<Rightarrow> controller \<Rightarrow> controller res" where
  "send_peer_event fresh node_nm e ct =
     (case ev_message e of
        None \<Rightarrow> Inr ct
      | Some m \<Rightarrow>
          rbind (protocol_of fresh m) (\<lambda>p.
            case get_peer_channel node_nm ct of
              Some c \<Rightarrow> with_channel (Some c) (\<lambda>nc. Inr (send_channel_message p nc)) ct
            | None \<Rightarrow>
                (case ct_peers ct node_nm of
                   None \<Rightarrow>
                     (let (queue, queues) = um_index [] node_nm (ct_pending_peer_messages ct)
                      in Inr (ct\<lparr>ct_pending_peer_messages := queues(node_nm \<mapsto> queue @ [p])\<rparr>))
                 | Some c \<Rightarrow> with_channel (Some c) (\<lambda>nc. Inr (send_channel_message p nc)) ct)))"

text \<open>The branch for the own node is empty.\<close>

definition forward_event :: "(nat \<Rightarrow> nat \<Rightarrow> byte) \<Rightarrow> node_name \<Rightarrow> event \<Rightarrow> controller \<Rightarrow> controller res" where
  "forward_event fresh node_nm e ct =
     (if node_nm = ct_name ct then Inr ct else send_peer_event fresh node_nm e ct)"

definition send_user_message :: "(nat \<Rightarrow> nat \<Rightarrow> byte) \<Rightarrow> port_ref \<Rightarrow> event \<Rightarrow> controller \<Rightarrow> (int option \<times> event \<times> controller) res" where
  "send_user_message fresh r e ct = node_send_user_message (forward_event fresh) (ct_node ct) r e ct"

definition ct_get_user_message :: "port_ref \<Rightarrow> event \<Rightarrow> controller \<Rightarrow> (int \<times> event \<times> controller) res" where
  "ct_get_user_message r e ct =
     rbind (node_get_message r e (ct_node ct)) (\<lambda>(x, e1, nd). Inr (x, e1, ct\<lparr>ct_node := nd\<rparr>))"

section \<open>Peers\<close>

fun send_all_to :: "nat option \<Rightarrow> protocol list \<Rightarrow> controller \<Rightarrow> controller res" where
  "send_all_to c [] ct = Inr ct"
| "send_all_to c (p # ps) ct =
     rbind (with_channel c (\<lambda>nc. Inr (send_channel_message p nc)) ct) (\<lambda>ct1. send_all_to c ps ct1)"

definition add_peer :: "node_name \<Rightarrow> nat option \<Rightarrow> bool \<Rightarrow> controller \<Rightarrow> controller res" where
  "add_peer nm c start_channel ct =
     rbind (with_channel c (\<lambda>nc. Inr (set_remote_node_name nm nc)) ct) (\<lambda>ct1.
       if ct_peers ct1 nm \<noteq> None then Inr ct1
       else let ct2 = ct1\<lparr>ct_peers := (ct_peers ct1)(nm \<mapsto> the c)\<rparr>;
                (pending, ct3) = (case ct_pending_peer_messages ct2 nm of
                    None \<Rightarrow> ([], ct2)
                  | Some ps \<Rightarrow> (ps, ct2\<lparr>ct_pending_peer_messages := um_erase nm (ct_pending_peer_messages ct2)\<rparr>))
            in rbind (if start_channel then start_channel_of c ct3 else Inr ct3) (\<lambda>ct4.
                 send_all_to c pending ct4))"

fun close_ports :: "port_ref list \<Rightarrow> controller \<Rightarrow> controller res" where
  "close_ports [] ct = Inr ct"
| "close_ports (r # rs) ct =
     rbind (close_port r (ct_node ct)) (\<lambda>(_, nd). close_ports rs (ct\<lparr>ct_node := nd\<rparr>))"

definition drop_peer :: "node_name \<Rightarrow> controller \<Rightarrow> controller res" where
  "drop_peer nm ct =
     rbind (release_channel (ct_peers ct nm) (ct\<lparr>ct_peers := um_erase nm (ct_peers ct)\<rparr>)) (\<lambda>ct1.
       let ct2 = ct1\<lparr>ct_pending_peer_messages := um_erase nm (ct_pending_peer_messages ct1)\<rparr> in
       rbind (release_channel (ct_pending_invitations ct2 nm)
                (ct2\<lparr>ct_pending_invitations := um_erase nm (ct_pending_invitations ct2)\<rparr>)) (\<lambda>ct3.
         case om_find nm (ct_reserved_ports ct3) of
           None \<Rightarrow> Inr ct3
         | Some port_map \<Rightarrow>
             close_ports (map snd port_map)
               (ct3\<lparr>ct_reserved_ports := om_erase nm (ct_reserved_ports ct3)\<rparr>)))"

section \<open>Invitations\<close>

definition merge_port_into_inviter :: "(nat \<Rightarrow> nat \<Rightarrow> byte) \<Rightarrow> bytes \<Rightarrow> port_ref \<Rightarrow> controller \<Rightarrow> controller res" where
  "merge_port_into_inviter fresh nm r ct =
     (case get_inviter_channel ct of
        None \<Rightarrow> Inr (ct\<lparr>ct_pending_port_merges := ct_pending_port_merges ct @ [(nm, r)]\<rparr>)
      | Some c \<Rightarrow> with_channel (Some c) (nc_request_port_merge fresh (pr_name r) nm) ct)"

fun emplace_all :: "(bytes \<times> port_ref) list \<Rightarrow> (bytes, port_ref) omap \<Rightarrow> (bytes, port_ref) omap" where
  "emplace_all [] m = m"
| "emplace_all ((k, r) # xs) m = emplace_all xs (om_emplace k r m)"

definition send_invitation :: "(nat \<Rightarrow> nat \<Rightarrow> byte) \<Rightarrow> int \<Rightarrow> (bytes \<times> port_ref) list \<Rightarrow> controller \<Rightarrow> controller res" where
  "send_invitation fresh fd attached_ports ct =
     (let (temp, g) = generate_random_name (nd_rng (ct_node ct));
          ct1 = ct\<lparr>ct_node := (ct_node ct)\<lparr>nd_rng := g\<rparr>\<rparr>;
          (port_map, reserved) = om_index [] temp (ct_reserved_ports ct1);
          ct2 = ct1\<lparr>ct_reserved_ports :=
                   om_emplace temp (emplace_all attached_ports port_map) (om_erase temp reserved)\<rparr>
      in rbind (create_channel fd ct2) (\<lambda>(c, ct3).
         let ct4 = ct3\<lparr>ct_pending_invitations := um_emplace temp c (ct_pending_invitations ct3)\<rparr> in
         rbind (with_channel (Some c) (\<lambda>nc. Inr (set_remote_node_name temp nc)) ct4) (\<lambda>ct5.
         rbind (start_channel_of (Some c) ct5) (\<lambda>ct6.
         rbind (with_channel (Some c) (nc_accept_invitee fresh (ct_name ct6) temp) ct6)
           (release_channel (Some c))))))"

text \<open>The assignment to \<^verbatim>\<open>inviter_channel_\<close> gives up the channel of an earlier call.\<close>

definition accept_invitation :: "int \<Rightarrow> controller \<Rightarrow> controller res" where
  "accept_invitation fd ct =
     rbind (create_channel fd (ct\<lparr>ct_inviter_name := kInvalidName\<rparr>)) (\<lambda>(c, ct1).
     rbind (release_channel (ct_inviter_channel ct1) (ct1\<lparr>ct_inviter_channel := Some c\<rparr>))
       (start_channel_of (Some c)))"

fun request_merges :: "(nat \<Rightarrow> nat \<Rightarrow> byte) \<Rightarrow> (bytes \<times> port_ref) list \<Rightarrow> controller \<Rightarrow> controller res" where
  "request_merges fresh [] ct = Inr ct"
| "request_merges fresh ((nm, r) # rs) ct =
     rbind (with_channel (get_inviter_channel ct) (nc_request_port_merge fresh (pr_name r) nm) ct)
       (\<lambda>ct1. request_merges fresh rs ct1)"

definition handle_pending_merge_port :: "(nat \<Rightarrow> nat \<Rightarrow> byte) \<Rightarrow> controller \<Rightarrow> controller res" where
  "handle_pending_merge_port fresh ct =
     request_merges fresh (ct_pending_port_merges ct) (ct\<lparr>ct_pending_port_merges := []\<rparr>)"

section \<open>The handlers of node channel messages\<close>

definition on_accept_invitee :: "(nat \<Rightarrow> nat \<Rightarrow> byte) \<Rightarrow> node_name \<Rightarrow> node_name \<Rightarrow> node_name \<Rightarrow> controller \<Rightarrow> controller res" where
  "on_accept_invitee fresh from_node inviter_name token ct =
     (let ct1 = ct\<lparr>ct_inviter_name := inviter_name\<rparr>; c = ct_inviter_channel ct in
      rbind (with_channel c (\<lambda>nc. Inr (set_remote_node_name inviter_name nc)) ct1) (\<lambda>ct2.
      rbind (with_channel c (nc_accept_invitation fresh token (ct_name ct2)) ct2) (\<lambda>ct3.
      rbind (add_peer inviter_name c False ct3) (\<lambda>ct4.
        handle_pending_merge_port fresh ct4))))"

definition on_accept_invitation :: "node_name \<Rightarrow> node_name \<Rightarrow> node_name \<Rightarrow> controller \<Rightarrow> controller res" where
  "on_accept_invitation from_node token invitee_name ct =
     (case ct_pending_invitations ct from_node of
        None \<Rightarrow> drop_peer from_node ct
      | Some c \<Rightarrow>
          if token \<noteq> from_node then drop_peer from_node ct
          else let ct1 = (case om_find from_node (ct_reserved_ports ct) of
                     None \<Rightarrow> ct
                   | Some port_map \<Rightarrow>
                       ct\<lparr>ct_reserved_ports :=
                            om_erase from_node (om_emplace invitee_name port_map (ct_reserved_ports ct))\<rparr>);
                   ct2 = ct1\<lparr>ct_pending_invitations := um_erase from_node (ct_pending_invitations ct1)\<rparr>
               in rbind (add_peer invitee_name (Some c) False ct2) (release_channel (Some c)))"

definition on_request_port_merge :: "(nat \<Rightarrow> nat \<Rightarrow> byte) \<Rightarrow> node_name \<Rightarrow> port_name \<Rightarrow> bytes \<Rightarrow> controller \<Rightarrow> controller res" where
  "on_request_port_merge fresh from_node connector pipe_name ct =
     (case om_find from_node (ct_reserved_ports ct) of
        None \<Rightarrow> Inr ct
      | Some port_map \<Rightarrow>
          (case om_find pipe_name port_map of
             None \<Rightarrow> Inr ct
           | Some local_port \<Rightarrow>
               let port_map1 = om_erase pipe_name port_map;
                   erased = om_erase from_node (ct_reserved_ports ct);
                   ct1 = ct\<lparr>ct_reserved_ports :=
                            (if port_map1 = [] then erased else om_emplace from_node port_map1 erased)\<rparr>
               in rbind (merge_ports local_port from_node connector (ct_node ct1)) (\<lambda>(_, local_name, nd).
                    let ct2 = ct1\<lparr>ct_node := nd\<rparr> in
                    with_channel (get_peer_channel from_node ct2)
                      (nc_response_port_merge fresh connector local_name) ct2)))"

definition on_response_port_merge :: "node_name \<Rightarrow> port_name \<Rightarrow> port_name \<Rightarrow> controller \<Rightarrow> controller res" where
  "on_response_port_merge from_node connector port_nm ct =
     rbind (merge_ports_response connector from_node port_nm (ct_node ct)) (\<lambda>(_, nd).
       Inr (ct\<lparr>ct_node := nd\<rparr>))"

definition ct_on_user_message :: "node_name \<Rightarrow> user_message \<Rightarrow> controller \<Rightarrow> controller res" where
  "ct_on_user_message from_node m ct =
     (let e = (attach_message (UserMessage m) event_create)
                \<lparr>ev_from_port := um_from_port_name m, ev_to_port := um_to_port_name m\<rparr>
      in rbind (node_on_user_message from_node e (ct_node ct)) (\<lambda>(_, nd). Inr (ct\<lparr>ct_node := nd\<rparr>)))"

text \<open>Handlers with an empty body, or that only log.\<close>

definition ct_on_channel_error :: "node_name \<Rightarrow> controller \<Rightarrow> controller res" where
  "ct_on_channel_error nm ct = Inr ct"

definition on_accept_peer :: "node_name \<Rightarrow> node_name \<Rightarrow> node_name \<Rightarrow> port_name \<Rightarrow> controller \<Rightarrow> controller res" where
  "on_accept_peer from_node token peer port_nm ct = Inr ct"

definition on_add_client :: "node_name \<Rightarrow> node_name \<Rightarrow> int \<Rightarrow> controller \<Rightarrow> controller res" where
  "on_add_client from_node client process_handle ct = Inr ct"

definition on_client_added :: "node_name \<Rightarrow> node_name \<Rightarrow> int \<Rightarrow> controller \<Rightarrow> controller res" where
  "on_client_added from_node client channel_fd ct = Inr ct"

definition on_accept_client :: "node_name \<Rightarrow> node_name \<Rightarrow> int \<Rightarrow> controller \<Rightarrow> controller res" where
  "on_accept_client from_node client channel_fd ct = Inr ct"

definition controller_delegate :: "(nat \<Rightarrow> nat \<Rightarrow> byte) \<Rightarrow> controller nc_delegate" where
  "controller_delegate fresh =
     \<lparr>OnAcceptInvitee = on_accept_invitee fresh, OnAcceptInvitation = on_accept_invitation,
      OnRequestPortMerge = on_request_port_merge fresh, OnResponsePortMerge = on_response_port_merge,
      OnUserMessage = ct_on_user_message, OnNodeChannelError = ct_on_channel_error\<rparr>"

text \<open>A protocol read by the channel with index \<open>c\<close>.\<close>

definition receive :: "(nat \<Rightarrow> nat \<Rightarrow> byte) \<Rightarrow> nat \<Rightarrow> protocol \<Rightarrow> controller \<Rightarrow> controller res" where
  "receive fresh c p ct =
     rbind (deref_channel (Some c) ct) (\<lambda>nc.
       on_channel_message fresh (controller_delegate fresh) (nc_remote_node_name nc) p ct)"

end
