(* ===== verification/Node_Controller_Spec.thy ===== *)
theory Node_Controller_Spec
  imports Node_Controller
begin

text \<open>
  What the node controller guarantees: an invariant over its tables, channels and reserved ports that
  every operation and every handler preserves, and the effect of each step of the handshake.
\<close>

section \<open>Port references stay valid\<close>

text \<open>No operation of a node frees a port.\<close>

lemma update_port_peer_address_heap:
  "update_port_peer_address lp p pn pp nd = Inr nd' \<Longrightarrow> length (nd_heap nd') = length (nd_heap nd) \<and> nd_name nd' = nd_name nd"
  by (auto simp: update_port_peer_address_def rbind_eq_Inr_iff Let_def node_simps)

lemma merge_ports_heap:
  "merge_ports r dn dp nd = Inr (e, nm, nd') \<Longrightarrow> length (nd_heap nd') = length (nd_heap nd) \<and> nd_name nd' = nd_name nd"
  by (auto simp: merge_ports_def Let_def rbind_eq_Inr_iff node_simps case_prod_beta split: option.splits
      dest!: update_port_peer_address_heap)

lemma merge_ports_response_heap:
  assumes "merge_ports_response lp dn dp nd = Inr (e, nd')"
  shows "length (nd_heap nd') = length (nd_heap nd) \<and> nd_name nd' = nd_name nd"
proof (cases "nd_ports nd lp")
  case (Some p)
  then have "\<exists>(port :: port) e' nm. merge_ports (fst (index_peer (nd_name nd) lp (pt_peer_port_name port) nd)) dn dp
      (snd (index_peer (nd_name nd) lp (pt_peer_port_name port) nd)) = Inr (e', nm, nd')"
    using assms by (auto simp: merge_ports_response_def rbind_eq_Inr_iff Let_def case_prod_beta)
  then show ?thesis by (auto simp: node_simps dest: merge_ports_heap)
qed (use assms in \<open>simp add: merge_ports_response_def\<close>)

lemma node_on_user_message_heap:
  "node_on_user_message fn ev nd = Inr (e, nd') \<Longrightarrow> length (nd_heap nd') = length (nd_heap nd) \<and> nd_name nd' = nd_name nd"
  by (auto simp: node_on_user_message_def Let_def rbind_eq_Inr_iff um_index_def node_simps split: option.splits)

lemma node_get_message_heap:
  "node_get_message r ev nd = Inr (e, ev', nd') \<Longrightarrow> length (nd_heap nd') = length (nd_heap nd) \<and> nd_name nd' = nd_name nd"
  by (auto simp: node_get_message_def rbind_eq_Inr_iff node_simps split: if_splits)

lemma close_port_heap:
  "close_port r nd = Inr (e, nd') \<Longrightarrow> length (nd_heap nd') = length (nd_heap nd) \<and> nd_name nd' = nd_name nd"
  by (auto simp: close_port_def rbind_eq_Inr_iff node_simps)

lemma ref_ok_mono: "ref_ok nd r \<Longrightarrow> length (nd_heap nd) \<le> length (nd_heap nd') \<Longrightarrow> ref_ok nd' r"
  by (auto simp: ref_ok_def)

section \<open>The invariant\<close>

definition channels_ok :: "controller \<Rightarrow> bool" where
  "channels_ok ct \<longleftrightarrow>
     (\<forall>nm c. ct_peers ct nm = Some c \<longrightarrow> c < length (ct_channels ct))
     \<and> (\<forall>nm c. ct_pending_invitations ct nm = Some c \<longrightarrow> c < length (ct_channels ct))
     \<and> (\<forall>c. ct_inviter_channel ct = Some c \<longrightarrow> c < length (ct_channels ct))"

definition reserved_ok :: "ports_node \<Rightarrow> (node_name, (bytes, port_ref) omap) omap \<Rightarrow> bool" where
  "reserved_ok nd reserved \<longleftrightarrow> om_inv reserved
     \<and> (\<forall>nm pm. om_find nm reserved = Some pm \<longrightarrow> om_inv pm \<and> (\<forall>k r. om_find k pm = Some r \<longrightarrow> ref_ok nd r))"

definition ct_wf :: "controller \<Rightarrow> bool" where
  "ct_wf ct \<longleftrightarrow> node_wf (ct_node ct) \<and> nd_name (ct_node ct) = ct_name ct
     \<and> (\<forall>io. ct_io_task_runner ct = Some io \<longrightarrow> io_wf io)
     \<and> channels_ok ct \<and> reserved_ok (ct_node ct) (ct_reserved_ports ct)
     \<and> (\<forall>(k, r) \<in> set (ct_pending_port_merges ct). ref_ok (ct_node ct) r)"

lemma ct_wf_new: "ct_wf (controller_new src)"
proof -
  have "node_wf (node_new (src 0 0) ((rng_new src)\<lparr>rg_calls := Suc 0\<rparr>))"
    by (simp add: node_wf_def node_new_def rng_new_def refs_inv_def peer_ref_def)
  then show ?thesis
    by (simp add: ct_wf_def controller_new_def generate_random_name_def rng_new_def channels_ok_def reserved_ok_def
        node_new_def)
qed

lemma reserved_ok_mono:
  "reserved_ok nd m \<Longrightarrow> length (nd_heap nd) \<le> length (nd_heap nd') \<Longrightarrow> reserved_ok nd' m"
  unfolding reserved_ok_def by (blast intro: ref_ok_mono)

lemma reserved_ok_erase: "reserved_ok nd m \<Longrightarrow> reserved_ok nd (om_erase nm m)"
  by (auto simp: reserved_ok_def om.find_erase om.ok_erase)

lemma reserved_ok_emplace:
  assumes "reserved_ok nd m" and "om_inv pm" and "\<And>k r. om_find k pm = Some r \<Longrightarrow> ref_ok nd r"
  shows "reserved_ok nd (om_emplace nm pm m)"
  using assms unfolding reserved_ok_def by (auto simp: om.find_emplace om.ok_emplace split: if_splits)

text \<open>A node that has moved on, with its ports still allocated.\<close>

lemma ct_wf_node:
  assumes "ct_wf ct" and "node_wf nd" and "length (nd_heap (ct_node ct)) \<le> length (nd_heap nd)" and "nd_name nd = ct_name ct"
  shows "ct_wf (ct\<lparr>ct_node := nd\<rparr>)"
  using assms reserved_ok_mono [of "ct_node ct" _ nd] ref_ok_mono [of "ct_node ct" _ nd]
  by (auto simp: ct_wf_def channels_ok_def split: prod.splits)

section \<open>Preservation\<close>

lemma with_channel_eq:
  "with_channel c f ct = Inr ct' \<longleftrightarrow>
     (\<exists>i nc1. c = Some i \<and> i < length (ct_channels ct) \<and> f (ct_channels ct ! i) = Inr nc1
        \<and> ct' = ct\<lparr>ct_channels := (ct_channels ct)[i := nc1]\<rparr>)"
  by (auto simp: with_channel_def deref_channel_def rbind_eq_Inr_iff split: option.splits if_splits)

lemma with_channel_wf: "ct_wf ct \<Longrightarrow> with_channel c f ct = Inr ct' \<Longrightarrow> ct_wf ct'"
  by (auto simp: with_channel_eq ct_wf_def channels_ok_def)

text \<open>Where giving up a reference does not end the program, it changes nothing else.\<close>

lemma release_channel_Inr: "release_channel r ct = Inr ct' \<Longrightarrow> ct' = ct"
  by (auto simp: release_channel_def rbind_eq_Inr_iff split: option.splits if_splits)

lemma release_channel_referenced [simp]:
  "release_channel None ct = Inr ct"
  "referenced c ct \<Longrightarrow> release_channel (Some c) ct = Inr ct"
  by (simp_all add: release_channel_def)

lemma nc_start_wf:
  assumes "nc_start nc io = Inr io'" and "\<And>r. io = Some r \<Longrightarrow> io_wf r" and "io' = Some r'"
  shows "io_wf r'"
  using assms
  by (auto simp: nc_start_def channel_start_def io_wf_add_fd_event split: option.splits if_splits)

lemma start_channel_of_wf:
  assumes "ct_wf ct" and "start_channel_of c ct = Inr ct'"
  shows "ct_wf ct'"
proof -
  obtain nc io where io: "nc_start nc (ct_io_task_runner ct) = Inr io" "ct' = ct\<lparr>ct_io_task_runner := io\<rparr>"
    using assms(2) by (auto simp: start_channel_of_def rbind_eq_Inr_iff)
  have "io_wf r" if "io = Some r" for r
    using nc_start_wf [OF io(1) _ that] assms(1) by (simp add: ct_wf_def)
  then show ?thesis unfolding io(2) using assms(1) by (simp add: ct_wf_def channels_ok_def)
qed

lemma create_channel_wf:
  assumes "ct_wf ct" and "create_channel fd ct = Inr (c, ct')"
  shows "ct_wf ct' \<and> c < length (ct_channels ct')"
proof -
  obtain io where io: "ct_io_task_runner ct = Some io"
    using assms(2) by (cases "ct_io_task_runner ct") (auto simp: create_channel_def node_channel_create_def channel_create_def)
  then have "ct' = ct\<lparr>ct_channels := ct_channels ct @ [\<lparr>nc_channel = Some (channel_new fd), nc_remote_node_name = kInvalidName\<rparr>],
      ct_io_task_runner := Some (set_delegate fd (length (ct_channels ct)) io)\<rparr>" "c = length (ct_channels ct)"
    using assms(2) by (auto simp: create_channel_def node_channel_create_def channel_create_def Let_def)
  then show ?thesis
    using assms(1) io by (auto simp: ct_wf_def channels_ok_def io_wf_set_delegate less_SucI)
qed

lemma send_all_to_wf: "ct_wf ct \<Longrightarrow> send_all_to c ps ct = Inr ct' \<Longrightarrow> ct_wf ct'"
  by (induction c ps ct rule: send_all_to.induct) (auto simp: rbind_eq_Inr_iff dest: with_channel_wf)

lemma add_peer_wf:
  assumes "ct_wf ct" and "add_peer nm c b ct = Inr ct'"
  shows "ct_wf ct'"
proof -
  obtain ct1 where 1: "with_channel c (\<lambda>nc. Inr (set_remote_node_name nm nc)) ct = Inr ct1"
    using assms(2) by (auto simp: add_peer_def rbind_eq_Inr_iff)
  then have wf1: "ct_wf ct1" and c: "the c < length (ct_channels ct1)" using assms(1) with_channel_wf
    by (blast, auto simp: with_channel_eq)
  show ?thesis
  proof (cases "ct_peers ct1 nm")
    case None
    define ct2 where "ct2 = ct1\<lparr>ct_peers := (ct_peers ct1)(nm \<mapsto> the c)\<rparr>"
    define pending where "pending = (case ct_pending_peer_messages ct2 nm of None \<Rightarrow> [] | Some ps \<Rightarrow> ps)"
    define ct3 where "ct3 = (case ct_pending_peer_messages ct2 nm of None \<Rightarrow> ct2
        | Some ps \<Rightarrow> ct2\<lparr>ct_pending_peer_messages := um_erase nm (ct_pending_peer_messages ct2)\<rparr>)"
    have "ct_wf ct3"
      using wf1 c by (auto simp: ct3_def ct2_def ct_wf_def channels_ok_def split: option.splits)
    moreover have "rbind (if b then start_channel_of c ct3 else Inr ct3) (send_all_to c pending) = Inr ct'"
      using assms(2) 1 None by (cases b) (simp_all add: add_peer_def Let_def ct3_def pending_def flip: ct2_def split: option.splits)
    ultimately show ?thesis
      by (cases b) (auto simp: rbind_eq_Inr_iff dest: start_channel_of_wf send_all_to_wf)
  qed (use assms(2) 1 wf1 in \<open>simp add: add_peer_def\<close>)
qed

lemma close_ports_wf: "ct_wf ct \<Longrightarrow> close_ports rs ct = Inr ct' \<Longrightarrow> ct_wf ct'"
proof (induction rs ct rule: close_ports.induct)
  case (2 r rs ct)
  then obtain e nd where c: "close_port r (ct_node ct) = Inr (e, nd)" "close_ports rs (ct\<lparr>ct_node := nd\<rparr>) = Inr ct'"
    by (auto simp: rbind_eq_Inr_iff)
  have "ct_wf (ct\<lparr>ct_node := nd\<rparr>)"
    using 2(2) close_port_wf [OF _ c(1)] close_port_heap [OF c(1)] by (intro ct_wf_node) (auto simp: ct_wf_def)
  then show ?case using 2(1) c by blast
qed simp

lemma drop_peer_wf:
  assumes "ct_wf ct" and "drop_peer nm ct = Inr ct'"
  shows "ct_wf ct'"
proof -
  let ?ct1 = "ct\<lparr>ct_peers := um_erase nm (ct_peers ct),
      ct_pending_peer_messages := um_erase nm (ct_pending_peer_messages ct),
      ct_pending_invitations := um_erase nm (ct_pending_invitations ct)\<rparr>"
  have "ct_wf ?ct1" "ct_wf (?ct1\<lparr>ct_reserved_ports := om_erase nm (ct_reserved_ports ?ct1)\<rparr>)"
    using assms(1) reserved_ok_erase [of "ct_node ct" "ct_reserved_ports ct" nm]
    by (auto simp: ct_wf_def channels_ok_def um.find_erase split: if_splits)
  then show ?thesis
    using assms(2)
    by (auto simp: drop_peer_def Let_def rbind_eq_Inr_iff split: option.splits dest!: release_channel_Inr
        intro: close_ports_wf [rotated])
qed

lemma request_merges_wf: "ct_wf ct \<Longrightarrow> request_merges fresh rs ct = Inr ct' \<Longrightarrow> ct_wf ct'"
  by (induction fresh rs ct rule: request_merges.induct) (auto simp: rbind_eq_Inr_iff dest: with_channel_wf)

lemma handle_pending_merge_port_wf: "ct_wf ct \<Longrightarrow> handle_pending_merge_port fresh ct = Inr ct' \<Longrightarrow> ct_wf ct'"
  unfolding handle_pending_merge_port_def
  by (erule request_merges_wf [rotated]) (simp add: ct_wf_def channels_ok_def)

lemma on_accept_invitee_wf:
  assumes "ct_wf ct" and "on_accept_invitee fresh fn inviter token ct = Inr ct'"
  shows "ct_wf ct'"
proof -
  have "ct_wf (ct\<lparr>ct_inviter_name := inviter\<rparr>)" using assms(1) by (simp add: ct_wf_def channels_ok_def)
  moreover obtain ct1 ct2 ct3 where
    "with_channel (ct_inviter_channel ct) (\<lambda>nc. Inr (set_remote_node_name inviter nc)) (ct\<lparr>ct_inviter_name := inviter\<rparr>) = Inr ct1"
    "with_channel (ct_inviter_channel ct) (nc_accept_invitation fresh token (ct_name ct1)) ct1 = Inr ct2"
    "add_peer inviter (ct_inviter_channel ct) False ct2 = Inr ct3"
    "handle_pending_merge_port fresh ct3 = Inr ct'"
    using assms(2) by (auto simp: on_accept_invitee_def Let_def rbind_eq_Inr_iff)
  ultimately show ?thesis
    using with_channel_wf add_peer_wf handle_pending_merge_port_wf by metis
qed

lemma on_accept_invitation_wf:
  assumes "ct_wf ct" and "on_accept_invitation fn token invitee ct = Inr ct'"
  shows "ct_wf ct'"
proof (cases "ct_pending_invitations ct fn = None \<or> token \<noteq> fn")
  case True
  then have "drop_peer fn ct = Inr ct'" using assms(2) by (auto simp: on_accept_invitation_def split: option.splits)
  with assms(1) show ?thesis by (rule drop_peer_wf)
next
  case False
  define ct1 where "ct1 = (case om_find fn (ct_reserved_ports ct) of None \<Rightarrow> ct
    | Some port_map \<Rightarrow> ct\<lparr>ct_reserved_ports := om_erase fn (om_emplace invitee port_map (ct_reserved_ports ct))\<rparr>)"
  obtain c where c: "ct_pending_invitations ct fn = Some c" "token = fn" using False by auto
  have "reserved_ok (ct_node ct) (om_erase fn (om_emplace invitee pm (ct_reserved_ports ct)))"
    if "om_find fn (ct_reserved_ports ct) = Some pm" for pm
    using assms(1) that by (intro reserved_ok_erase reserved_ok_emplace) (auto simp: ct_wf_def reserved_ok_def)
  then have "ct_wf ct1" using assms(1) by (auto simp: ct1_def ct_wf_def channels_ok_def split: option.splits)
  then have "ct_wf (ct1\<lparr>ct_pending_invitations := um_erase fn (ct_pending_invitations ct1)\<rparr>)"
    by (auto simp: ct_wf_def channels_ok_def um.find_erase split: if_splits)
  moreover have "add_peer invitee (Some c) False (ct1\<lparr>ct_pending_invitations := um_erase fn (ct_pending_invitations ct1)\<rparr>) = Inr ct'"
    using assms(2) c by (auto simp: on_accept_invitation_def Let_def rbind_eq_Inr_iff simp flip: ct1_def dest!: release_channel_Inr)
  ultimately show ?thesis by (rule add_peer_wf)
qed

lemma on_response_port_merge_wf:
  assumes "ct_wf ct" and "on_response_port_merge fn connector pn ct = Inr ct'"
  shows "ct_wf ct'"
proof -
  obtain e nd where m: "merge_ports_response connector fn pn (ct_node ct) = Inr (e, nd)" "ct' = ct\<lparr>ct_node := nd\<rparr>"
    using assms(2) by (auto simp: on_response_port_merge_def rbind_eq_Inr_iff)
  show ?thesis
    unfolding m(2) using assms(1) merge_ports_response_wf [OF _ m(1)] merge_ports_response_heap [OF m(1)]
    by (intro ct_wf_node) (auto simp: ct_wf_def)
qed

lemma ct_on_user_message_wf:
  assumes "ct_wf ct" and "ct_on_user_message fn m ct = Inr ct'"
  shows "ct_wf ct'"
proof -
  obtain e ev nd where m: "node_on_user_message fn ev (ct_node ct) = Inr (e, nd)" "ct' = ct\<lparr>ct_node := nd\<rparr>"
    using assms(2) by (auto simp: ct_on_user_message_def Let_def rbind_eq_Inr_iff)
  show ?thesis
    unfolding m(2) using assms(1) node_on_user_message_wf [OF _ m(1)] node_on_user_message_heap [OF m(1)]
    by (intro ct_wf_node) (auto simp: ct_wf_def)
qed

lemma emplace_all_ok:
  "om_inv m \<Longrightarrow> om_inv (emplace_all xs m)
    \<and> (\<forall>k r. om_find k (emplace_all xs m) = Some r \<longrightarrow> om_find k m = Some r \<or> (k, r) \<in> set xs)"
proof (induction xs m rule: emplace_all.induct)
  case (2 k r xs m)
  have new: "om_find k' (om_emplace k r m) = Some r' \<Longrightarrow> om_find k' m = Some r' \<or> k' = k \<and> r' = r" for k' r'
    using om.find_emplace [OF 2(2), of k' k r] by (auto split: if_splits)
  have "om_inv (emplace_all xs (om_emplace k r m))"
    "\<And>k' r'. om_find k' (emplace_all xs (om_emplace k r m)) = Some r' \<Longrightarrow>
       om_find k' (om_emplace k r m) = Some r' \<or> (k', r') \<in> set xs"
    using 2(1) [OF om.ok_emplace [OF 2(2), of k r]] by blast+
  then show ?case using new by (metis emplace_all.simps(2) list.set_intros)
qed simp

lemma ct_wf_rng:
  assumes "ct_wf ct" and "length (rg_cache g) = kRandomNameCacheSize" and "rg_index g \<le> kRandomNameCacheSize"
  shows "ct_wf (ct\<lparr>ct_node := (ct_node ct)\<lparr>nd_rng := g\<rparr>\<rparr>)"
proof (rule ct_wf_node [OF assms(1)])
  have "refs_inv ((ct_node ct)\<lparr>nd_rng := g\<rparr>) = refs_inv (ct_node ct)" "peer_ref ((ct_node ct)\<lparr>nd_rng := g\<rparr>) = peer_ref (ct_node ct)"
    by (simp_all add: node_simps)
  then show "node_wf ((ct_node ct)\<lparr>nd_rng := g\<rparr>)" using assms by (simp add: ct_wf_def node_wf_def ref_ok_def)
qed (use assms(1) in \<open>simp_all add: ct_wf_def\<close>)

text \<open>The state in which \<^verbatim>\<open>SendInvitation\<close> creates the channel.\<close>

definition reserve_ports :: "(bytes \<times> port_ref) list \<Rightarrow> controller \<Rightarrow> node_name \<times> controller" where
  "reserve_ports attached_ports ct =
     (let (temp, g) = generate_random_name (nd_rng (ct_node ct));
          ct1 = ct\<lparr>ct_node := (ct_node ct)\<lparr>nd_rng := g\<rparr>\<rparr>;
          (port_map, reserved) = om_index [] temp (ct_reserved_ports ct1)
      in (temp, ct1\<lparr>ct_reserved_ports :=
                   om_emplace temp (emplace_all attached_ports port_map) (om_erase temp reserved)\<rparr>))"

lemma send_invitation_steps:
  "send_invitation fresh fd attached_ports ct =
     (let (temp, ct2) = reserve_ports attached_ports ct in
      rbind (create_channel fd ct2) (\<lambda>(c, ct3).
         let ct4 = ct3\<lparr>ct_pending_invitations := um_emplace temp c (ct_pending_invitations ct3)\<rparr> in
         rbind (with_channel (Some c) (\<lambda>nc. Inr (set_remote_node_name temp nc)) ct4) (\<lambda>ct5.
         rbind (start_channel_of (Some c) ct5) (\<lambda>ct6.
         rbind (with_channel (Some c) (nc_accept_invitee fresh (ct_name ct6) temp) ct6)
           (release_channel (Some c))))))"
  by (simp add: send_invitation_def reserve_ports_def Let_def case_prod_beta)

lemma reserve_ports_wf:
  assumes "ct_wf ct" and "\<forall>(k, r) \<in> set attached. ref_ok (ct_node ct) r" and "reserve_ports attached ct = (temp, ct')"
  shows "ct_wf ct'"
proof -
  let ?g = "(nd_rng (ct_node ct))\<lparr>rg_calls := Suc (rg_calls (nd_rng (ct_node ct)))\<rparr>"
  let ?ct1 = "ct\<lparr>ct_node := (ct_node ct)\<lparr>nd_rng := ?g\<rparr>\<rparr>"
  have wf1: "ct_wf ?ct1" using assms(1) by (intro ct_wf_rng) (auto simp: ct_wf_def node_wf_def)
  have temp: "temp = rg_source (nd_rng (ct_node ct)) (rg_calls (nd_rng (ct_node ct))) 0"
    using arg_cong [OF assms(3), of fst] by (simp add: reserve_ports_def generate_random_name_def case_prod_beta)
  obtain pm reserved where idx: "om_index [] temp (ct_reserved_ports ct) = (pm, reserved)" by fastforce
  have ct': "ct' = ?ct1\<lparr>ct_reserved_ports := om_emplace temp (emplace_all attached pm) (om_erase temp reserved)\<rparr>"
    using assms(3) idx by (simp add: reserve_ports_def generate_random_name_def Let_def flip: temp)
  have res: "reserved_ok (ct_node ct) (ct_reserved_ports ct)" using assms(1) by (simp add: ct_wf_def)
  have pm: "om_inv pm" "\<And>k r. om_find k pm = Some r \<Longrightarrow> ref_ok (ct_node ct) r"
    using idx res by (auto simp: om_index_def reserved_ok_def split: option.splits)
  have "reserved_ok (ct_node ct) reserved"
    using idx res by (auto simp: om_index_def split: option.splits intro!: reserved_ok_emplace)
  moreover have "om_inv (emplace_all attached pm)" "\<And>k r. om_find k (emplace_all attached pm) = Some r \<Longrightarrow> ref_ok (ct_node ct) r"
    using emplace_all_ok [OF pm(1), of attached] pm(2) assms(2) by fastforce+
  ultimately have "reserved_ok (ct_node ct) (om_emplace temp (emplace_all attached pm) (om_erase temp reserved))"
    by (intro reserved_ok_emplace reserved_ok_erase)
  then have "reserved_ok ((ct_node ct)\<lparr>nd_rng := ?g\<rparr>) (om_emplace temp (emplace_all attached pm) (om_erase temp reserved))"
    by (rule reserved_ok_mono) simp
  then show ?thesis using wf1 by (simp add: ct' ct_wf_def channels_ok_def)
qed

lemma send_invitation_wf:
  assumes "ct_wf ct" and "\<forall>(k, r) \<in> set attached. ref_ok (ct_node ct) r" and "send_invitation fresh fd attached ct = Inr ct'"
  shows "ct_wf ct'"
proof -
  obtain temp ct2 where r: "reserve_ports attached ct = (temp, ct2)" by fastforce
  then obtain c ct3 ct5 ct6 where
    3: "create_channel fd ct2 = Inr (c, ct3)" and
    5: "with_channel (Some c) (\<lambda>nc. Inr (set_remote_node_name temp nc))
        (ct3\<lparr>ct_pending_invitations := um_emplace temp c (ct_pending_invitations ct3)\<rparr>) = Inr ct5" and
    6: "start_channel_of (Some c) ct5 = Inr ct6"
       "with_channel (Some c) (nc_accept_invitee fresh (ct_name ct6) temp) ct6 = Inr ct'"
    using assms(3) by (auto simp: send_invitation_steps rbind_eq_Inr_iff Let_def dest!: release_channel_Inr)
  have "ct_wf ct2" using assms(1,2) r by (rule reserve_ports_wf)
  then have "ct_wf ct3" "c < length (ct_channels ct3)" using create_channel_wf [OF _ 3] by auto
  then have "ct_wf (ct3\<lparr>ct_pending_invitations := um_emplace temp c (ct_pending_invitations ct3)\<rparr>)"
    by (auto simp: ct_wf_def channels_ok_def um.find_emplace split: if_splits)
  then show ?thesis using 5 6 with_channel_wf start_channel_of_wf by metis
qed

lemma accept_invitation_wf:
  assumes "ct_wf ct" and "accept_invitation fd ct = Inr ct'"
  shows "ct_wf ct'"
proof -
  obtain c ct1 where c: "create_channel fd (ct\<lparr>ct_inviter_name := kInvalidName\<rparr>) = Inr (c, ct1)"
    "start_channel_of (Some c) (ct1\<lparr>ct_inviter_channel := Some c\<rparr>) = Inr ct'"
    using assms(2) by (auto simp: accept_invitation_def rbind_eq_Inr_iff dest!: release_channel_Inr)
  have "ct_wf (ct\<lparr>ct_inviter_name := kInvalidName\<rparr>)" using assms(1) by (simp add: ct_wf_def channels_ok_def)
  then have "ct_wf ct1 \<and> c < length (ct_channels ct1)" using c(1) create_channel_wf by blast
  then have "ct_wf (ct1\<lparr>ct_inviter_channel := Some c\<rparr>)" by (auto simp: ct_wf_def channels_ok_def)
  then show ?thesis using c(2) start_channel_of_wf by blast
qed

lemma merge_port_into_inviter_wf:
  assumes "ct_wf ct" and "ref_ok (ct_node ct) r" and "merge_port_into_inviter fresh nm r ct = Inr ct'"
  shows "ct_wf ct'"
proof (cases "get_inviter_channel ct")
  case None
  then show ?thesis using assms by (auto simp: merge_port_into_inviter_def ct_wf_def channels_ok_def)
next
  case (Some c)
  then show ?thesis using assms(1,3) by (auto simp: merge_port_into_inviter_def intro: with_channel_wf)
qed

lemma send_peer_event_wf:
  assumes "ct_wf ct" and "send_peer_event fresh nm e ct = Inr ct'"
  shows "ct_wf ct'"
proof (cases "ev_message e")
  case (Some m)
  show ?thesis
  proof (cases "ct_peers ct nm")
    case None
    then have "\<exists>q. ct' = ct\<lparr>ct_pending_peer_messages := q\<rparr>"
      using assms(2) Some by (auto simp: send_peer_event_def protocol_of_eq get_peer_channel_def case_prod_beta Let_def)
    then show ?thesis using assms(1) by (auto simp: ct_wf_def channels_ok_def)
  next
    case c: (Some c)
    then show ?thesis
      using assms Some by (auto simp: send_peer_event_def protocol_of_eq get_peer_channel_def intro: with_channel_wf)
  qed
qed (use assms in \<open>simp add: send_peer_event_def\<close>)

lemma send_user_message_wf:
  assumes "ct_wf ct" and "send_user_message fresh r e ct = Inr (x, e', ct')"
  shows "ct_wf ct'"
proof -
  obtain nm ev where "forward_event fresh nm ev ct = Inr ct'"
    using assms(2) by (auto simp: send_user_message_def node_send_user_message_def send_user_message_internal_def
        rbind_eq_Inr_iff Let_def split: option.splits)
  then show ?thesis
    using assms(1) by (auto simp: forward_event_def split: if_splits intro: send_peer_event_wf)
qed

lemma ct_get_user_message_wf:
  assumes "ct_wf ct" and "ct_get_user_message r e ct = Inr (x, e', ct')"
  shows "ct_wf ct'"
proof -
  obtain nd where m: "node_get_message r e (ct_node ct) = Inr (x, e', nd)" "ct' = ct\<lparr>ct_node := nd\<rparr>"
    using assms(2) by (auto simp: ct_get_user_message_def rbind_eq_Inr_iff)
  show ?thesis
    unfolding m(2) using assms(1) node_get_message_wf [OF _ m(1)] node_get_message_heap [OF m(1)]
    by (intro ct_wf_node) (auto simp: ct_wf_def)
qed

text \<open>The state in which \<^verbatim>\<open>OnRequestPortMerge\<close> merges: the entry is taken out.\<close>

definition take_reserved :: "node_name \<Rightarrow> bytes \<Rightarrow> (bytes, port_ref) omap \<Rightarrow> controller \<Rightarrow> controller" where
  "take_reserved fn pipe_name port_map ct =
     ct\<lparr>ct_reserved_ports :=
        (if om_erase pipe_name port_map = [] then om_erase fn (ct_reserved_ports ct)
         else om_emplace fn (om_erase pipe_name port_map) (om_erase fn (ct_reserved_ports ct)))\<rparr>"

lemma take_reserved_wf:
  assumes "ct_wf ct" and "om_find fn (ct_reserved_ports ct) = Some pm"
  shows "ct_wf (take_reserved fn nm pm ct)"
proof -
  have res: "reserved_ok (ct_node ct) (ct_reserved_ports ct)" using assms(1) by (simp add: ct_wf_def)
  then have "om_inv pm" "\<And>k r. om_find k pm = Some r \<Longrightarrow> ref_ok (ct_node ct) r"
    using assms(2) by (auto simp: reserved_ok_def)
  then have "reserved_ok (ct_node ct) (om_emplace fn (om_erase nm pm) (om_erase fn (ct_reserved_ports ct)))"
    using res by (intro reserved_ok_emplace reserved_ok_erase) (auto simp: om.ok_erase om.find_erase split: if_splits)
  then show ?thesis
    using assms(1) res reserved_ok_erase [OF res] by (simp add: take_reserved_def ct_wf_def channels_ok_def)
qed

lemma take_reserved_sel [ctl_simps]:
  "ct_node (take_reserved fn nm pm ct) = ct_node ct" "ct_name (take_reserved fn nm pm ct) = ct_name ct"
  "ct_peers (take_reserved fn nm pm ct) = ct_peers ct" "ct_channels (take_reserved fn nm pm ct) = ct_channels ct"
  by (simp_all add: take_reserved_def)

lemma on_request_port_merge_steps:
  "on_request_port_merge fresh fn connector nm ct =
     (case om_find fn (ct_reserved_ports ct) of None \<Rightarrow> Inr ct
      | Some pm \<Rightarrow> (case om_find nm pm of None \<Rightarrow> Inr ct
        | Some r \<Rightarrow> rbind (merge_ports r fn connector (ct_node ct)) (\<lambda>(_, local_name, nd).
            with_channel (ct_peers ct fn) (nc_response_port_merge fresh connector local_name)
              ((take_reserved fn nm pm ct)\<lparr>ct_node := nd\<rparr>))))"
  by (simp add: on_request_port_merge_def take_reserved_def Let_def get_peer_channel_def split: option.splits)

lemma on_request_port_merge_wf:
  assumes "ct_wf ct" and "on_request_port_merge fresh fn connector nm ct = Inr ct'"
  shows "ct_wf ct'"
proof (cases "\<exists>pm r. om_find fn (ct_reserved_ports ct) = Some pm \<and> om_find nm pm = Some r")
  case True
  then obtain pm r where pm: "om_find fn (ct_reserved_ports ct) = Some pm" "om_find nm pm = Some r" by blast
  then obtain e ln nd where m: "merge_ports r fn connector (ct_node ct) = Inr (e, ln, nd)"
    "with_channel (ct_peers ct fn) (nc_response_port_merge fresh connector ln) ((take_reserved fn nm pm ct)\<lparr>ct_node := nd\<rparr>) = Inr ct'"
    using assms(2) by (auto simp: on_request_port_merge_steps rbind_eq_Inr_iff)
  have "ct_wf ((take_reserved fn nm pm ct)\<lparr>ct_node := nd\<rparr>)"
    using take_reserved_wf [OF assms(1) pm(1), of nm] assms(1) merge_ports_wf [OF _ m(1)] merge_ports_heap [OF m(1)]
    by (intro ct_wf_node) (auto simp: ctl_simps ct_wf_def)
  then show ?thesis using m(2) with_channel_wf by blast
next
  case False
  then have "ct' = ct" using assms(2) by (auto simp: on_request_port_merge_steps split: option.splits)
  with assms(1) show ?thesis by simp
qed

interpretation controller: delegate_inv "controller_delegate fresh" ct_wf for fresh
proof unfold_locales
  fix s fn a b s'
  assume wf: "ct_wf s"
  show "OnAcceptInvitee (controller_delegate fresh) fn a b s = Inr s' \<Longrightarrow> ct_wf s'"
    using wf by (auto simp: controller_delegate_def intro: on_accept_invitee_wf)
  show "OnAcceptInvitation (controller_delegate fresh) fn a b s = Inr s' \<Longrightarrow> ct_wf s'"
    using wf by (auto simp: controller_delegate_def intro: on_accept_invitation_wf)
  show "OnResponsePortMerge (controller_delegate fresh) fn a b s = Inr s' \<Longrightarrow> ct_wf s'"
    using wf by (auto simp: controller_delegate_def intro: on_response_port_merge_wf)
next
  fix s fn a nm s'
  assume "ct_wf s" "OnRequestPortMerge (controller_delegate fresh) fn a nm s = Inr s'"
  then show "ct_wf s'" by (auto simp: controller_delegate_def intro: on_request_port_merge_wf)
next
  fix s fn m s'
  assume "ct_wf s" "OnUserMessage (controller_delegate fresh) fn m s = Inr s'"
  then show "ct_wf s'" by (auto simp: controller_delegate_def intro: ct_on_user_message_wf)
qed

lemma receive_wf: "ct_wf ct \<Longrightarrow> receive fresh c p ct = Inr ct' \<Longrightarrow> ct_wf ct'"
  by (auto simp: receive_def rbind_eq_Inr_iff intro: controller.keeps_message)

lemma create_uninitialized_port_heap:
  "create_uninitialized_port r nd = Inr (e, r', nd') \<Longrightarrow> length (nd_heap nd) \<le> length (nd_heap nd') \<and> nd_name nd' = nd_name nd"
  by (cases "generate_random_port_name (nd_rng nd)") (auto simp: create_uninitialized_port_eq split: if_splits)

lemma initialize_port_heap:
  "initialize_port r pn pp nd = Inr (e, nd') \<Longrightarrow> length (nd_heap nd') = length (nd_heap nd) \<and> nd_name nd' = nd_name nd"
  by (auto simp: initialize_port_def rbind_eq_Inr_iff Let_def node_simps split: if_splits
      dest!: update_port_peer_address_heap)

lemma create_port_pair_heap:
  assumes "create_port_pair r0 r1 nd = Inr (e, r0', r1', nd')"
  shows "length (nd_heap nd) \<le> length (nd_heap nd') \<and> nd_name nd' = nd_name nd"
proof -
  obtain e0 s0 nd0 where 0: "create_uninitialized_port r0 nd = Inr (e0, s0, nd0)"
    using assms by (auto simp: create_port_pair_def rbind_eq_Inr_iff)
  note h0 = create_uninitialized_port_heap [OF 0]
  show ?thesis
  proof (cases "e0 = node_OK")
    case True
    with 0 assms obtain e1 s1 nd1 where 1: "create_uninitialized_port r1 nd0 = Inr (e1, s1, nd1)"
      by (auto simp: create_port_pair_def rbind_eq_Inr_iff)
    note h1 = create_uninitialized_port_heap [OF 1]
    show ?thesis
    proof (cases "e1 = node_OK")
      case e1: True
      with 0 1 True assms obtain e2 nd2 where 2: "initialize_port s0 (nd_name nd1) (pr_name s1) nd1 = Inr (e2, nd2)"
        by (auto simp: create_port_pair_def rbind_eq_Inr_iff)
      note h2 = initialize_port_heap [OF 2]
      show ?thesis
      proof (cases "e2 = node_OK")
        case e2: True
        with 0 1 2 True e1 assms obtain e3 where "initialize_port s1 (nd_name nd2) (pr_name s0) nd2 = Inr (e3, nd')"
          by (auto simp: create_port_pair_def rbind_eq_Inr_iff split: if_splits)
        note h3 = initialize_port_heap [OF this]
        show ?thesis using h0 h1 h2 h3 by simp
      qed (use 0 1 2 True e1 h0 h1 h2 assms in \<open>simp add: create_port_pair_def\<close>)
    qed (use 0 1 True h0 h1 assms in \<open>simp add: create_port_pair_def\<close>)
  qed (use 0 h0 assms in \<open>simp add: create_port_pair_def\<close>)
qed

section \<open>Reachable states\<close>

text \<open>
  A controller is made with any source of random names, given a runner, and from then on is called
  by the \<^verbatim>\<open>Core\<close> above it with valid port references, and by its channels with any protocol at all.
\<close>

inductive ct_reach :: "(nat \<Rightarrow> nat \<Rightarrow> byte) \<Rightarrow> controller \<Rightarrow> bool" for fresh where
  cr_new: "ct_reach fresh (controller_new src)"
| cr_io: "ct_reach fresh ct \<Longrightarrow> ct_reach fresh (set_io_task_runner (Some io_new) ct)"
| cr_pair: "ct_reach fresh ct \<Longrightarrow> create_port_pair r0 r1 (ct_node ct) = Inr (e, r0', r1', nd)
     \<Longrightarrow> ct_reach fresh (ct\<lparr>ct_node := nd\<rparr>)"
| cr_send_invitation: "ct_reach fresh ct \<Longrightarrow> \<forall>(k, r) \<in> set attached. ref_ok (ct_node ct) r
     \<Longrightarrow> send_invitation fresh fd attached ct = Inr ct' \<Longrightarrow> ct_reach fresh ct'"
| cr_accept_invitation: "ct_reach fresh ct \<Longrightarrow> accept_invitation fd ct = Inr ct' \<Longrightarrow> ct_reach fresh ct'"
| cr_merge: "ct_reach fresh ct \<Longrightarrow> ref_ok (ct_node ct) r \<Longrightarrow> merge_port_into_inviter fresh nm r ct = Inr ct'
     \<Longrightarrow> ct_reach fresh ct'"
| cr_receive: "ct_reach fresh ct \<Longrightarrow> receive fresh c p ct = Inr ct' \<Longrightarrow> ct_reach fresh ct'"
| cr_send: "ct_reach fresh ct \<Longrightarrow> send_user_message fresh r ev ct = Inr (x, ev', ct') \<Longrightarrow> ct_reach fresh ct'"
| cr_get: "ct_reach fresh ct \<Longrightarrow> ct_get_user_message r ev ct = Inr (y, ev', ct') \<Longrightarrow> ct_reach fresh ct'"
| cr_drop: "ct_reach fresh ct \<Longrightarrow> drop_peer nm ct = Inr ct' \<Longrightarrow> ct_reach fresh ct'"

lemma ct_reach_wf: "ct_reach fresh ct \<Longrightarrow> ct_wf ct"
proof (induction rule: ct_reach.induct)
  case (cr_new src)
  show ?case by (rule ct_wf_new)
next
  case (cr_io ct)
  then show ?case by (simp add: set_io_task_runner_def ct_wf_def channels_ok_def io_wf_new)
next
  case (cr_pair ct r0 r1 e r0' r1' nd)
  have wf: "node_wf (ct_node ct)" "nd_name (ct_node ct) = ct_name ct" using cr_pair(3) by (simp_all add: ct_wf_def)
  show ?case
    using create_port_pair_wf [OF wf(1) cr_pair(2)] create_port_pair_heap [OF cr_pair(2)] wf(2)
    by (intro ct_wf_node [OF cr_pair(3)]) simp_all
next
  case (cr_send_invitation ct attached fd ct')
  then show ?case by (blast intro: send_invitation_wf)
next
  case (cr_accept_invitation ct fd ct')
  then show ?case by (blast intro: accept_invitation_wf)
next
  case (cr_merge ct r nm ct')
  then show ?case by (blast intro: merge_port_into_inviter_wf)
next
  case (cr_receive ct c p ct')
  then show ?case by (blast intro: receive_wf)
next
  case (cr_send ct r ev x ev' ct')
  then show ?case by (blast intro: send_user_message_wf)
next
  case (cr_get ct r ev y ev' ct')
  then show ?case by (blast intro: ct_get_user_message_wf)
next
  case (cr_drop ct nm ct')
  then show ?case by (blast intro: drop_peer_wf)
qed

end
