(* ===== verification/Controller_Effects.thy ===== *)
theory Controller_Effects
  imports Node_Controller_Spec
begin

text \<open>
  What each operation of the node controller does, step by step: adding and dropping peers, routing a
  message, the handshake handlers, and exactly when a message from the network faults.
\<close>

named_theorems effect_simps \<open>results of the controller's steps on an existing channel\<close>

section \<open>Channels\<close>

text \<open>The messages queued on a node channel for its socket.\<close>

definition outbox :: "node_channel \<Rightarrow> protocol list" where
  "outbox nc = (case nc_channel nc of None \<Rightarrow> [] | Some ch \<Rightarrow> ch_writing_protocol ch)"

definition is_open :: "node_channel \<Rightarrow> bool" where
  "is_open nc \<longleftrightarrow> nc_channel nc \<noteq> None"

lemma outbox_send: "outbox (send_channel_message p nc) = (if is_open nc then outbox nc @ [p] else [])"
  by (auto simp: outbox_def is_open_def send_channel_message_def write_channel_message_def channel_write_def split: option.splits)

lemma open_send [simp]: "is_open (send_channel_message p nc) = is_open nc"
  by (auto simp: is_open_def send_channel_message_def write_channel_message_def split: option.splits)

lemma open_set_remote [simp]: "is_open (set_remote_node_name nm nc) = is_open nc"
  and outbox_set_remote [simp]: "outbox (set_remote_node_name nm nc) = outbox nc"
  and remote_set_remote [simp]: "nc_remote_node_name (set_remote_node_name nm nc) = nm"
  by (simp_all add: is_open_def outbox_def set_remote_node_name_def)

lemma remote_send [simp]: "nc_remote_node_name (send_channel_message p nc) = nc_remote_node_name nc"
  by (simp add: send_channel_message_def write_channel_message_def split: option.splits)

lemma remote_send_all [simp]: "nc_remote_node_name (fold send_channel_message ps nc) = nc_remote_node_name nc"
  by (induction ps arbitrary: nc) simp_all

lemma open_send_all [simp]: "is_open (fold send_channel_message ps nc) = is_open nc"
  by (induction ps arbitrary: nc) simp_all

lemma outbox_send_all: "is_open nc \<Longrightarrow> outbox (fold send_channel_message ps nc) = outbox nc @ ps"
  by (induction ps arbitrary: nc) (simp_all add: outbox_send)

text \<open>A call on a channel that exists.\<close>

lemma with_channel_Some [effect_simps]:
  "i < length (ct_channels ct) \<Longrightarrow>
   with_channel (Some i) f ct = rbind (f (ct_channels ct ! i)) (\<lambda>nc. Inr (ct\<lparr>ct_channels := (ct_channels ct)[i := nc]\<rparr>))"
  by (simp add: with_channel_def deref_channel_def)

lemma with_channel_None [effect_simps]: "with_channel None f ct = Inl NullDeref"
  by (simp add: with_channel_def deref_channel_def)

lemma nc_senders [effect_simps]:
  "nc_accept_invitee fresh a t nc = Inr (send_channel_message (protocol_create kAcceptInvitee (message_bytes (AcceptInvitee t a))) nc)"
  "nc_accept_invitation fresh t b nc = Inr (send_channel_message (protocol_create kAcceptInvitation (message_bytes (AcceptInvitation t b))) nc)"
  "nc_request_port_merge fresh c nm nc = Inr (send_channel_message (protocol_create kRequestPortMerge (message_bytes (RequestPortMerge c nm))) nc)"
  "nc_response_port_merge fresh c p nc = Inr (send_channel_message (protocol_create kResponsePortMerge (message_bytes (ResponsePortMerge c p))) nc)"
  by (simp_all add: nc_accept_invitee_def nc_accept_invitation_def nc_request_port_merge_def nc_response_port_merge_def
      send_message_eq send_channel_message_def)

lemma send_all_to_eq [effect_simps]:
  "i < length (ct_channels ct) \<Longrightarrow> send_all_to (Some i) ps ct =
     Inr (ct\<lparr>ct_channels := (ct_channels ct)[i := fold send_channel_message ps (ct_channels ct ! i)]\<rparr>)"
  by (induction ps arbitrary: ct) (simp_all add: effect_simps)

section \<open>Peers\<close>

definition pending_for :: "node_name \<Rightarrow> controller \<Rightarrow> protocol list" where
  "pending_for nm ct = (case ct_pending_peer_messages ct nm of None \<Rightarrow> [] | Some ps \<Rightarrow> ps)"

lemma um_erase_absent: "m k = None \<Longrightarrow> um_erase k m = m"
  by (simp add: um_erase_def fun_upd_idem)

lemma add_peer_new:
  assumes "i < length (ct_channels ct)" and "ct_peers ct nm = None"
  shows "add_peer nm (Some i) False ct = Inr (ct\<lparr>
      ct_channels := (ct_channels ct)[i := fold send_channel_message (pending_for nm ct) (set_remote_node_name nm (ct_channels ct ! i))],
      ct_peers := (ct_peers ct)(nm \<mapsto> i),
      ct_pending_peer_messages := um_erase nm (ct_pending_peer_messages ct)\<rparr>)"
  using assms
  by (cases "ct_pending_peer_messages ct nm") (simp_all add: add_peer_def effect_simps pending_for_def um_erase_absent)

lemma add_peer_known:
  assumes "i < length (ct_channels ct)" and "ct_peers ct nm = Some j"
  shows "add_peer nm (Some i) False ct =
    Inr (ct\<lparr>ct_channels := (ct_channels ct)[i := set_remote_node_name nm (ct_channels ct ! i)]\<rparr>)"
  using assms by (simp add: add_peer_def effect_simps)

lemma add_peer_total:
  assumes "i < length (ct_channels ct)"
  obtains ct' where "add_peer nm (Some i) False ct = Inr ct'" and "ct_peers ct' nm \<noteq> None"
    and "length (ct_channels ct') = length (ct_channels ct)"
    and "ct_pending_port_merges ct' = ct_pending_port_merges ct" and "ct_inviter_name ct' = ct_inviter_name ct"
    and "\<And>x. x \<noteq> nm \<Longrightarrow> ct_peers ct' x = ct_peers ct x" and "\<And>j. ct_peers ct nm = Some j \<Longrightarrow> ct_peers ct' nm = Some j"
    and "ct_peers ct nm = None \<Longrightarrow> ct_peers ct' nm = Some i"
  using assms by (cases "ct_peers ct nm") (auto simp: add_peer_new add_peer_known)

text \<open>
  C15: Adding a peer under a new name gives its channel that name, enters it in the table of peers,
  and hands the channel every message that was waiting for the peer, in the order they were sent and
  after what the channel already held; the waiting list is gone, so nothing is sent twice.
\<close>

theorem add_peer_flushes_pending:
  assumes "i < length (ct_channels ct)" and "is_open (ct_channels ct ! i)" and "ct_peers ct nm = None"
  shows "\<exists>ct'. add_peer nm (Some i) False ct = Inr ct'
    \<and> ct_peers ct' = (ct_peers ct)(nm \<mapsto> i)
    \<and> outbox (ct_channels ct' ! i) = outbox (ct_channels ct ! i) @ pending_for nm ct
    \<and> nc_remote_node_name (ct_channels ct' ! i) = nm
    \<and> pending_for nm ct' = []
    \<and> (\<forall>nm'. nm' \<noteq> nm \<longrightarrow> pending_for nm' ct' = pending_for nm' ct)
    \<and> (\<forall>j. j \<noteq> i \<longrightarrow> ct_channels ct' ! j = ct_channels ct ! j)"
  using assms by (simp add: add_peer_new outbox_send_all pending_for_def um_erase_def)

text \<open>A fresh controller whose node holds one port with a peer on another node, for the witnesses.\<close>

definition sample_port :: port where
  "sample_port = linked_port (Name 9 9) (Name 5 5)"

definition sample_controller :: controller where
  "sample_controller =
     (let ct = controller_new (\<lambda>_ _. Name 1 2)
      in ct\<lparr>ct_node := (ct_node ct)\<lparr>nd_heap := [sample_port]\<rparr>,
            ct_channels := [\<lparr>nc_channel = Some (channel_new 3), nc_remote_node_name = kInvalidName\<rparr>]\<rparr>)"

lemma sample_sel:
  "ct_peers sample_controller = (\<lambda>_. None)" "ct_name sample_controller = Name 1 2"
  "ct_pending_peer_messages sample_controller = (\<lambda>_. None)" "ct_pending_invitations sample_controller = (\<lambda>_. None)"
  "nd_heap (ct_node sample_controller) = [sample_port]" "ct_reserved_ports sample_controller = []"
  "nd_ports (ct_node sample_controller) = (\<lambda>_. None)" "ct_inviter_channel sample_controller = None"
  "ct_channels sample_controller = [\<lparr>nc_channel = Some (channel_new 3), nc_remote_node_name = kInvalidName\<rparr>]"
  by (simp_all add: sample_controller_def controller_new_def generate_random_name_def rng_new_def node_new_def Let_def)

lemma sample_wf: "ct_wf sample_controller"
proof -
  let ?ct = "controller_new (\<lambda>_ _. Name 1 2)"
  have "node_wf (ct_node ?ct)" using ct_wf_new [of "\<lambda>_ _. Name 1 2"] by (simp add: ct_wf_def)
  moreover have "nd_ports (ct_node ?ct) = (\<lambda>_. None)" "nd_peer_port_maps (ct_node ?ct) = (\<lambda>_. None)" "nd_heap (ct_node ?ct) = []"
    by (simp_all add: controller_new_def generate_random_name_def rng_new_def node_new_def)
  ultimately have "node_wf ((ct_node ?ct)\<lparr>nd_heap := [sample_port]\<rparr>)"
    by (auto simp: node_wf_def node_simps peer_ref_def)
  then have "ct_wf (?ct\<lparr>ct_node := (ct_node ?ct)\<lparr>nd_heap := [sample_port]\<rparr>\<rparr>)"
    using ct_wf_new [of "\<lambda>_ _. Name 1 2"] \<open>nd_heap (ct_node ?ct) = []\<close> by (intro ct_wf_node) (simp_all add: ct_wf_def)
  moreover have "ct_channels ?ct = []" by (simp add: controller_new_def split: prod.splits)
  ultimately show ?thesis by (auto simp: sample_controller_def Let_def ct_wf_def channels_ok_def)
qed

text \<open>Two messages are waiting for the peer.\<close>

theorem add_peer_flushes_pending_witness:
  "\<exists>ct'. add_peer (Name 7 7) (Some 0) False
        (sample_controller\<lparr>ct_pending_peer_messages := [Name 7 7 \<mapsto> [protocol_default, protocol_create kUserMessage [1]]]\<rparr>) = Inr ct'
     \<and> ct_peers ct' = [Name 7 7 \<mapsto> 0] \<and> pending_for (Name 7 7) ct' = []
     \<and> outbox (ct_channels ct' ! 0) = [protocol_default, protocol_create kUserMessage [1]]"
  using add_peer_flushes_pending [of 0
      "sample_controller\<lparr>ct_pending_peer_messages := [Name 7 7 \<mapsto> [protocol_default, protocol_create kUserMessage [1]]]\<rparr>" "Name 7 7"]
  by (auto simp: sample_sel is_open_def outbox_def channel_new_def pending_for_def)

section \<open>Routing a user message\<close>

text \<open>The message as it goes out of a port.\<close>

definition outgoing :: "port_ref \<Rightarrow> port \<Rightarrow> user_message \<Rightarrow> protocol" where
  "outgoing r p m = protocol_create kUserMessage (message_bytes (UserMessage
     (m\<lparr>um_to_port_name := pt_peer_port_name p, um_from_port_name := pr_name r\<rparr>)))"

lemma send_user_message_eq:
  assumes "pr_port r = Some a" and "a < length (nd_heap (ct_node ct))" and "ev_message ev = Some (UserMessage m)"
    and "p = nd_heap (ct_node ct) ! a"
  shows "\<exists>ev'. send_user_message fresh r ev ct =
    (if pt_peer_node_name p = ct_name ct then Inr (None, ev', ct)
     else case ct_peers ct (pt_peer_node_name p) of
       Some i \<Rightarrow> rbind (with_channel (Some i) (\<lambda>nc. Inr (send_channel_message (outgoing r p m) nc)) ct) (\<lambda>ct'. Inr (None, ev', ct'))
     | None \<Rightarrow> Inr (None, ev', ct\<lparr>ct_pending_peer_messages := (ct_pending_peer_messages ct)
          (pt_peer_node_name p \<mapsto> pending_for (pt_peer_node_name p) ct @ [outgoing r p m])\<rparr>))"
  using assms
  by (cases "ct_pending_peer_messages ct (pt_peer_node_name p)")
     (auto simp: send_user_message_def node_send_user_message_def send_user_message_internal_def node_simps
      get_user_message_def Let_def forward_event_def send_peer_event_def protocol_of_eq get_peer_channel_def
      outgoing_def pending_for_def um_index_def split: option.splits)

text \<open>
  C11: A user message written to a port goes, with the names of the port and of its peer, to the end of
  the outgoing queue of the peer's node if that is known, and otherwise to the end of the messages
  waiting for that node; but for a peer on the own node it is discarded. The result is never set.
\<close>

theorem user_message_routing:
  assumes "ct_wf ct" and "ref_ok (ct_node ct) r" and "ev_message ev = Some (UserMessage m)"
    and "p = nd_heap (ct_node ct) ! the (pr_port r)" and "pn = pt_peer_node_name p"
  shows "\<exists>ev' ct'. send_user_message fresh r ev ct = Inr (None, ev', ct') \<and> ct_node ct' = ct_node ct \<and>
    (if pn = ct_name ct then ct' = ct
     else case ct_peers ct pn of
       Some i \<Rightarrow> ct_pending_peer_messages ct' = ct_pending_peer_messages ct
         \<and> outbox (ct_channels ct' ! i) = (if is_open (ct_channels ct ! i) then outbox (ct_channels ct ! i) @ [outgoing r p m] else [])
     | None \<Rightarrow> ct_channels ct' = ct_channels ct \<and> pending_for pn ct' = pending_for pn ct @ [outgoing r p m])"
proof -
  obtain a where a: "pr_port r = Some a" "a < length (nd_heap (ct_node ct))" using assms(2) by (auto simp: ref_ok_def)
  then have p: "p = nd_heap (ct_node ct) ! a" using assms(4) by simp
  have "i < length (ct_channels ct)" if "ct_peers ct pn = Some i" for i
    using assms(1) that by (auto simp: ct_wf_def channels_ok_def)
  note peer = this
  obtain ev' where eq: "send_user_message fresh r ev ct =
    (if pn = ct_name ct then Inr (None, ev', ct)
     else case ct_peers ct pn of
       Some i \<Rightarrow> rbind (with_channel (Some i) (\<lambda>nc. Inr (send_channel_message (outgoing r p m) nc)) ct) (\<lambda>ct'. Inr (None, ev', ct'))
     | None \<Rightarrow> Inr (None, ev', ct\<lparr>ct_pending_peer_messages := (ct_pending_peer_messages ct)(pn \<mapsto> pending_for pn ct @ [outgoing r p m])\<rparr>))"
    using send_user_message_eq [OF a assms(3) p, of fresh] unfolding assms(5) by blast
  show ?thesis
  proof (cases "pn = ct_name ct")
    case False
    then show ?thesis
      using eq by (cases "ct_peers ct pn") (simp_all add: peer effect_simps outbox_send pending_for_def)
  qed (simp add: eq)
qed

theorem user_message_routing_witness:
  "\<exists>ev' ct'. send_user_message (\<lambda>_ _. 0) \<lparr>pr_name = Name 4 4, pr_port = Some 0\<rparr>
      (attach_message (UserMessage user_message_default) event_create) sample_controller = Inr (None, ev', ct')
    \<and> length (pending_for (Name 9 9) ct') = 1"
proof -
  have none: "pending_for (Name 9 9) sample_controller = []" by (simp add: pending_for_def sample_sel)
  have pn: "Name 9 9 = pt_peer_node_name sample_port" by (simp add: sample_port_def linked_port_def)
  show ?thesis
    using user_message_routing [OF sample_wf, of "\<lparr>pr_name = Name 4 4, pr_port = Some 0\<rparr>"
        "attach_message (UserMessage user_message_default) event_create" user_message_default sample_port
        "Name 9 9" "\<lambda>_ _. 0", OF _ _ _ pn]
    by (fastforce simp: sample_sel ref_ok_def attach_message_def none)
qed

section \<open>Dropping a peer, accepting one\<close>

lemma om_find_mem: "om_inv m \<Longrightarrow> (k, v) \<in> set m \<Longrightarrow> om_find k m = Some v"
  by (induction m) (auto simp: om_inv_def)

lemma om_erase_absent: "om_find k m = None \<Longrightarrow> om_erase k m = m"
  by (induction m) (auto simp: om_erase_def split: if_splits)

lemma close_ports_total:
  assumes "\<forall>r \<in> set rs. ref_ok (ct_node ct) r"
  shows "\<exists>nd. close_ports rs ct = Inr (ct\<lparr>ct_node := nd\<rparr>)
    \<and> nd_ports nd = (\<lambda>nm. if nm \<in> pr_name ` set rs then None else nd_ports (ct_node ct) nm)
    \<and> nd_heap nd = nd_heap (ct_node ct) \<and> nd_name nd = nd_name (ct_node ct)"
  using assms
proof (induction rs arbitrary: ct)
  case Nil
  show ?case by (intro exI [of _ "ct_node ct"]) simp
next
  case (Cons r rs)
  let ?nd = "erase_port (pr_name r) (ct_node ct)"
  have step: "close_port r (ct_node ct) = Inr (None, ?nd)"
    using Cons.prems by (auto simp: close_port_def ref_ok_def node_simps)
  have ok: "\<forall>r' \<in> set rs. ref_ok (ct_node (ct\<lparr>ct_node := ?nd\<rparr>)) r'"
    using Cons.prems by (simp add: ref_ok_def node_simps)
  obtain nd where nd: "close_ports rs (ct\<lparr>ct_node := ?nd\<rparr>) = Inr (ct\<lparr>ct_node := nd\<rparr>)"
    "nd_ports nd = (\<lambda>nm. if nm \<in> pr_name ` set rs then None else nd_ports ?nd nm)"
    "nd_heap nd = nd_heap ?nd" "nd_name nd = nd_name ?nd"
    using Cons.IH [OF ok] by (auto cong: if_cong)
  then show ?case
    by (intro exI [of _ nd]) (auto simp: step node_simps fun_eq_iff)
qed

text \<open>The ports reserved for a node.\<close>

definition reserved_for :: "node_name \<Rightarrow> controller \<Rightarrow> port_ref list" where
  "reserved_for nm ct = (case om_find nm (ct_reserved_ports ct) of None \<Rightarrow> [] | Some pm \<Rightarrow> map snd pm)"

text \<open>
  Giving up a reference ends the program when it was the last one to a channel that has not been shut
  down. \<open>drop_aborts\<close> says when dropping a node does so: the channel it has as a peer, or over which its
  answer is awaited, is held under no other name.
\<close>

definition dies :: "nat \<Rightarrow> controller \<Rightarrow> bool" where
  "dies c ct \<longleftrightarrow> \<not> referenced c ct \<and> node_channel_destroy (ct_channels ct ! c) \<noteq> Inr ()"

definition drop_aborts :: "node_name \<Rightarrow> controller \<Rightarrow> bool" where
  "drop_aborts nm ct \<longleftrightarrow> (\<exists>c. (ct_peers ct nm = Some c \<or> ct_pending_invitations ct nm = Some c)
     \<and> dies c (ct\<lparr>ct_peers := um_erase nm (ct_peers ct), ct_pending_invitations := um_erase nm (ct_pending_invitations ct)\<rparr>))"

lemma release_channel_Some: "release_channel (Some c) ct = (if dies c ct then Inl PureVirtualCall else Inr ct)"
  by (auto simp: release_channel_def dies_def node_channel_destroy_def channel_destroy_def split: option.splits)

lemma release_channel_eq:
  "release_channel r ct = (if \<exists>c. r = Some c \<and> dies c ct then Inl PureVirtualCall else Inr ct)"
  by (cases r) (simp_all add: release_channel_Some)

lemma ran_um_erase: "m k \<noteq> Some c \<Longrightarrow> c \<in> ran (um_erase k m) \<longleftrightarrow> c \<in> ran m"
  by (auto simp: ran_def um_erase_def)

text \<open>The two erasures of \<^verbatim>\<open>DropPeer\<close> lose a channel when the two together do.\<close>

lemma drop_aborts_steps:
  "drop_aborts nm ct \<longleftrightarrow>
     (\<exists>c. ct_peers ct nm = Some c \<and> dies c (ct\<lparr>ct_peers := um_erase nm (ct_peers ct)\<rparr>))
     \<or> (\<exists>c. ct_pending_invitations ct nm = Some c
          \<and> dies c (ct\<lparr>ct_peers := um_erase nm (ct_peers ct), ct_pending_invitations := um_erase nm (ct_pending_invitations ct)\<rparr>))"
proof -
  have "dies c (ct\<lparr>ct_peers := um_erase nm (ct_peers ct), ct_pending_invitations := um_erase nm (ct_pending_invitations ct)\<rparr>)
      \<longleftrightarrow> dies c (ct\<lparr>ct_peers := um_erase nm (ct_peers ct)\<rparr>)"
    if "ct_pending_invitations ct nm \<noteq> Some c" for c
    using that by (simp add: dies_def referenced_def ran_um_erase)
  moreover have "\<not> dies c (ct\<lparr>ct_peers := um_erase nm (ct_peers ct)\<rparr>)" if "ct_pending_invitations ct nm = Some c" for c
    using that by (auto simp: dies_def referenced_def ran_def)
  ultimately show ?thesis unfolding drop_aborts_def by metis
qed

lemma drop_peer_effect:
  assumes "ct_wf ct"
  obtains "drop_aborts nm ct" and "drop_peer nm ct = Inl PureVirtualCall"
  | nd where "\<not> drop_aborts nm ct" and "drop_peer nm ct = Inr (ct\<lparr>ct_peers := um_erase nm (ct_peers ct),
      ct_pending_peer_messages := um_erase nm (ct_pending_peer_messages ct),
      ct_pending_invitations := um_erase nm (ct_pending_invitations ct),
      ct_reserved_ports := om_erase nm (ct_reserved_ports ct), ct_node := nd\<rparr>)"
    and "nd_ports nd = (\<lambda>x. if x \<in> pr_name ` set (reserved_for nm ct) then None else nd_ports (ct_node ct) x)"
    and "nd_heap nd = nd_heap (ct_node ct)"
proof (cases "drop_aborts nm ct")
  case True
  have "dies c (ct1\<lparr>ct_pending_peer_messages := q\<rparr>) = dies c ct1"
    "dies c (ct1\<lparr>ct_pending_peer_messages := q, ct_pending_invitations := i\<rparr>) = dies c (ct1\<lparr>ct_pending_invitations := i\<rparr>)" for c ct1 q i
    by (simp_all add: dies_def referenced_def)
  then have "drop_peer nm ct = Inl PureVirtualCall"
    using True unfolding drop_aborts_steps by (auto simp: drop_peer_def release_channel_eq)
  with True show thesis by (rule that(1))
next
  case False
  let ?ct1 = "ct\<lparr>ct_peers := um_erase nm (ct_peers ct),
      ct_pending_peer_messages := um_erase nm (ct_pending_peer_messages ct),
      ct_pending_invitations := um_erase nm (ct_pending_invitations ct)\<rparr>"
  have "dies c ?ct1 = dies c (ct\<lparr>ct_peers := um_erase nm (ct_peers ct), ct_pending_invitations := um_erase nm (ct_pending_invitations ct)\<rparr>)" for c
    by (simp add: dies_def referenced_def)
  then have "release_channel (ct_peers ct nm) (ct\<lparr>ct_peers := um_erase nm (ct_peers ct)\<rparr>) = Inr (ct\<lparr>ct_peers := um_erase nm (ct_peers ct)\<rparr>)"
    and "release_channel (ct_pending_invitations ct nm) ?ct1 = Inr ?ct1"
    using False unfolding drop_aborts_steps by (auto simp: release_channel_eq)
  then have drop: "drop_peer nm ct = (case om_find nm (ct_reserved_ports ct) of None \<Rightarrow> Inr ?ct1
      | Some pm \<Rightarrow> close_ports (map snd pm) (?ct1\<lparr>ct_reserved_ports := om_erase nm (ct_reserved_ports ct)\<rparr>))"
    by (simp add: drop_peer_def split: option.split)
  show thesis
  proof (cases "om_find nm (ct_reserved_ports ct)")
    case None
    show thesis
      by (rule that(2) [of "ct_node ct"]) (use False in \<open>simp_all add: drop None om_erase_absent reserved_for_def\<close>)
  next
    case (Some pm)
    have "om_inv pm" "\<And>k r. om_find k pm = Some r \<Longrightarrow> ref_ok (ct_node ct) r"
      using assms Some by (auto simp: ct_wf_def reserved_ok_def)
    then have "\<forall>r \<in> set (map snd pm). ref_ok (ct_node (?ct1\<lparr>ct_reserved_ports := om_erase nm (ct_reserved_ports ct)\<rparr>)) r"
      by (auto dest: om_find_mem)
    from close_ports_total [OF this] show thesis
      using False by (auto simp: drop Some reserved_for_def intro!: that(2))
  qed
qed

text \<open>
  When an answer to an invitation ends the program: an accepted one names a node that is a peer already,
  so that nothing holds the channel it came over once the handler returns; a rejected one drops a node
  whose channel nothing else holds.
\<close>

definition answer_aborts :: "node_name \<Rightarrow> node_name \<Rightarrow> node_name \<Rightarrow> controller \<Rightarrow> bool" where
  "answer_aborts from_node token invitee ct \<longleftrightarrow>
     (if ct_pending_invitations ct from_node \<noteq> None \<and> token = from_node
      then ct_peers ct invitee \<noteq> None \<and> dies (the (ct_pending_invitations ct from_node))
             (ct\<lparr>ct_pending_invitations := um_erase from_node (ct_pending_invitations ct)\<rparr>)
      else drop_aborts from_node ct)"

lemma invitation_accepts_or_drops:
  assumes "ct_wf ct"
  shows "case on_accept_invitation fn token invitee ct of
      Inl f \<Rightarrow> f = PureVirtualCall \<and> answer_aborts fn token invitee ct
    | Inr ct' \<Rightarrow> \<not> answer_aborts fn token invitee ct \<and> ct_pending_invitations ct' fn = None \<and>
    (if ct_pending_invitations ct fn \<noteq> None \<and> token = fn
     then ct_peers ct' invitee = (case ct_peers ct invitee of None \<Rightarrow> ct_pending_invitations ct fn | Some j \<Rightarrow> Some j)
       \<and> (\<forall>nm. nm \<noteq> invitee \<longrightarrow> ct_peers ct' nm = ct_peers ct nm) \<and> ct_node ct' = ct_node ct
       \<and> (\<forall>nm. om_find nm (ct_reserved_ports ct') =
            (if nm = fn then None
             else if nm = invitee \<and> om_find invitee (ct_reserved_ports ct) = None then om_find fn (ct_reserved_ports ct)
             else om_find nm (ct_reserved_ports ct)))
     else ct_peers ct' = (ct_peers ct)(fn := None) \<and> om_find fn (ct_reserved_ports ct') = None
       \<and> nd_ports (ct_node ct') = (\<lambda>x. if x \<in> pr_name ` set (reserved_for fn ct) then None else nd_ports (ct_node ct) x))"
proof (cases "ct_pending_invitations ct fn \<noteq> None \<and> token = fn")
  case True
  then obtain c where c: "ct_pending_invitations ct fn = Some c" and token: "token = fn" by auto
  define ct2 where "ct2 = (case om_find fn (ct_reserved_ports ct) of None \<Rightarrow> ct
      | Some pm \<Rightarrow> ct\<lparr>ct_reserved_ports := om_erase fn (om_emplace invitee pm (ct_reserved_ports ct))\<rparr>)
      \<lparr>ct_pending_invitations := um_erase fn (ct_pending_invitations ct)\<rparr>"
  have inv: "om_inv (ct_reserved_ports ct)" and len: "c < length (ct_channels ct)"
    using assms c by (auto simp: ct_wf_def reserved_ok_def channels_ok_def)
  have sel: "ct_peers ct2 = ct_peers ct" "ct_node ct2 = ct_node ct" "ct_pending_invitations ct2 = um_erase fn (ct_pending_invitations ct)"
    "ct_channels ct2 = ct_channels ct" "ct_inviter_channel ct2 = ct_inviter_channel ct"
    by (simp_all add: ct2_def split: option.splits)
  have res: "om_find nm (ct_reserved_ports ct2) = (if nm = fn then None
      else if nm = invitee \<and> om_find invitee (ct_reserved_ports ct) = None then om_find fn (ct_reserved_ports ct)
      else om_find nm (ct_reserved_ports ct))" for nm
    using inv by (auto simp: ct2_def om.find_erase om.find_emplace om.ok_emplace split: option.splits)
  have eq: "on_accept_invitation fn fn invitee ct = rbind (add_peer invitee (Some c) False ct2) (release_channel (Some c))"
    by (simp add: on_accept_invitation_def c token ct2_def split: option.splits)
  show ?thesis
  proof (cases "ct_peers ct invitee")
    case None
    let ?ct3 = "ct2\<lparr>ct_channels := (ct_channels ct)[c := fold send_channel_message (pending_for invitee ct2) (set_remote_node_name invitee (ct_channels ct ! c))],
      ct_peers := (ct_peers ct)(invitee \<mapsto> c), ct_pending_peer_messages := um_erase invitee (ct_pending_peer_messages ct2)\<rparr>"
    have "add_peer invitee (Some c) False ct2 = Inr ?ct3" using add_peer_new [of c ct2 invitee] len None by (simp add: sel)
    moreover have "referenced c ?ct3" by (auto simp: referenced_def ran_def)
    ultimately show ?thesis using True c None by (simp add: eq answer_aborts_def sel res um_erase_def)
  next
    case (Some j)
    let ?ct3 = "ct2\<lparr>ct_channels := (ct_channels ct)[c := set_remote_node_name invitee (ct_channels ct ! c)]\<rparr>"
    have "add_peer invitee (Some c) False ct2 = Inr ?ct3" using add_peer_known [of c ct2 invitee j] len Some by (simp add: sel)
    moreover have "dies c ?ct3 = dies c (ct\<lparr>ct_pending_invitations := um_erase fn (ct_pending_invitations ct)\<rparr>)"
      using len by (simp add: dies_def referenced_def sel node_channel_destroy_def set_remote_node_name_def)
    ultimately show ?thesis using True c Some by (simp add: eq answer_aborts_def release_channel_Some sel res um_erase_def)
  qed
next
  case False
  then have rej: "on_accept_invitation fn token invitee ct = drop_peer fn ct" "answer_aborts fn token invitee ct = drop_aborts fn ct"
    by (auto simp: on_accept_invitation_def answer_aborts_def split: option.splits)
  from assms show ?thesis
  proof (cases rule: drop_peer_effect [where nm = fn])
    case (2 nd)
    then show ?thesis using False by (auto simp: rej um_erase_def om_find_erase)
  qed (simp add: rej)
qed

text \<open>
  C8: An \<^verbatim>\<open>AcceptInvitation\<close> message admits a peer only when it comes over a channel that is waiting
  for an answer and repeats the token the invitation carried; the ports reserved under the token are
  then reserved under the name of the new peer, unless that name already has some. Any other such
  message drops the sender: it is no peer, has no invitation and no reserved ports afterwards, and those
  ports are closed. The handler does not always survive this: exactly when it gives up the last reference to a
  channel that has not been shut down, of a sender that it drops or of an answer that names a node which is a peer
  already, the destructor of the channel calls a pure virtual function and the program is aborted.
\<close>

theorem invitation_needs_token:
  assumes "ct_wf ct"
  shows "case on_accept_invitation fn token invitee ct of
      Inl f \<Rightarrow> f = PureVirtualCall \<and> answer_aborts fn token invitee ct
    | Inr ct' \<Rightarrow> \<not> answer_aborts fn token invitee ct \<and> ct_pending_invitations ct' fn = None \<and>
    (if ct_pending_invitations ct fn \<noteq> None \<and> token = fn
     then ct_peers ct' invitee = (case ct_peers ct invitee of None \<Rightarrow> ct_pending_invitations ct fn | Some j \<Rightarrow> Some j)
       \<and> (\<forall>nm. nm \<noteq> invitee \<longrightarrow> ct_peers ct' nm = ct_peers ct nm) \<and> ct_node ct' = ct_node ct
       \<and> (\<forall>nm. om_find nm (ct_reserved_ports ct') =
            (if nm = fn then None
             else if nm = invitee \<and> om_find invitee (ct_reserved_ports ct) = None then om_find fn (ct_reserved_ports ct)
             else om_find nm (ct_reserved_ports ct)))
     else ct_peers ct' = (ct_peers ct)(fn := None) \<and> om_find fn (ct_reserved_ports ct') = None
       \<and> nd_ports (ct_node ct') = (\<lambda>x. if x \<in> pr_name ` set (reserved_for fn ct) then None else nd_ports (ct_node ct) x))"
  by (rule invitation_accepts_or_drops [OF assms])

text \<open>The sample process while it waits for an answer: the right token admits the peer, a wrong one aborts.\<close>

definition waiting_controller :: controller where
  "waiting_controller = sample_controller\<lparr>ct_pending_invitations := [Name 7 7 \<mapsto> 0]\<rparr>"

lemma waiting_wf: "ct_wf waiting_controller"
  using sample_wf by (auto simp: waiting_controller_def ct_wf_def channels_ok_def sample_sel)

lemma waiting_aborts:
  "answer_aborts (Name 7 7) (Name 8 8) (Name 6 6) waiting_controller"
  "\<not> answer_aborts (Name 7 7) (Name 7 7) (Name 6 6) waiting_controller"
  by (auto simp: waiting_controller_def answer_aborts_def drop_aborts_def dies_def referenced_def sample_sel ran_def um_erase_def
      node_channel_destroy_def channel_destroy_def channel_new_def)

theorem invitation_needs_token_witness:
  "on_accept_invitation (Name 7 7) (Name 8 8) (Name 6 6) waiting_controller = Inl PureVirtualCall
   \<and> (\<exists>ct'. on_accept_invitation (Name 7 7) (Name 7 7) (Name 6 6) waiting_controller = Inr ct' \<and> ct_peers ct' (Name 6 6) = Some 0)"
proof
  show "on_accept_invitation (Name 7 7) (Name 8 8) (Name 6 6) waiting_controller = Inl PureVirtualCall"
    using invitation_needs_token [OF waiting_wf, of "Name 7 7" "Name 8 8" "Name 6 6"] waiting_aborts(1)
    by (auto split: sum.splits)
  have "ct_peers waiting_controller (Name 6 6) = None" "ct_pending_invitations waiting_controller (Name 7 7) = Some 0"
    by (simp_all add: waiting_controller_def sample_sel)
  then show "\<exists>ct'. on_accept_invitation (Name 7 7) (Name 7 7) (Name 6 6) waiting_controller = Inr ct' \<and> ct_peers ct' (Name 6 6) = Some 0"
    using invitation_needs_token [OF waiting_wf, of "Name 7 7" "Name 7 7" "Name 6 6"] waiting_aborts(2)
    by (auto split: sum.splits)
qed

end
