(* ===== verification/Controller_Faults.thy ===== *)
theory Controller_Faults
  imports Controller_Effects
begin

text \<open>
  The handlers of network messages: what each does when it returns, and the theorem that says exactly
  which messages crash a process, and when.
\<close>

section \<open>The invitee's side\<close>

definition merge_request :: "bytes \<times> port_ref \<Rightarrow> protocol" where
  "merge_request = (\<lambda>(nm, r). protocol_create kRequestPortMerge (message_bytes (RequestPortMerge (pr_name r) nm)))"

lemma request_merges_eq:
  assumes "get_inviter_channel ct = Some i" and "i < length (ct_channels ct)"
  shows "request_merges fresh rs ct = Inr (ct\<lparr>ct_channels :=
    (ct_channels ct)[i := fold send_channel_message (map merge_request rs) (ct_channels ct ! i)]\<rparr>)"
  using assms
proof (induction rs arbitrary: ct)
  case (Cons x rs)
  obtain nm r where x: "x = (nm, r)" by fastforce
  let ?ct1 = "ct\<lparr>ct_channels := (ct_channels ct)[i := send_channel_message (merge_request x) (ct_channels ct ! i)]\<rparr>"
  have "get_inviter_channel ?ct1 = Some i" "i < length (ct_channels ?ct1)"
    using Cons.prems by (simp_all add: get_inviter_channel_def get_peer_channel_def)
  from Cons.IH [OF this] show ?case
    using Cons.prems by (simp add: x effect_simps merge_request_def)
qed simp

lemma handle_pending_merge_port_eq:
  assumes "get_inviter_channel ct = Some i" and "i < length (ct_channels ct)"
  shows "handle_pending_merge_port fresh ct = Inr (ct\<lparr>ct_pending_port_merges := [], ct_channels :=
    (ct_channels ct)[i := fold send_channel_message (map merge_request (ct_pending_port_merges ct)) (ct_channels ct ! i)]\<rparr>)"
proof -
  have "get_inviter_channel (ct\<lparr>ct_pending_port_merges := []\<rparr>) = Some i"
    using assms(1) by (simp add: get_inviter_channel_def get_peer_channel_def)
  from request_merges_eq [OF this] assms(2) show ?thesis by (simp add: handle_pending_merge_port_def)
qed

text \<open>The answer to an invitation, as the channel holds it.\<close>

definition answer :: "node_name \<Rightarrow> node_name \<Rightarrow> node_name \<Rightarrow> node_channel \<Rightarrow> node_channel" where
  "answer inviter token nm nc =
     send_channel_message (protocol_create kAcceptInvitation (message_bytes (AcceptInvitation token nm)))
       (set_remote_node_name inviter nc)"

lemma on_accept_invitee_new:
  assumes "ct_inviter_channel ct = Some c" and "c < length (ct_channels ct)" and "ct_peers ct inviter = None"
  shows "on_accept_invitee fresh fn inviter token ct = Inr (ct\<lparr>ct_inviter_name := inviter,
      ct_peers := (ct_peers ct)(inviter \<mapsto> c),
      ct_pending_peer_messages := um_erase inviter (ct_pending_peer_messages ct),
      ct_pending_port_merges := [],
      ct_channels := (ct_channels ct)[c := fold send_channel_message (map merge_request (ct_pending_port_merges ct))
        (fold send_channel_message (pending_for inviter ct)
          (set_remote_node_name inviter (answer inviter token (ct_name ct) (ct_channels ct ! c))))]\<rparr>)"
proof -
  let ?ct3 = "ct\<lparr>ct_inviter_name := inviter, ct_channels := (ct_channels ct)[c := answer inviter token (ct_name ct) (ct_channels ct ! c)]\<rparr>"
  let ?ct4 = "?ct3\<lparr>ct_channels := (ct_channels ct)[c := fold send_channel_message (pending_for inviter ct)
        (set_remote_node_name inviter (answer inviter token (ct_name ct) (ct_channels ct ! c)))],
      ct_peers := (ct_peers ct)(inviter \<mapsto> c), ct_pending_peer_messages := um_erase inviter (ct_pending_peer_messages ct)\<rparr>"
  have "add_peer inviter (Some c) False ?ct3 = Inr ?ct4"
    using add_peer_new [of c ?ct3 inviter] assms by (simp add: pending_for_def)
  moreover have "get_inviter_channel ?ct4 = Some c" by (simp add: get_inviter_channel_def get_peer_channel_def)
  ultimately show ?thesis
    using assms handle_pending_merge_port_eq [of ?ct4 c fresh]
    by (simp add: on_accept_invitee_def effect_simps answer_def)
qed

lemma on_accept_invitee_known:
  assumes "ct_inviter_channel ct = Some c" and "c < length (ct_channels ct)" and "ct_peers ct inviter = Some i"
    and "i < length (ct_channels ct)"
  shows "\<exists>ct'. on_accept_invitee fresh fn inviter token ct = Inr ct'"
proof -
  let ?ct4 = "ct\<lparr>ct_inviter_name := inviter, ct_channels :=
    (ct_channels ct)[c := set_remote_node_name inviter (answer inviter token (ct_name ct) (ct_channels ct ! c))]\<rparr>"
  let ?ct3 = "ct\<lparr>ct_inviter_name := inviter, ct_channels := (ct_channels ct)[c := answer inviter token (ct_name ct) (ct_channels ct ! c)]\<rparr>"
  have "add_peer inviter (Some c) False ?ct3 = Inr ?ct4"
    using add_peer_known [of c ?ct3 inviter i] assms by simp
  moreover have "get_inviter_channel ?ct4 = Some i" using assms(3) by (simp add: get_inviter_channel_def get_peer_channel_def)
  ultimately show ?thesis
    using assms handle_pending_merge_port_eq [of ?ct4 i fresh]
    by (simp add: on_accept_invitee_def effect_simps answer_def)
qed

lemma on_accept_invitee_total:
  assumes "ct_wf ct" and "ct_inviter_channel ct = Some c"
  shows "\<exists>ct'. on_accept_invitee fresh fn inviter token ct = Inr ct'"
proof -
  have c: "c < length (ct_channels ct)" using assms by (simp add: ct_wf_def channels_ok_def)
  show ?thesis
  proof (cases "ct_peers ct inviter")
    case (Some i)
    then have "i < length (ct_channels ct)" using assms(1) by (auto simp: ct_wf_def channels_ok_def)
    with Some show ?thesis using on_accept_invitee_known [OF assms(2) c] by blast
  qed (use on_accept_invitee_new [OF assms(2) c] in blast)
qed

lemma on_accept_invitee_uninvited:
  "ct_inviter_channel ct = None \<Longrightarrow> on_accept_invitee fresh fn inviter token ct = Inl NullDeref"
  by (simp add: on_accept_invitee_def effect_simps)

section \<open>Merging\<close>

lemma merge_ports_total:
  assumes "\<And>nm p. nd_ports nd nm = Some p \<Longrightarrow> \<exists>a < length (nd_heap nd). p = Some a" and "ref_ok nd r"
  shows "\<exists>e nm nd'. merge_ports r dn dp nd = Inr (e, nm, nd')"
proof -
  obtain b where b: "pr_port r = Some b" "b < length (nd_heap nd)" using assms(2) by (auto simp: ref_ok_def)
  let ?nd1 = "erase_port (pr_name r) nd" and ?lp = "pt_peer_port_name (nd_heap nd ! b)"
  show ?thesis
  proof (cases "nd_ports ?nd1 ?lp")
    case None
    then show ?thesis using b by (simp add: merge_ports_def node_simps)
  next
    case (Some p)
    then obtain a where a: "p = Some a" "a < length (nd_heap nd)"
      using assms(1) [of ?lp p] by (auto simp: node_simps split: if_splits)
    then show ?thesis
      using b Some by (simp add: merge_ports_def update_port_peer_address_def node_simps case_prod_beta Let_def)
  qed
qed

lemma on_request_port_merge_total:
  assumes "ct_wf ct" and "om_find fn (ct_reserved_ports ct) = Some pm" and "om_find nm pm = Some r"
  shows "on_request_port_merge fresh fn connector nm ct = Inl NullDeref \<and> ct_peers ct fn = None
    \<or> (\<exists>ct'. on_request_port_merge fresh fn connector nm ct = Inr ct') \<and> ct_peers ct fn \<noteq> None"
proof -
  have "node_wf (ct_node ct)" "ref_ok (ct_node ct) r" using assms by (auto simp: ct_wf_def reserved_ok_def)
  then obtain e ln nd where m: "merge_ports r fn connector (ct_node ct) = Inr (e, ln, nd)"
    using merge_ports_total [of "ct_node ct" r] by (metis node_wf_ports)
  have "i < length (ct_channels ct)" if "ct_peers ct fn = Some i" for i
    using assms(1) that by (auto simp: ct_wf_def channels_ok_def)
  then show ?thesis
    using assms m by (cases "ct_peers ct fn") (simp_all add: on_request_port_merge_steps ctl_simps effect_simps)
qed

lemma merge_ports_response_total:
  assumes "node_wf nd" and "nd_ports nd connector = Some (Some a)"
  shows "merge_ports_response connector dn dp nd = Inl NullDeref
      \<and> peer_ref nd (nd_name nd) connector (pt_peer_port_name (nd_heap nd ! a)) = None
    \<or> (\<exists>nd'. merge_ports_response connector dn dp nd = Inr (0, nd'))
      \<and> peer_ref nd (nd_name nd) connector (pt_peer_port_name (nd_heap nd ! a)) \<noteq> None"
proof -
  let ?lp = "pt_peer_port_name (nd_heap nd ! a)"
  have a: "a < length (nd_heap nd)" using node_wf_ports [OF assms] by auto
  have inv: "refs_inv nd" using assms(1) by (simp add: node_wf_def)
  obtain r nd1 where idx: "index_peer (nd_name nd) connector ?lp nd = (r, nd1)" by fastforce
  then have r: "r = (case peer_ref nd (nd_name nd) connector ?lp of None \<Rightarrow> port_ref_default | Some r \<Rightarrow> r)"
    using index_peer_spec [OF inv, of "nd_name nd" connector ?lp] by simp
  have nd1: "nd_ports nd1 = nd_ports nd" "nd_heap nd1 = nd_heap nd"
    using idx by (auto simp: index_peer_def split: prod.splits)
  have eq: "merge_ports_response connector dn dp nd = rbind (merge_ports r dn dp nd1) (\<lambda>(_, _, nd2). Inr (0, nd2))"
    using assms(2) a idx by (simp add: merge_ports_response_def node_simps)
  show ?thesis
  proof (cases "peer_ref nd (nd_name nd) connector ?lp")
    case None
    then show ?thesis using r eq by (simp add: merge_ports_def port_ref_default_def node_simps)
  next
    case (Some r')
    then have "ref_ok nd1 r" using assms(1) r nd1 by (simp add: node_wf_def ref_ok_def)
    then obtain e ln nd2 where "merge_ports r dn dp nd1 = Inr (e, ln, nd2)"
      using merge_ports_total [of nd1 r] node_wf_ports [OF assms(1)] nd1 by metis
    then show ?thesis using Some eq by simp
  qed
qed

section \<open>Every message\<close>

text \<open>The queue of a port with a message added.\<close>

definition deliver_to :: "nat \<Rightarrow> user_message \<Rightarrow> ports_node \<Rightarrow> ports_node" where
  "deliver_to a m nd = nd\<lparr>nd_heap := (nd_heap nd)[a := (nd_heap nd ! a)\<lparr>pt_message_queue :=
     (pt_message_queue (nd_heap nd ! a))\<lparr>mq_heap := mq_heap (pt_message_queue (nd_heap nd ! a)) @ [m]\<rparr>\<rparr>]\<rparr>"

lemma ct_on_user_message_eq:
  assumes "node_wf (ct_node ct)"
  shows "ct_on_user_message fn m ct =
    (case nd_ports (ct_node ct) (um_to_port_name m) of
       None \<Rightarrow> Inl NullDeref
     | Some p \<Rightarrow> Inr (ct\<lparr>ct_node := deliver_to (the p) m (ct_node ct)\<rparr>))"
proof (cases "nd_ports (ct_node ct) (um_to_port_name m)")
  case None
  then show ?thesis by (simp add: ct_on_user_message_def attach_message_def node_on_user_message_def get_user_message_def um_index_def node_simps)
next
  case (Some p)
  then obtain a where a: "p = Some a" "a < length (nd_heap (ct_node ct))" using node_wf_ports [OF assms] by blast
  then show ?thesis using Some
    by (simp add: ct_on_user_message_def attach_message_def node_on_user_message_def get_user_message_def um_index_def
        node_simps set_port_def accept_message_def deliver_to_def)
qed

text \<open>A received message of the library, in its envelope.\<close>

definition envelope :: "message \<Rightarrow> u32 \<Rightarrow> protocol" where
  "envelope m len = (protocol_create (message_type m) (message_bytes m))\<lparr>p_content_length := len\<rparr>"

lemma receive_eq:
  assumes "c < length (ct_channels ct)" and "length (message_bytes m) < 128"
  shows "receive fresh c (envelope m len) ct =
    delivery (controller_delegate fresh) (nc_remote_node_name (ct_channels ct ! c)) m ct"
  using assms
  by (simp add: receive_def deref_channel_def envelope_def on_channel_message_delivers protocol_create_def)

text \<open>
  C6: In every state a controller can reach, every channel its tables mention exists, every port it
  has reserved or is waiting to merge is allocated, its node knows it by the same name, and the node's
  own invariant holds: whatever messages arrive, in whatever order, well-formed or not.
\<close>

theorem controller_invariant:
  assumes "ct_reach fresh ct"
  shows "(\<forall>nm c. ct_peers ct nm = Some c \<or> ct_pending_invitations ct nm = Some c \<or> ct_inviter_channel ct = Some c
        \<longrightarrow> c < length (ct_channels ct))
    \<and> (\<forall>nm pm k r. om_find nm (ct_reserved_ports ct) = Some pm \<and> om_find k pm = Some r
        \<longrightarrow> (\<exists>a < length (nd_heap (ct_node ct)). pr_port r = Some a))
    \<and> (\<forall>(k, r) \<in> set (ct_pending_port_merges ct). \<exists>a < length (nd_heap (ct_node ct)). pr_port r = Some a)
    \<and> nd_name (ct_node ct) = ct_name ct \<and> node_wf (ct_node ct)"
  using ct_reach_wf [OF assms] by (auto simp: ct_wf_def channels_ok_def reserved_ok_def ref_ok_def)

text \<open>
  C5: In every reachable state, a well-formed message of this library either is handled or ends the
  process, and it ends it exactly so: with a null pointer, when it is an invitation and this process has
  not called \<^verbatim>\<open>AcceptInvitation\<close>; or a request for a reserved port from a node that is not a peer; or
  the answer to a merge for a port whose pair is not at this node; or a user message for an unknown
  port; or an \<^verbatim>\<open>AcceptPeer\<close> message, always. And with a pure virtual call, when it is an answer to an invitation that
  makes the process give up the last reference to a channel that has not been shut down: a rejected answer from a
  node whose channel is held under no other name, or an accepted one that names a node which is a peer already.
\<close>

theorem receive_faults_exactly:
  assumes "ct_reach fresh ct" and "c < length (ct_channels ct)" and "length (message_bytes m) < 128"
    and "remote = nc_remote_node_name (ct_channels ct ! c)"
  shows "receive fresh c (envelope m len) ct = Inl f \<longleftrightarrow>
        (case m of
           AcceptInvitee token inviter \<Rightarrow> f = NullDeref \<and> ct_inviter_channel ct = None
         | AcceptInvitation token invitee \<Rightarrow> f = PureVirtualCall \<and> answer_aborts remote token invitee ct
         | AcceptPeer token peer pn \<Rightarrow> f = NullDeref
         | RequestPortMerge connector nm \<Rightarrow> f = NullDeref \<and> ct_peers ct remote = None
             \<and> (\<exists>pm r. om_find remote (ct_reserved_ports ct) = Some pm \<and> om_find nm pm = Some r)
         | ResponsePortMerge connector pn \<Rightarrow> f = NullDeref \<and> (\<exists>a. nd_ports (ct_node ct) connector = Some (Some a)
             \<and> peer_ref (ct_node ct) (ct_name ct) connector (pt_peer_port_name (nd_heap (ct_node ct) ! a)) = None)
         | UserMessage u \<Rightarrow> f = NullDeref \<and> nd_ports (ct_node ct) (um_to_port_name u) = None)"
proof -
  have wf: "ct_wf ct" using assms(1) by (rule ct_reach_wf)
  then have nd: "node_wf (ct_node ct)" "nd_name (ct_node ct) = ct_name ct" by (simp_all add: ct_wf_def)
  have rec: "receive fresh c (envelope m len) ct = delivery (controller_delegate fresh) remote m ct"
    using receive_eq [OF assms(2,3)] assms(4) by simp
  show ?thesis
  proof (cases m)
    case (AcceptInvitee token inviter)
    then show ?thesis
      using on_accept_invitee_total [OF wf, of _ fresh remote inviter token]
      by (cases "ct_inviter_channel ct") (auto simp: rec [unfolded AcceptInvitee] controller_delegate_def on_accept_invitee_uninvited)
  next
    case (AcceptInvitation token invitee)
    then show ?thesis
      using invitation_accepts_or_drops [OF wf, of remote token invitee]
      by (auto simp: rec [unfolded AcceptInvitation] controller_delegate_def split: sum.splits)
  next
    case (RequestPortMerge connector nm)
    show ?thesis
    proof (cases "\<exists>pm r. om_find remote (ct_reserved_ports ct) = Some pm \<and> om_find nm pm = Some r")
      case True
      then show ?thesis
        using RequestPortMerge on_request_port_merge_total [OF wf, of remote _ nm _ fresh connector]
        by (auto simp: rec [unfolded RequestPortMerge] controller_delegate_def)
    next
      case False
      then have "on_request_port_merge fresh remote connector nm ct = Inr ct"
        by (auto simp: on_request_port_merge_def split: option.splits)
      with False show ?thesis using RequestPortMerge by (auto simp: rec [unfolded RequestPortMerge] controller_delegate_def)
    qed
  next
    case (ResponsePortMerge connector pn)
    show ?thesis
    proof (cases "nd_ports (ct_node ct) connector")
      case None
      then show ?thesis using ResponsePortMerge
        by (simp add: rec [unfolded ResponsePortMerge] controller_delegate_def on_response_port_merge_def merge_ports_response_def)
    next
      case (Some p)
      then obtain a where "p = Some a" using node_wf_ports [OF nd(1)] by blast
      with Some show ?thesis
        using ResponsePortMerge merge_ports_response_total [OF nd(1), of connector a remote pn]
        by (auto simp: rec [unfolded ResponsePortMerge] controller_delegate_def on_response_port_merge_def nd(2))
    qed
  next
    case (UserMessage u)
    show ?thesis
    proof (cases "nd_ports (ct_node ct) (um_to_port_name u)")
      case None
      then show ?thesis using UserMessage ct_on_user_message_eq [of ct remote u] nd(1)
        by (auto simp: rec [unfolded UserMessage] controller_delegate_def)
    next
      case (Some p)
      then obtain a where "p = Some a" using node_wf_ports [OF nd(1)] by blast
      with Some show ?thesis using UserMessage ct_on_user_message_eq [of ct remote u] nd(1)
        by (auto simp: rec [unfolded UserMessage] controller_delegate_def)
    qed
  next
    case (AcceptPeer token peer pn)
    then show ?thesis by (auto simp: rec [unfolded AcceptPeer])
  qed
qed

text \<open>A process that has opened a channel to invite another, with nothing attached.\<close>

definition inviting_controller :: controller where
  "inviting_controller =
     (case send_invitation (\<lambda>_ _. 0) 3 [] (set_io_task_runner (Some io_new) (controller_new (\<lambda>c _. Name (of_nat c) 7))) of
        Inr ct \<Rightarrow> ct | Inl _ \<Rightarrow> controller_new (\<lambda>_ _. kInvalidName))"

lemma inviting_reach: "ct_reach (\<lambda>_ _. 0) inviting_controller"
  using cr_send_invitation [OF cr_io [OF cr_new], of "[]" "\<lambda>c _. Name (of_nat c) 7" "\<lambda>_ _. 0" 3] cr_new
  by (auto simp: inviting_controller_def split: sum.splits)

lemma inviting_channels:
  "length (ct_channels inviting_controller) = 1" "ct_inviter_channel inviting_controller = None"
  by (simp_all add: inviting_controller_def send_invitation_def controller_new_def set_io_task_runner_def rng_new_def
      generate_random_name_def node_new_def create_channel_def node_channel_create_def channel_create_def Let_def effect_simps
      start_channel_of_def deref_channel_def nc_start_def set_remote_node_name_def channel_start_def channel_new_def
      om_index_def case_prod_beta release_channel_def referenced_def ran_def um_emplace_def)

text \<open>A peer that has not accepted the invitation and sends the wrong token: its channel is held nowhere else.\<close>

definition open_to :: "node_name \<Rightarrow> controller \<Rightarrow> bool" where
  "open_to nm ct \<longleftrightarrow> ct_pending_invitations ct nm = Some 0 \<and> ct_peers ct = (\<lambda>_. None) \<and> ct_inviter_channel ct = None
     \<and> nc_remote_node_name (ct_channels ct ! 0) = nm \<and> node_channel_destroy (ct_channels ct ! 0) = Inl PureVirtualCall"

lemma inviting_open: "\<exists>nm. open_to nm inviting_controller \<and> ct_pending_invitations inviting_controller = [nm \<mapsto> 0]"
  by (simp add: open_to_def inviting_controller_def send_invitation_def controller_new_def set_io_task_runner_def rng_new_def
      generate_random_name_def node_new_def create_channel_def node_channel_create_def channel_create_def Let_def effect_simps
      start_channel_of_def deref_channel_def nc_start_def set_remote_node_name_def channel_start_def channel_new_def
      om_index_def case_prod_beta um_emplace_def send_channel_message_def write_channel_message_def channel_write_def
      node_channel_destroy_def channel_destroy_def release_channel_def referenced_def ran_def fun_upd_def)

theorem controller_invariant_witness:
  "\<exists>nm c. ct_pending_invitations inviting_controller nm = Some c \<and> c < length (ct_channels inviting_controller)
     \<and> node_wf (ct_node inviting_controller)"
proof -
  obtain nm where nm: "ct_pending_invitations inviting_controller nm = Some 0" using inviting_open unfolding open_to_def by blast
  from controller_invariant [OF inviting_reach] nm show ?thesis by blast
qed

theorem receive_faults_exactly_witness:
  "receive (\<lambda>_ _. 0) 0 (envelope (AcceptInvitee (Name 1 1) (Name 2 2)) 32) inviting_controller = Inl NullDeref
   \<and> (\<exists>token. receive (\<lambda>_ _. 0) 0 (envelope (AcceptInvitation token (Name 2 2)) 32) inviting_controller = Inl PureVirtualCall)"
proof
  have "length (message_bytes (AcceptInvitee (Name 1 1) (Name 2 2))) < 128"
    by (simp add: name_bytes_def)
  from receive_faults_exactly [OF inviting_reach _ this refl, of 0 32] show
    "receive (\<lambda>_ _. 0) 0 (envelope (AcceptInvitee (Name 1 1) (Name 2 2)) 32) inviting_controller = Inl NullDeref"
    by (auto simp: inviting_channels)
next
  obtain nm where nm: "open_to nm inviting_controller" "ct_pending_invitations inviting_controller = [nm \<mapsto> 0]"
    using inviting_open by blast
  obtain token where token: "token \<noteq> nm" by (cases nm) (metis name.inject zero_neq_one)
  have "length (message_bytes (AcceptInvitation token (Name 2 2))) < 128" by (simp add: name_bytes_def)
  note exact = receive_faults_exactly [OF inviting_reach _ this refl, of 0 32]
  have "answer_aborts nm token (Name 2 2) inviting_controller"
    using nm token by (auto simp: open_to_def answer_aborts_def drop_aborts_def dies_def referenced_def ran_def um_erase_def)
  then show "\<exists>token. receive (\<lambda>_ _. 0) 0 (envelope (AcceptInvitation token (Name 2 2)) 32) inviting_controller = Inl PureVirtualCall"
    using exact [of PureVirtualCall] nm(1) inviting_channels(1) by (auto simp: open_to_def)
qed

end
