(* ===== verification/Link.thy ===== *)
theory Link
  imports Controller_Faults
begin

text \<open>
  Two processes connected by a socket. An exchange carries everything one channel has queued to the
  other process and runs its handlers; the theorem here says that the channel code does just that
  over bytes, in whatever pieces they arrive.
\<close>

section \<open>Reading until the stream is used up\<close>

fun handle_all :: "(protocol \<Rightarrow> 's \<Rightarrow> 's res) \<Rightarrow> protocol list \<Rightarrow> 's \<Rightarrow> 's res" where
  "handle_all handle [] s = Inr s"
| "handle_all handle (p # ps) s = rbind (handle p s) (\<lambda>s1. handle_all handle ps s1)"

text \<open>The event loop calls \<^verbatim>\<open>OnFdReadable\<close> once for each message.\<close>

fun read_events :: "(nat \<Rightarrow> nat \<Rightarrow> byte) \<Rightarrow> (nat \<Rightarrow> byte) \<Rightarrow> (protocol \<Rightarrow> 's \<Rightarrow> 's res) \<Rightarrow> channel \<Rightarrow> nat
    \<Rightarrow> rx list \<Rightarrow> 's \<Rightarrow> ('s \<times> rx list) res option" where
  "read_events fresh junk handle ch 0 q s = Some (Inr (s, q))"
| "read_events fresh junk handle ch (Suc n) q s =
     (case on_fd_readable fresh junk handle ch q s of
        None \<Rightarrow> None
      | Some (Inl f) \<Rightarrow> Some (Inl f)
      | Some (Inr (s1, q1)) \<Rightarrow> read_events fresh junk handle ch n q1 s1)"

lemma read_events_eq:
  assumes "ch_delegate ch" and "read_many fresh junk n q = Some (Inr (ps, q'))"
  shows "read_events fresh junk handle ch n q s = Some (rbind (handle_all handle ps s) (\<lambda>s'. Inr (s', q')))"
  using assms(2)
proof (induction n arbitrary: q s ps)
  case (Suc n)
  obtain p q1 ps' where p: "read_protocol fresh junk q = Some (Inr (p, q1))" "read_many fresh junk n q1 = Some (Inr (ps', q'))"
    "ps = p # ps'"
    using Suc.prems by (auto split: option.splits sum.splits)
  show ?case using Suc.IH [OF p(2)] p(1,3) assms(1) by (cases "handle p s") (simp_all add: on_fd_readable_def)
qed simp

section \<open>Exchanges\<close>

definition emptied :: "node_channel \<Rightarrow> node_channel" where
  "emptied nc = nc\<lparr>nc_channel := map_option (\<lambda>ch. ch\<lparr>ch_writing_protocol := []\<rparr>) (nc_channel nc)\<rparr>"

definition exchange :: "(nat \<Rightarrow> nat \<Rightarrow> byte) \<Rightarrow> nat \<Rightarrow> controller \<Rightarrow> nat \<Rightarrow> controller \<Rightarrow> (controller \<times> controller) res" where
  "exchange fresh i s j t =
     rbind (handle_all (receive fresh j) (map arrived (outbox (ct_channels s ! i))) t) (\<lambda>t'.
       Inr (s\<lparr>ct_channels := (ct_channels s)[i := emptied (ct_channels s ! i)]\<rparr>, t'))"

lemma outbox_emptied [simp]: "outbox (emptied nc) = []"
  and open_emptied [simp]: "is_open (emptied nc) = is_open nc"
  and remote_emptied [simp]: "nc_remote_node_name (emptied nc) = nc_remote_node_name nc"
  by (simp_all add: emptied_def outbox_def is_open_def split: option.splits)

lemma exchange_over_socket:
  assumes "nc_channel (ct_channels s ! i) = Some ch" and "nc_channel (ct_channels t ! j) = Some ch'" and "ch_delegate ch'"
    and "list_all sendable (ch_writing_protocol ch)"
    and "list_all2 arrives qs (ch_writing_protocol ch)"
  shows "\<exists>ch1. on_fd_writeable fresh ch (map (\<lambda>p. TOk (length (protocol_bytes p))) (ch_writing_protocol ch))
        = Some (Inr (ch1, rx_bytes (concat (map (\<lambda>(qh, qb). qh @ qb) qs)), []))
    \<and> (case read_events fresh' junk (receive fresh' j) ch' (length qs) (concat (map (\<lambda>(qh, qb). qh @ qb) qs)) t of
         None \<Rightarrow> False
       | Some (Inl f) \<Rightarrow> exchange fresh' i s j t = Inl f
       | Some (Inr (t', rest)) \<Rightarrow> exchange fresh' i s j t =
           Inr (s\<lparr>ct_channels := (ct_channels s)[i := (ct_channels s ! i)\<lparr>nc_channel := Some ch1\<rparr>]\<rparr>, t'))"
proof (intro exI [of _ "ch\<lparr>ch_writing_protocol := []\<rparr>"] conjI)
  let ?ps = "ch_writing_protocol ch" and ?qs = "concat (map (\<lambda>(qh, qb). qh @ qb) qs)"
  have "rx_bytes ?qs = concat (map protocol_bytes ?ps)"
    using assms(5) by (induction rule: list_all2_induct) (auto simp: arrives_def)
  then show "on_fd_writeable fresh ch (map (\<lambda>p. TOk (length (protocol_bytes p))) ?ps) =
      Some (Inr (ch\<lparr>ch_writing_protocol := []\<rparr>, rx_bytes ?qs, []))"
    using flush_all [of fresh ?ps "[]"] by (simp add: on_fd_writeable_def)
  obtain rest where "read_many fresh' junk (length ?ps) ?qs = Some (Inr (map arrived ?ps, rest))"
    using read_many_whole [OF assms(5,4), of "[]" fresh' junk "[]"] by auto
  moreover have "length qs = length ?ps" using assms(5) by (rule list_all2_lengthD)
  ultimately have eq: "read_events fresh' junk (receive fresh' j) ch' (length qs) ?qs t =
      Some (rbind (handle_all (receive fresh' j) (map arrived ?ps) t) (\<lambda>t'. Inr (t', rest)))"
    using read_events_eq [OF assms(3)] by metis
  have ex: "exchange fresh' i s j t = rbind (handle_all (receive fresh' j) (map arrived ?ps) t) (\<lambda>t'.
      Inr (s\<lparr>ct_channels := (ct_channels s)[i := (ct_channels s ! i)\<lparr>nc_channel := Some (ch\<lparr>ch_writing_protocol := []\<rparr>)\<rparr>]\<rparr>, t'))"
    using assms(1) by (simp add: exchange_def outbox_def emptied_def)
  show "case read_events fresh' junk (receive fresh' j) ch' (length qs) ?qs t of
         None \<Rightarrow> False
       | Some (Inl f) \<Rightarrow> exchange fresh' i s j t = Inl f
       | Some (Inr (t', rest)) \<Rightarrow> exchange fresh' i s j t =
           Inr (s\<lparr>ct_channels := (ct_channels s)[i := (ct_channels s ! i)\<lparr>nc_channel := Some (ch\<lparr>ch_writing_protocol := []\<rparr>)\<rparr>]\<rparr>, t')"
    unfolding eq ex by (cases "handle_all (receive fresh' j) (map arrived ?ps) t") simp_all
qed

text \<open>
  C7: When one end writes all it has queued to a socket that takes it, and the bytes reach the other
  end in any pieces, interrupted any number of times, then reading there runs the handlers exactly as
  the exchange of the two controllers does, or faults with the same fault, and leaves the sender with
  an empty queue.
\<close>

theorem sockets_implement_exchange:
  assumes "nc_channel (ct_channels s ! i) = Some ch" and "nc_channel (ct_channels t ! j) = Some ch'" and "ch_delegate ch'"
    and "list_all sendable (ch_writing_protocol ch)"
    and "list_all2 arrives qs (ch_writing_protocol ch)"
  shows "\<exists>ch1. on_fd_writeable fresh ch (map (\<lambda>p. TOk (length (protocol_bytes p))) (ch_writing_protocol ch))
        = Some (Inr (ch1, rx_bytes (concat (map (\<lambda>(qh, qb). qh @ qb) qs)), []))
    \<and> (case read_events fresh' junk (receive fresh' j) ch' (length qs) (concat (map (\<lambda>(qh, qb). qh @ qb) qs)) t of
         None \<Rightarrow> False
       | Some (Inl f) \<Rightarrow> exchange fresh' i s j t = Inl f
       | Some (Inr (t', rest)) \<Rightarrow> exchange fresh' i s j t =
           Inr (s\<lparr>ct_channels := (ct_channels s)[i := (ct_channels s ! i)\<lparr>nc_channel := Some ch1\<rparr>]\<rparr>, t'))"
  by (rule exchange_over_socket [OF assms])

theorem sockets_implement_exchange_witness:
  "read_events (\<lambda>_ _. 0) (\<lambda>_. 0) (receive (\<lambda>_ _. 0) 0) (channel_new 3) 1
     [RData [0xcc, 1], RErr EINTR, RData [9, 2, 0, 0, 0, 2, 0, 0, 0], RData [104], RData [105]] sample_controller \<noteq> None"
proof -
  let ?p = "\<lparr>p_magic = 0xcc, p_version = 1, p_type = 9, p_content_length = 2, p_data = [104, 105 :: byte]\<rparr>"
  have bytes: "protocol_bytes ?p = [0xcc, 1, 9, 2, 0, 0, 0, 2, 0, 0, 0, 104, 105]"
    by code_simp
  have "arrives ([RData [0xcc, 1], RErr EINTR, RData [9, 2, 0, 0, 0, 2, 0, 0, 0]], [RData [104], RData [105]]) ?p"
    by (simp add: arrives_def bytes kBaseLen_def)
  then show ?thesis
    using sockets_implement_exchange [of "sample_controller\<lparr>ct_channels := [\<lparr>nc_channel = Some ((channel_new 3)\<lparr>ch_writing_protocol := [?p]\<rparr>),
          nc_remote_node_name = Name 0 0\<rparr>]\<rparr>" 0 "(channel_new 3)\<lparr>ch_writing_protocol := [?p]\<rparr>" sample_controller 0 "channel_new 3"
        "[([RData [0xcc, 1], RErr EINTR, RData [9, 2, 0, 0, 0, 2, 0, 0, 0]], [RData [104], RData [105]])]" "\<lambda>_ _. 0" "\<lambda>_ _. 0" "\<lambda>_. 0"]
    by (auto simp: sample_sel sendable_def channel_new_def split: option.splits)
qed

end
