(* ===== verification/Core_Api.thy ===== *)
theory Core_Api
  imports Node_Controller_Spec
begin

text \<open>
  The public interface of a process: \<^verbatim>\<open>handle_table.cc\<close>, the dispatchers and \<^verbatim>\<open>core.cc\<close> of
  \<^verbatim>\<open>src/core/\<close>. Dispatchers are shared objects and live in a store; a handle is a 64-bit number, 0 being
  invalid. A result code that is indeterminate (a function that forgets to return) is \<open>None\<close>. Out
  parameters are passed in and returned, so that a caller sees when one was not written.
\<close>

section \<open>Handles\<close>

record entry =
  en_dispatcher :: nat
  en_busy :: bool

record handle_table =
  ht_handles :: "u64 \<rightharpoonup> entry"
  ht_next_available_handle :: u64

definition MOJO_HANDLE_INVALID :: u64 where "MOJO_HANDLE_INVALID = 0"

definition handle_table_new :: handle_table where
  "handle_table_new = \<lparr>ht_handles = (\<lambda>_. None), ht_next_available_handle = 1\<rparr>"

definition ht_add_dispatcher :: "nat \<Rightarrow> handle_table \<Rightarrow> u64 \<times> handle_table" where
  "ht_add_dispatcher d ht =
     (if ht_next_available_handle ht = MOJO_HANDLE_INVALID then (MOJO_HANDLE_INVALID, ht)
      else let handle = ht_next_available_handle ht;
               ht1 = ht\<lparr>ht_next_available_handle := handle + 1\<rparr>
           in if ht_handles ht1 handle \<noteq> None then (MOJO_HANDLE_INVALID, ht1)
              else (handle, ht1\<lparr>ht_handles := (ht_handles ht1)(handle \<mapsto> \<lparr>en_dispatcher = d, en_busy = False\<rparr>)\<rparr>))"

definition ht_get_dispatcher :: "u64 \<Rightarrow> handle_table \<Rightarrow> nat option" where
  "ht_get_dispatcher handle ht = map_option en_dispatcher (ht_handles ht handle)"

section \<open>Dispatchers\<close>

datatype dispatcher_type = kUnknown | kMessagePipe | kDataPipeProducer | kDataPipeConsumer
  | kSharedBuffer | kWatcher | kInvitation

datatype dispatcher =
    InvitationDispatcher "(bytes, port_ref) omap" bool  \<comment> \<open>\<^verbatim>\<open>attached_ports_\<close>, \<^verbatim>\<open>is_closed_\<close>\<close>
  | MessagePipeDispatcher port_ref

fun get_type :: "dispatcher \<Rightarrow> dispatcher_type" where
  "get_type (InvitationDispatcher m b) = kInvitation"
| "get_type (MessagePipeDispatcher r) = kMessagePipe"

definition MOJO_RESULT_OK :: u32 where "MOJO_RESULT_OK = 0"
definition MOJO_RESULT_INVALID_ARGUMENT :: u32 where "MOJO_RESULT_INVALID_ARGUMENT = 3"
definition MOJO_RESULT_NOT_FOUND :: u32 where "MOJO_RESULT_NOT_FOUND = 5"
definition MOJO_RESULT_ALREADY_EXISTS :: u32 where "MOJO_RESULT_ALREADY_EXISTS = 6"
definition MOJO_RESULT_RESOURCE_EXHAUSTED :: u32 where "MOJO_RESULT_RESOURCE_EXHAUSTED = 8"

definition dispatcher_close :: "dispatcher \<Rightarrow> u32" where
  "dispatcher_close d = 0"

definition invitation_create :: dispatcher where
  "invitation_create = InvitationDispatcher [] False"

fun attach_message_pipe :: "bytes \<Rightarrow> port_ref \<Rightarrow> dispatcher \<Rightarrow> u32 \<times> dispatcher" where
  "attach_message_pipe nm r (InvitationDispatcher m b) =
     (if om_find nm m \<noteq> None then (MOJO_RESULT_ALREADY_EXISTS, InvitationDispatcher m b)
      else (MOJO_RESULT_OK, InvitationDispatcher (om_emplace nm r m) b))"
| "attach_message_pipe nm r d = (MOJO_RESULT_INVALID_ARGUMENT, d)"

fun take_attach_ports :: "dispatcher \<Rightarrow> (bytes, port_ref) omap \<times> dispatcher" where
  "take_attach_ports (InvitationDispatcher m b) = (m, InvitationDispatcher [] b)"
| "take_attach_ports d = ([], d)"

section \<open>The core\<close>

record core =
  co_handle_table :: handle_table
  co_dispatchers :: "dispatcher list"
  co_controller :: controller

definition core_new :: "(nat \<Rightarrow> nat \<Rightarrow> name) \<Rightarrow> core" where
  "core_new src = \<lparr>co_handle_table = handle_table_new, co_dispatchers = [], co_controller = controller_new src\<rparr>"

definition core_set_io_task_runner :: "nat io_runner option \<Rightarrow> core \<Rightarrow> core" where
  "core_set_io_task_runner io co = co\<lparr>co_controller := set_io_task_runner io (co_controller co)\<rparr>"

text \<open>A new dispatcher object and a handle for it; without a handle the object goes unused.\<close>

definition add_dispatcher :: "dispatcher \<Rightarrow> core \<Rightarrow> u64 \<times> core" where
  "add_dispatcher d co =
     (let (h, ht) = ht_add_dispatcher (length (co_dispatchers co)) (co_handle_table co)
      in (h, co\<lparr>co_handle_table := ht, co_dispatchers := co_dispatchers co @ [d]\<rparr>))"

definition get_dispatcher :: "u64 \<Rightarrow> core \<Rightarrow> (nat \<times> dispatcher) option" where
  "get_dispatcher h co =
     (case ht_get_dispatcher h (co_handle_table co) of None \<Rightarrow> None
      | Some d \<Rightarrow> if d < length (co_dispatchers co) then Some (d, co_dispatchers co ! d) else None)"

definition create_invitation :: "core \<Rightarrow> u32 \<times> u64 \<times> core" where
  "create_invitation co =
     (let (h, co1) = add_dispatcher invitation_create co
      in if h = MOJO_HANDLE_INVALID then (MOJO_RESULT_RESOURCE_EXHAUSTED, h, co1) else (MOJO_RESULT_OK, h, co1))"

text \<open>\<^verbatim>\<open>node()->CreatePortPair\<close>, the result of which the core ignores.\<close>

definition core_port_pair :: "port_ref \<Rightarrow> port_ref \<Rightarrow> core \<Rightarrow> (port_ref \<times> port_ref \<times> core) res" where
  "core_port_pair r0 r1 co =
     rbind (create_port_pair r0 r1 (ct_node (co_controller co))) (\<lambda>(_, r0, r1, nd).
       Inr (r0, r1, co\<lparr>co_controller := (co_controller co)\<lparr>ct_node := nd\<rparr>\<rparr>))"

definition create_partial_message_pipe :: "port_ref \<Rightarrow> core \<Rightarrow> (u64 \<times> port_ref \<times> core) res" where
  "create_partial_message_pipe peer co =
     rbind (core_port_pair port_ref_default peer co) (\<lambda>(local_port, peer, co1).
       let (h, co2) = add_dispatcher (MessagePipeDispatcher local_port) co1 in Inr (h, peer, co2))"

definition create_partial_message_pipe_for :: "port_ref \<Rightarrow> core \<Rightarrow> u64 \<times> core" where
  "create_partial_message_pipe_for r co = add_dispatcher (MessagePipeDispatcher r) co"

definition update_dispatcher :: "nat \<Rightarrow> dispatcher \<Rightarrow> core \<Rightarrow> core" where
  "update_dispatcher i d co = co\<lparr>co_dispatchers := (co_dispatchers co)[i := d]\<rparr>"

definition attach_message_pipe_to_invitation ::
  "u64 \<Rightarrow> bytes \<Rightarrow> u64 \<Rightarrow> core \<Rightarrow> (u32 \<times> u64 \<times> core) res" where
  "attach_message_pipe_to_invitation invitation_handle nm message_pipe_handle co =
     (case get_dispatcher invitation_handle co of
        None \<Rightarrow> Inr (MOJO_RESULT_INVALID_ARGUMENT, message_pipe_handle, co)
      | Some (i, d) \<Rightarrow>
          if get_type d \<noteq> kInvitation then Inr (MOJO_RESULT_INVALID_ARGUMENT, message_pipe_handle, co)
          else rbind (create_partial_message_pipe port_ref_default co) (\<lambda>(local_handle, remote_peer_port, co1).
            if local_handle = MOJO_HANDLE_INVALID
            then Inr (MOJO_RESULT_RESOURCE_EXHAUSTED, message_pipe_handle, co1)
            else let (r, d1) = attach_message_pipe nm remote_peer_port (co_dispatchers co1 ! i);
                     co2 = update_dispatcher i d1 co1
                 in if r \<noteq> MOJO_RESULT_OK then Inr (r, message_pipe_handle, co2)
                    else Inr (MOJO_RESULT_OK, local_handle, co2)))"

text \<open>\<^verbatim>\<open>InvitationDispatcher::ExtractMessagePipe\<close>: takes an attached port out and wraps it in a pipe.\<close>

definition extract_message_pipe :: "nat \<Rightarrow> bytes \<Rightarrow> u64 \<Rightarrow> core \<Rightarrow> u32 \<times> u64 \<times> core" where
  "extract_message_pipe i nm message_pipe_handle co =
     (case co_dispatchers co ! i of
        MessagePipeDispatcher r \<Rightarrow> (MOJO_RESULT_INVALID_ARGUMENT, message_pipe_handle, co)
      | InvitationDispatcher m b \<Rightarrow>
          (case om_find nm m of
             None \<Rightarrow> (MOJO_RESULT_NOT_FOUND, message_pipe_handle, co)
           | Some r \<Rightarrow>
               let co1 = update_dispatcher i (InvitationDispatcher (om_erase nm m) b) co;
                   (h, co2) = create_partial_message_pipe_for r co1
               in if h = MOJO_HANDLE_INVALID then (MOJO_RESULT_RESOURCE_EXHAUSTED, h, co2)
                  else (MOJO_RESULT_OK, h, co2)))"

text \<open>The private overload: a new pipe whose port is merged into the inviter's.\<close>

definition extract_from_inviter :: "(nat \<Rightarrow> nat \<Rightarrow> byte) \<Rightarrow> bytes \<Rightarrow> core \<Rightarrow> (u64 \<times> core) res" where
  "extract_from_inviter fresh nm co =
     rbind (core_port_pair port_ref_default port_ref_default co) (\<lambda>(port0, port1, co1).
       let (h, co2) = add_dispatcher (MessagePipeDispatcher port0) co1 in
       rbind (merge_port_into_inviter fresh nm port0 (co_controller co2)) (\<lambda>ct.
         Inr (h, co2\<lparr>co_controller := ct\<rparr>)))"

definition extract_message_pipe_from_invitation ::
  "(nat \<Rightarrow> nat \<Rightarrow> byte) \<Rightarrow> u64 \<Rightarrow> bytes \<Rightarrow> u64 \<Rightarrow> core \<Rightarrow> (u32 \<times> u64 \<times> core) res" where
  "extract_message_pipe_from_invitation fresh invitation_handle nm message_pipe_handle co =
     (case get_dispatcher invitation_handle co of
        None \<Rightarrow> Inr (MOJO_RESULT_INVALID_ARGUMENT, message_pipe_handle, co)
      | Some (i, d) \<Rightarrow>
          if get_type d \<noteq> kInvitation then Inr (MOJO_RESULT_INVALID_ARGUMENT, message_pipe_handle, co)
          else let (r, h, co1) = extract_message_pipe i nm message_pipe_handle co in
            if r = MOJO_RESULT_OK then Inr (r, h, co1)
            else rbind (extract_from_inviter fresh nm co1) (\<lambda>(h, co2).
              if h = MOJO_HANDLE_INVALID then Inr (MOJO_RESULT_RESOURCE_EXHAUSTED, h, co2)
              else Inr (MOJO_RESULT_OK, h, co2)))"

definition core_send_invitation :: "(nat \<Rightarrow> nat \<Rightarrow> byte) \<Rightarrow> u64 \<Rightarrow> int \<Rightarrow> core \<Rightarrow> (u32 \<times> core) res" where
  "core_send_invitation fresh invitation_handle socket co =
     (case get_dispatcher invitation_handle co of
        None \<Rightarrow> Inr (MOJO_RESULT_INVALID_ARGUMENT, co)
      | Some (i, d) \<Rightarrow>
          if get_type d \<noteq> kInvitation then Inr (MOJO_RESULT_INVALID_ARGUMENT, co)
          else let (attached, d1) = take_attach_ports d;
                   (_, d2) = take_attach_ports d1;
                   co1 = update_dispatcher i d2 co
               in rbind (send_invitation fresh socket attached (co_controller co1)) (\<lambda>ct.
                    Inr (MOJO_RESULT_OK, co1\<lparr>co_controller := ct\<rparr>)))"

definition core_accept_invitation :: "int \<Rightarrow> core \<Rightarrow> (u32 \<times> u64 \<times> core) res" where
  "core_accept_invitation socket co =
     (let (h, co1) = add_dispatcher invitation_create co in
      if h = MOJO_HANDLE_INVALID then Inr (MOJO_RESULT_RESOURCE_EXHAUSTED, h, co1)
      else rbind (accept_invitation socket (co_controller co1)) (\<lambda>ct.
             Inr (MOJO_RESULT_OK, h, co1\<lparr>co_controller := ct\<rparr>)))"

definition pipe_write_message :: "(nat \<Rightarrow> nat \<Rightarrow> byte) \<Rightarrow> port_ref \<Rightarrow> event \<Rightarrow> core \<Rightarrow> (int option \<times> core) res" where
  "pipe_write_message fresh r ev co =
     rbind (send_user_message fresh r ev (co_controller co)) (\<lambda>(x, _, ct). Inr (x, co\<lparr>co_controller := ct\<rparr>))"

definition pipe_read_message :: "port_ref \<Rightarrow> event \<Rightarrow> core \<Rightarrow> (int \<times> event \<times> core) res" where
  "pipe_read_message r ev co =
     rbind (ct_get_user_message r ev (co_controller co)) (\<lambda>(x, ev1, ct). Inr (x, ev1, co\<lparr>co_controller := ct\<rparr>))"

text \<open>The result of the send is the result of the call.\<close>

definition write_message :: "(nat \<Rightarrow> nat \<Rightarrow> byte) \<Rightarrow> u64 \<Rightarrow> bytes \<Rightarrow> core \<Rightarrow> (u32 option \<times> core) res" where
  "write_message fresh h str co =
     (case get_dispatcher h co of
        Some (i, MessagePipeDispatcher r) \<Rightarrow>
          rbind (pipe_write_message fresh r
                   (attach_message (UserMessage (user_message_default\<lparr>um_data := str\<rparr>)) event_create) co)
            (\<lambda>(x, co1). Inr (map_option of_int x, co1))
      | _ \<Rightarrow> Inr (Some MOJO_RESULT_INVALID_ARGUMENT, co))"

text \<open>An empty user message is attached first; the result of the read is ignored.\<close>

definition read_message :: "u64 \<Rightarrow> event \<Rightarrow> core \<Rightarrow> (u32 \<times> event \<times> core) res" where
  "read_message h ev co =
     (case get_dispatcher h co of
        Some (i, MessagePipeDispatcher r) \<Rightarrow>
          rbind (pipe_read_message r (attach_message (UserMessage user_message_default) ev) co)
            (\<lambda>(x, ev1, co1). Inr (MOJO_RESULT_OK, ev1, co1))
      | _ \<Rightarrow> Inr (MOJO_RESULT_INVALID_ARGUMENT, ev, co))"

end
