(* ===== verification/Core_Spec.thy ===== *)
theory Core_Spec
  imports Core_Api
begin

text \<open>
  What the public interface guarantees: the handles of a process are numbered upwards and never given
  twice, the outcomes of the invitation and message calls, and what they do to the ports below.
\<close>

section \<open>The handle table\<close>

fun ht_add_all :: "nat list \<Rightarrow> handle_table \<Rightarrow> u64 list \<times> handle_table" where
  "ht_add_all [] ht = ([], ht)"
| "ht_add_all (d # ds) ht =
     (let (h, ht1) = ht_add_dispatcher d ht; (hs, ht2) = ht_add_all ds ht1 in (h # hs, ht2))"

text \<open>The handle given to the \<open>k\<close>-th dispatcher, and the table after the dispatchers \<open>ds\<close>.\<close>

definition handle_of :: "nat \<Rightarrow> u64" where
  "handle_of k = (if k < 2 ^ 64 - 1 then of_nat (Suc k) else 0)"

definition ht_after :: "nat list \<Rightarrow> handle_table" where
  "ht_after ds = \<lparr>ht_handles = (\<lambda>h. if h \<noteq> 0 \<and> unat h \<le> length ds
       then Some \<lparr>en_dispatcher = ds ! (unat h - 1), en_busy = False\<rparr> else None),
     ht_next_available_handle = handle_of (length ds)\<rparr>"

lemma ht_after_nil: "ht_after [] = handle_table_new"
  by (auto simp: ht_after_def handle_table_new_def handle_of_def unat_eq_0 fun_eq_iff)

lemma unat_handle_of: "k < 2 ^ 64 - 1 \<Longrightarrow> unat (handle_of k) = Suc k"
  unfolding handle_of_def by (simp add: unat_of_nat_small del: of_nat_Suc)

lemma handle_of_eq_0: "handle_of k = 0 \<longleftrightarrow> 2 ^ 64 - 1 \<le> k"
proof (cases "k < 2 ^ 64 - 1")
  case True
  then show ?thesis using unat_handle_of [OF True] by (metis linorder_not_less nat.distinct(1) unat_0)
qed (simp add: handle_of_def)

lemma handle_of_Suc:
  assumes "handle_of k \<noteq> 0"
  shows "handle_of k + 1 = handle_of (Suc k)"
proof (cases "Suc k < 2 ^ 64 - 1")
  case True
  then show ?thesis using assms by (auto simp: handle_of_def)
next
  case False
  with assms have "k = 2 ^ 64 - 2" by (simp add: handle_of_eq_0)
  then show ?thesis by (simp add: handle_of_def)
qed

lemma unat_u64: "unat (h :: u64) < 2 ^ 64"
  using unsigned_less [where 'a = nat, of h] by simp

lemma ht_add_after: "ht_add_dispatcher d (ht_after ds) = (handle_of (length ds), ht_after (ds @ [d]))"
proof (cases "handle_of (length ds) = 0")
  case True
  have "unat h - 1 < length ds" if "h \<noteq> 0" for h :: u64
    using True that unat_u64 [of h] by (auto simp: handle_of_eq_0 unat_eq_0 dest: gr_zeroI)
  moreover have "unat h \<le> length ds" for h :: u64
    using True unat_u64 [of h] by (simp add: handle_of_eq_0)
  moreover have "handle_of (Suc (length ds)) = handle_of (length ds)"
    using True handle_of_eq_0 [of "length ds"] handle_of_eq_0 [of "Suc (length ds)"] by simp
  ultimately have "ht_after (ds @ [d]) = ht_after ds"
    by (auto simp: ht_after_def fun_eq_iff nth_append le_SucI)
  then show ?thesis using True by (simp add: ht_add_dispatcher_def ht_after_def MOJO_HANDLE_INVALID_def)
next
  case False
  let ?h = "handle_of (length ds)"
  have u: "unat ?h = Suc (length ds)" using False by (intro unat_handle_of) (simp add: handle_of_eq_0)
  have iff: "unat h = Suc (length ds) \<longleftrightarrow> h = ?h" for h :: u64 using u by (metis word_unat_eq_iff)
  have "ht_handles (ht_after (ds @ [d])) = (ht_handles (ht_after ds))(?h \<mapsto> \<lparr>en_dispatcher = d, en_busy = False\<rparr>)"
  proof
    fix h :: u64
    show "ht_handles (ht_after (ds @ [d])) h = ((ht_handles (ht_after ds))(?h \<mapsto> \<lparr>en_dispatcher = d, en_busy = False\<rparr>)) h"
    proof (cases "h = ?h")
      case True
      then show ?thesis using False u by (simp add: ht_after_def nth_append)
    next
      case neq: False
      then have "unat h \<noteq> Suc (length ds)" using iff by blast
      moreover have "unat h - 1 < length ds" if "h \<noteq> 0" "unat h \<le> length ds"
        using that by (metis One_nat_def diff_less le_trans less_le_trans unat_gt_0 zero_less_one word_gt_0)
      ultimately show ?thesis using neq by (auto simp: ht_after_def nth_append le_Suc_eq)
    qed
  qed
  then show ?thesis
    using False u handle_of_Suc [OF False]
    by (simp add: ht_add_dispatcher_def MOJO_HANDLE_INVALID_def ht_after_def Let_def)
qed

lemma ht_add_all_after: "ht_add_all ds (ht_after es) = (map (\<lambda>k. handle_of (length es + k)) [0..<length ds], ht_after (es @ ds))"
proof (induction ds arbitrary: es)
  case (Cons d ds)
  have "[0..<Suc (length ds)] = 0 # map Suc [0..<length ds]"
    by (simp add: map_Suc_upt upt_conv_Cons del: upt_Suc)
  then show ?case using Cons [of "es @ [d]"] by (simp add: ht_add_after del: upt_Suc)
qed simp

text \<open>
  C18: Handles are numbered from 1 upwards in the order in which dispatchers are added, so no handle
  is given twice, each stays bound to its own dispatcher whatever is added later, and when all
  2^64 - 1 of them are used every further call gives the invalid handle 0 instead of wrapping around.
\<close>

theorem handles_never_reused:
  assumes "ht_add_all ds handle_table_new = (hs, ht)" and "k < length ds"
  shows "if k < 2 ^ 64 - 1 then unat (hs ! k) = Suc k \<and> ht_get_dispatcher (hs ! k) ht = Some (ds ! k)
         else hs ! k = MOJO_HANDLE_INVALID"
proof -
  have hs: "hs ! k = handle_of k" "ht = ht_after ds"
    using assms ht_add_all_after [of ds "[]"] by (auto simp: ht_after_nil)
  show ?thesis
  proof (cases "k < 2 ^ 64 - 1")
    case True
    then have "handle_of k \<noteq> 0" by (simp add: handle_of_eq_0)
    then show ?thesis using True hs assms(2) unat_handle_of [OF True] by (simp add: ht_get_dispatcher_def ht_after_def)
  next
    case False
    then show ?thesis using hs(1) by (simp add: handle_of_eq_0 MOJO_HANDLE_INVALID_def)
  qed
qed

theorem handles_never_reused_witness:
  "ht_get_dispatcher (fst (ht_add_all [7, 8] handle_table_new) ! 1) (snd (ht_add_all [7, 8] handle_table_new)) = Some 8"
  using handles_never_reused [of "[7, 8]" "fst (ht_add_all [7, 8] handle_table_new)" "snd (ht_add_all [7, 8] handle_table_new)" 1]
  by simp

end
