(* ===== verification/Handshake.thy ===== *)
theory Handshake
  imports Link Core_Spec
begin

text \<open>
  The whole of it: two processes, one inviting and one invited, each with one end of a socket pair.
  The calls and exchanges of the handshake are run in the order of the programs in \<^verbatim>\<open>test/\<close> and
  end with a pipe between the two; a message written at one end is read at the other.
\<close>

section \<open>The steps of the handshake\<close>

lemma on_accept_invitation_new:
  assumes "ct_pending_invitations ct temp = Some i" and "i < length (ct_channels ct)"
    and "om_find temp (ct_reserved_ports ct) = Some pm" and "ct_peers ct invitee = None"
  shows "on_accept_invitation temp temp invitee ct = Inr (ct\<lparr>
      ct_reserved_ports := om_erase temp (om_emplace invitee pm (ct_reserved_ports ct)),
      ct_pending_invitations := um_erase temp (ct_pending_invitations ct),
      ct_channels := (ct_channels ct)[i := fold send_channel_message (pending_for invitee ct) (set_remote_node_name invitee (ct_channels ct ! i))],
      ct_peers := (ct_peers ct)(invitee \<mapsto> i),
      ct_pending_peer_messages := um_erase invitee (ct_pending_peer_messages ct)\<rparr>)"
  using assms by (auto simp: on_accept_invitation_def add_peer_new pending_for_def release_channel_Some dies_def referenced_def ran_def)

lemma on_request_port_merge_effect:
  assumes "ct_wf ct" and "om_find fn (ct_reserved_ports ct) = Some pm" and "om_find nm pm = Some r"
    and "pr_port r = Some b" and "pt_peer_port_name (nd_heap (ct_node ct) ! b) = lp"
    and "nd_ports (ct_node ct) lp = Some (Some a)" and "lp \<noteq> pr_name r" and "connector \<noteq> kInvalidName"
    and "ct_peers ct fn = Some i"
  obtains nd where "on_request_port_merge fresh fn connector nm ct = Inr ((take_reserved fn nm pm ct)\<lparr>ct_node := nd,
      ct_channels := (ct_channels ct)[i := send_channel_message
        (protocol_create kResponsePortMerge (message_bytes (ResponsePortMerge connector lp))) (ct_channels ct ! i)]\<rparr>)"
    and "nd_ports nd = (nd_ports (ct_node ct))(pr_name r := None)"
    and "nd_heap nd = (nd_heap (ct_node ct))[a := (nd_heap (ct_node ct) ! a)\<lparr>pt_peer_node_name := fn, pt_peer_port_name := connector\<rparr>]"
    and "nd_name nd = nd_name (ct_node ct)" and "node_wf nd"
proof -
  have wf: "node_wf (ct_node ct)" and "ref_ok (ct_node ct) r" and i: "i < length (ct_channels ct)"
    using assms by (auto simp: ct_wf_def reserved_ok_def channels_ok_def)
  then have b: "b < length (nd_heap (ct_node ct))" using assms(4) by (auto simp: ref_ok_def)
  obtain nd where m: "merge_ports r fn connector (ct_node ct) = Inr (node_OK, lp, nd)"
    "nd_ports nd = (nd_ports (ct_node ct))(pr_name r := None)"
    "nd_heap nd = (nd_heap (ct_node ct))[a := (nd_heap (ct_node ct) ! a)\<lparr>pt_peer_node_name := fn, pt_peer_port_name := connector\<rparr>]"
    "nd_name nd = nd_name (ct_node ct)" "nd_rng nd = nd_rng (ct_node ct)" "node_wf nd"
    by (rule merge_ports_effect [OF wf assms(4) b assms(5-8)])
  show thesis
    by (rule that [OF _ m(2-4,6)])
       (use assms(2,3,9) m(1) i in \<open>simp add: on_request_port_merge_steps ctl_simps effect_simps\<close>)
qed

lemma merge_ports_response_effect:
  assumes "node_wf nd" and "nd_ports nd c0 = Some (Some a)" and "pt_peer_port_name (nd_heap nd ! a) = c1"
    and "peer_ref nd (nd_name nd) c0 c1 = Some r" and "pr_port r = Some b"
    and "pt_peer_port_name (nd_heap nd ! b) = c0" and "c0 \<noteq> pr_name r" and "dp \<noteq> kInvalidName"
  obtains nd' where "merge_ports_response c0 dn dp nd = Inr (0, nd')"
    and "nd_ports nd' = (nd_ports nd)(pr_name r := None)"
    and "nd_heap nd' = (nd_heap nd)[a := (nd_heap nd ! a)\<lparr>pt_peer_node_name := dn, pt_peer_port_name := dp\<rparr>]"
    and "nd_name nd' = nd_name nd" and "node_wf nd'"
proof -
  have a: "a < length (nd_heap nd)" using node_wf_ports [OF assms(1,2)] by auto
  have inv: "refs_inv nd" using assms(1) by (simp add: node_wf_def)
  obtain r' nd1 where idx: "index_peer (nd_name nd) c0 c1 nd = (r', nd1)" by fastforce
  note spec = index_peer_spec [OF inv, of "nd_name nd" c0 c1, simplified idx fst_conv snd_conv]
  note sel = index_peer_sel [of "nd_name nd" c0 c1 nd, simplified idx snd_conv]
  have r': "r' = r" using spec assms(4) by simp
  have ref: "peer_ref nd1 = peer_ref nd" using spec assms(4) by (intro ext) simp
  have "ref_ok nd r" using assms(1,4) by (auto simp: node_wf_def)
  then have b: "b < length (nd_heap nd1)" using assms(5) sel by (auto simp: ref_ok_def)
  have wf1: "node_wf nd1" using assms(1) spec sel ref by (simp add: node_wf_def ref_ok_def)
  have pb: "pt_peer_port_name (nd_heap nd1 ! b) = c0" "nd_ports nd1 c0 = Some (Some a)" using sel assms(2,6) by simp_all
  obtain nd' where m: "merge_ports r dn dp nd1 = Inr (node_OK, c0, nd')"
    "nd_ports nd' = (nd_ports nd1)(pr_name r := None)"
    "nd_heap nd' = (nd_heap nd1)[a := (nd_heap nd1 ! a)\<lparr>pt_peer_node_name := dn, pt_peer_port_name := dp\<rparr>]"
    "nd_name nd' = nd_name nd1" "nd_rng nd' = nd_rng nd1" "node_wf nd'"
    by (rule merge_ports_effect [OF wf1 assms(5) b pb assms(7,8)])
  show thesis
    by (rule that [of nd'])
       (use assms(2,3) a idx r' m sel in \<open>simp_all add: merge_ports_response_def node_simps\<close>)
qed

section \<open>The two ends\<close>

definition sent :: "message \<Rightarrow> protocol" where
  "sent m = protocol_create (message_type m) (message_bytes m)"

lemma receive_sent:
  "c < length (ct_channels ct) \<Longrightarrow> length (message_bytes m) < 128 \<Longrightarrow>
   receive fresh c (arrived (sent m)) ct = delivery (controller_delegate fresh) (nc_remote_node_name (ct_channels ct ! c)) m ct"
  using receive_eq [of c ct m fresh "of_nat (length (message_bytes m))"]
  by (simp add: sent_def arrived_def envelope_def protocol_create_def)

text \<open>The one channel of a process.\<close>

definition only_channel :: "controller \<Rightarrow> node_name \<Rightarrow> protocol list \<Rightarrow> bool" where
  "only_channel ct remote ps \<longleftrightarrow> length (ct_channels ct) = 1 \<and> is_open (ct_channels ct ! 0)
     \<and> nc_remote_node_name (ct_channels ct ! 0) = remote \<and> outbox (ct_channels ct ! 0) = ps"

text \<open>A process that has sent an invitation with one pipe attached, the ports \<open>p0\<close> and \<open>p1\<close> of which it holds.\<close>

definition inviting :: "controller \<Rightarrow> node_name \<Rightarrow> bytes \<Rightarrow> port_name \<Rightarrow> nat \<Rightarrow> port_name \<Rightarrow> nat \<Rightarrow> bool" where
  "inviting ct temp nm p0 a p1 b \<longleftrightarrow> ct_wf ct \<and> only_channel ct temp [sent (AcceptInvitee temp (ct_name ct))]
     \<and> ct_pending_invitations ct temp = Some 0 \<and> ct_peers ct = (\<lambda>_. None) \<and> ct_pending_peer_messages ct = (\<lambda>_. None)
     \<and> ct_reserved_ports ct = [(temp, [(nm, port_ref_make p1 (Some b))])]
     \<and> nd_ports (ct_node ct) p0 = Some (Some a) \<and> a \<noteq> b \<and> p0 \<noteq> p1 \<and> p0 \<noteq> kInvalidName
     \<and> pt_peer_port_name (nd_heap (ct_node ct) ! b) = p0"

text \<open>A process that waits for an invitation and wants to merge the port \<open>c0\<close> of the pair \<open>c0\<close>, \<open>c1\<close>.\<close>

definition invited :: "controller \<Rightarrow> bytes \<Rightarrow> port_name \<Rightarrow> nat \<Rightarrow> port_name \<Rightarrow> nat \<Rightarrow> bool" where
  "invited ct nm c0 a c1 b \<longleftrightarrow> ct_wf ct \<and> (\<exists>remote. only_channel ct remote []) \<and> ct_inviter_channel ct = Some 0
     \<and> ct_peers ct = (\<lambda>_. None) \<and> ct_pending_peer_messages ct = (\<lambda>_. None)
     \<and> ct_pending_port_merges ct = [(nm, port_ref_make c0 (Some a))]
     \<and> nd_ports (ct_node ct) c0 = Some (Some a) \<and> pt_peer_port_name (nd_heap (ct_node ct) ! a) = c1
     \<and> peer_ref (ct_node ct) (ct_name ct) c0 c1 = Some (port_ref_make c1 (Some b))
     \<and> a \<noteq> b \<and> c0 \<noteq> c1 \<and> c0 \<noteq> kInvalidName
     \<and> pt_peer_port_name (nd_heap (ct_node ct) ! b) = c0"

text \<open>An end of a pipe: the port \<open>own\<close> at address \<open>a\<close> leads to the port \<open>other\<close> of
  the peer, and \<open>ps\<close> is waiting for the socket.\<close>

definition connected :: "controller \<Rightarrow> port_name \<Rightarrow> nat \<Rightarrow> node_name \<Rightarrow> port_name \<Rightarrow> protocol list \<Rightarrow> bool" where
  "connected ct own a peer other ps \<longleftrightarrow> ct_wf ct \<and> only_channel ct peer ps \<and> ct_peers ct peer = Some 0
     \<and> nd_ports (ct_node ct) own = Some (Some a)
     \<and> pt_peer_node_name (nd_heap (ct_node ct) ! a) = peer \<and> pt_peer_port_name (nd_heap (ct_node ct) ! a) = other"

lemma message_lengths:
  "length (message_bytes (AcceptInvitee t n)) < 128" "length (message_bytes (AcceptInvitation t n)) < 128"
  "length (message_bytes (ResponsePortMerge c p)) < 128"
  "length (message_bytes (RequestPortMerge c nm)) = 24 + length nm"
  "length (message_bytes (UserMessage m)) = 36 + length (um_data m)"
  by (simp_all add: name_bytes_def str64_def str32_def)

text \<open>First exchange: the invitation reaches the invited process, which answers it.\<close>

lemma exchange_invitation:
  assumes A: "inviting A temp nm p0 a p1 b" and B: "invited B nm c0 a' c1 b'"
  obtains A' B' where "exchange fresh 0 A 0 B = Inr (A', B')" and "ct_wf A'" and "ct_wf B'"
    and "A' = A\<lparr>ct_channels := [emptied (ct_channels A ! 0)]\<rparr>"
    and "only_channel B' (ct_name A) [sent (AcceptInvitation temp (ct_name B)), sent (RequestPortMerge c0 nm)]"
    and "ct_peers B' = [ct_name A \<mapsto> 0]" and "ct_node B' = ct_node B" and "ct_name B' = ct_name B"
    and "ct_pending_peer_messages B' = (\<lambda>_. None)"
proof -
  obtain nc where ncA: "ct_channels A = [nc]" "outbox nc = [sent (AcceptInvitee temp (ct_name A))]"
    using A by (auto simp: inviting_def only_channel_def length_Suc_conv)
  obtain nb where ncB: "ct_channels B = [nb]" "is_open nb" "outbox nb = []"
    using B by (auto simp: invited_def only_channel_def length_Suc_conv)
  have pend: "pending_for (ct_name A) B = []" using B by (simp add: invited_def pending_for_def)
  note step = on_accept_invitee_new [of B 0 "ct_name A" fresh "nc_remote_node_name nb" temp]
  define B' where "B' = B\<lparr>ct_inviter_name := ct_name A, ct_peers := (ct_peers B)(ct_name A \<mapsto> 0),
      ct_pending_peer_messages := um_erase (ct_name A) (ct_pending_peer_messages B), ct_pending_port_merges := [],
      ct_channels := [fold send_channel_message (map merge_request (ct_pending_port_merges B))
        (set_remote_node_name (ct_name A) (answer (ct_name A) temp (ct_name B) nb))]\<rparr>"
  have acc: "on_accept_invitee fresh (nc_remote_node_name nb) (ct_name A) temp B = Inr B'"
    using step B ncB(1) pend by (simp add: B'_def invited_def)
  then have rec: "receive fresh 0 (arrived (sent (AcceptInvitee temp (ct_name A)))) B = Inr B'"
    using receive_sent [of 0 B "AcceptInvitee temp (ct_name A)" fresh] ncB(1) message_lengths(1)
    by (simp add: controller_delegate_def)
  let ?A' = "A\<lparr>ct_channels := [emptied nc]\<rparr>"
  have ex: "exchange fresh 0 A 0 B = Inr (?A', B')" by (simp add: exchange_def ncA rec)
  have wf: "ct_wf A" "ct_wf B" using A B by (simp_all add: inviting_def invited_def)
  have wfA: "ct_wf ?A'" using wf(1) by (simp add: ct_wf_def channels_ok_def ncA)
  have wfB: "ct_wf B'" by (rule receive_wf [OF wf(2) rec])
  show thesis
    by (rule that [OF ex wfA wfB])
       (use B ncA ncB in \<open>simp_all add: B'_def invited_def only_channel_def answer_def outbox_send_all outbox_send
          sent_def merge_request_def port_ref_make_sel um_erase_def fun_upd_idem\<close>)
qed

text \<open>
  Second exchange: the answer makes the invited process a peer under its own name, and its request is
  granted: the reserved half of the pair is gone and the other half leads to the peer's port.
\<close>

lemma exchange_answer:
  assumes "ct_wf A" and ch: "only_channel A temp []" and pend: "ct_pending_invitations A temp = Some 0"
    and peers: "ct_peers A = (\<lambda>_. None)" "ct_pending_peer_messages A = (\<lambda>_. None)"
    and res: "ct_reserved_ports A = [(temp, [(nm, port_ref_make p1 (Some b))])]"
    and p0: "nd_ports (ct_node A) p0 = Some (Some a)" "p0 \<noteq> p1" "pt_peer_port_name (nd_heap (ct_node A) ! b) = p0"
    and B: "only_channel B remB [sent (AcceptInvitation temp (ct_name B)), sent (RequestPortMerge c0 nm)]"
    and names: "temp \<noteq> ct_name B" "c0 \<noteq> kInvalidName" and len: "length nm < 104"
  obtains A' where "exchange fresh 0 B 0 A = Inr (B\<lparr>ct_channels := [emptied (ct_channels B ! 0)]\<rparr>, A')" and "ct_wf A'"
    and "only_channel A' (ct_name B) [sent (ResponsePortMerge c0 p0)]"
    and "ct_peers A' = [ct_name B \<mapsto> 0]" and "ct_name A' = ct_name A"
    and "nd_ports (ct_node A') = (nd_ports (ct_node A))(p1 := None)"
    and "nd_heap (ct_node A') = (nd_heap (ct_node A))[a := (nd_heap (ct_node A) ! a)\<lparr>pt_peer_node_name := ct_name B, pt_peer_port_name := c0\<rparr>]"
proof -
  obtain nc where nc: "ct_channels A = [nc]" "is_open nc" "nc_remote_node_name nc = temp" "outbox nc = []"
    using ch by (auto simp: only_channel_def length_Suc_conv)
  let ?nc1 = "set_remote_node_name (ct_name B) nc"
  define A1 where "A1 = A\<lparr>ct_reserved_ports := [(ct_name B, [(nm, port_ref_make p1 (Some b))])],
      ct_pending_invitations := um_erase temp (ct_pending_invitations A), ct_channels := [?nc1],
      ct_peers := [ct_name B \<mapsto> 0], ct_pending_peer_messages := (\<lambda>_. None)\<rparr>"
  have rekeyed: "om_erase temp (om_emplace (ct_name B) [(nm, port_ref_make p1 (Some b))] (ct_reserved_ports A))
      = [(ct_name B, [(nm, port_ref_make p1 (Some b))])]"
    using names(1) by (auto simp: res om_erase_def)
  have "om_find temp (ct_reserved_ports A) = Some [(nm, port_ref_make p1 (Some b))]" by (simp add: res)
  from on_accept_invitation_new [OF pend _ this, of "ct_name B"]
  have "on_accept_invitation temp temp (ct_name B) A = Inr A1"
    by (simp add: A1_def nc(1) peers rekeyed pending_for_def um_erase_def [of "ct_name B"] fun_upd_idem)
  then have rec1: "receive fresh 0 (arrived (sent (AcceptInvitation temp (ct_name B)))) A = Inr A1"
    using receive_sent [of 0 A "AcceptInvitation temp (ct_name B)" fresh] nc message_lengths(2)
    by (simp add: controller_delegate_def)
  have wf1: "ct_wf A1" by (rule receive_wf [OF assms(1) rec1])
  have r: "om_find (ct_name B) (ct_reserved_ports A1) = Some [(nm, port_ref_make p1 (Some b))]"
    "om_find nm [(nm, port_ref_make p1 (Some b))] = Some (port_ref_make p1 (Some b))" "ct_peers A1 (ct_name B) = Some 0"
    "pr_port (port_ref_make p1 (Some b)) = Some b" "p0 \<noteq> pr_name (port_ref_make p1 (Some b))" "ct_node A1 = ct_node A"
    using p0(2) by (simp_all add: A1_def port_ref_make_sel)
  obtain nd where req: "on_request_port_merge fresh (ct_name B) c0 nm A1 =
      Inr ((take_reserved (ct_name B) nm [(nm, port_ref_make p1 (Some b))] A1)\<lparr>ct_node := nd,
        ct_channels := (ct_channels A1)[0 := send_channel_message (protocol_create kResponsePortMerge
          (message_bytes (ResponsePortMerge c0 p0))) (ct_channels A1 ! 0)]\<rparr>)"
    and nd: "nd_ports nd = (nd_ports (ct_node A1))(pr_name (port_ref_make p1 (Some b)) := None)"
      "nd_heap nd = (nd_heap (ct_node A1))[a := (nd_heap (ct_node A1) ! a)\<lparr>pt_peer_node_name := ct_name B, pt_peer_port_name := c0\<rparr>]"
      "nd_name nd = nd_name (ct_node A1)" "node_wf nd"
    by (rule on_request_port_merge_effect [OF wf1 r(1,2,4) _ _ r(5) names(2) r(3), where a = a]) (simp_all add: r(6) p0)
  define A2 where "A2 = (take_reserved (ct_name B) nm [(nm, port_ref_make p1 (Some b))] A1)\<lparr>ct_node := nd,
      ct_channels := [send_channel_message (protocol_create kResponsePortMerge (message_bytes (ResponsePortMerge c0 p0))) ?nc1]\<rparr>"
  have rec2: "receive fresh 0 (arrived (sent (RequestPortMerge c0 nm))) A1 = Inr A2"
    using receive_sent [of 0 A1 "RequestPortMerge c0 nm" fresh] len message_lengths(4) [of c0 nm] req
    by (simp add: controller_delegate_def A2_def) (simp add: A1_def)
  have wf2: "ct_wf A2" by (rule receive_wf [OF wf1 rec2])
  obtain nb where nb: "ct_channels B = [nb]" "outbox nb = [sent (AcceptInvitation temp (ct_name B)), sent (RequestPortMerge c0 nm)]"
    using B by (auto simp: only_channel_def length_Suc_conv)
  have ex: "exchange fresh 0 B 0 A = Inr (B\<lparr>ct_channels := [emptied (ct_channels B ! 0)]\<rparr>, A2)"
    by (simp add: exchange_def nb rec1 rec2)
  show thesis
    by (rule that [OF ex wf2])
       (use nc nd in \<open>simp_all add: A2_def A1_def only_channel_def outbox_send sent_def take_reserved_def port_ref_make_sel\<close>)
qed

text \<open>Third exchange: the invited process learns which port its pipe leads to.\<close>

lemma exchange_response:
  assumes A: "ct_wf A" "only_channel A remA [sent (ResponsePortMerge c0 p0)]"
    and B: "ct_wf B" "only_channel B nmA []"
    and c0: "nd_ports (ct_node B) c0 = Some (Some a)" "pt_peer_port_name (nd_heap (ct_node B) ! a) = c1"
      "peer_ref (ct_node B) (ct_name B) c0 c1 = Some (port_ref_make c1 (Some b))" "c0 \<noteq> c1"
      "pt_peer_port_name (nd_heap (ct_node B) ! b) = c0" and p0: "p0 \<noteq> kInvalidName"
  obtains B' where "exchange fresh 0 A 0 B = Inr (A\<lparr>ct_channels := [emptied (ct_channels A ! 0)]\<rparr>, B')" and "ct_wf B'"
    and "only_channel B' nmA []" and "ct_peers B' = ct_peers B" and "ct_name B' = ct_name B"
    and "nd_ports (ct_node B') = (nd_ports (ct_node B))(c1 := None)"
    and "nd_heap (ct_node B') = (nd_heap (ct_node B))[a := (nd_heap (ct_node B) ! a)\<lparr>pt_peer_node_name := nmA, pt_peer_port_name := p0\<rparr>]"
proof -
  have nd: "node_wf (ct_node B)" and ndn: "nd_name (ct_node B) = ct_name B" using B(1) by (simp_all add: ct_wf_def)
  have ref: "peer_ref (ct_node B) (nd_name (ct_node B)) c0 c1 = Some (port_ref_make c1 (Some b))" using c0(3) ndn by simp
  obtain nd' where m: "merge_ports_response c0 nmA p0 (ct_node B) = Inr (0, nd')"
    "nd_ports nd' = (nd_ports (ct_node B))(pr_name (port_ref_make c1 (Some b)) := None)"
    "nd_heap nd' = (nd_heap (ct_node B))[a := (nd_heap (ct_node B) ! a)\<lparr>pt_peer_node_name := nmA, pt_peer_port_name := p0\<rparr>]"
    "nd_name nd' = nd_name (ct_node B)" "node_wf nd'"
    by (rule merge_ports_response_effect [OF nd c0(1,2) ref, where dn = nmA and b = b])
       (use c0(4,5) p0 in \<open>simp_all add: port_ref_make_sel\<close>)
  have "ct_channels B \<noteq> []" using B(2) by (auto simp: only_channel_def)
  then have rec: "receive fresh 0 (arrived (sent (ResponsePortMerge c0 p0))) B = Inr (B\<lparr>ct_node := nd'\<rparr>)"
    using receive_sent [of 0 B "ResponsePortMerge c0 p0" fresh] B(2) message_lengths(3) m(1)
    by (simp add: controller_delegate_def only_channel_def on_response_port_merge_def)
  obtain na where na: "ct_channels A = [na]" "outbox na = [sent (ResponsePortMerge c0 p0)]"
    using A(2) by (auto simp: only_channel_def length_Suc_conv)
  have ex: "exchange fresh 0 A 0 B = Inr (A\<lparr>ct_channels := [emptied (ct_channels A ! 0)]\<rparr>, B\<lparr>ct_node := nd'\<rparr>)"
    by (simp add: exchange_def na rec)
  show thesis
    by (rule that [OF ex receive_wf [OF B(1) rec]])
       (use B(2) m in \<open>simp_all add: only_channel_def port_ref_make_sel\<close>)
qed

section \<open>The calls that start it\<close>

definition started :: "(nat \<Rightarrow> nat \<Rightarrow> name) \<Rightarrow> core" where
  "started src = core_set_io_task_runner (Some io_new) (core_new src)"

text \<open>The inviting program: an invitation, a pipe attached to it, and the invitation sent.\<close>

definition invite :: "(nat \<Rightarrow> nat \<Rightarrow> byte) \<Rightarrow> bytes \<Rightarrow> int \<Rightarrow> core \<Rightarrow> (u64 \<times> core) res" where
  "invite fresh nm fd co =
     (let (_, h, co1) = create_invitation co in
      rbind (attach_message_pipe_to_invitation h nm MOJO_HANDLE_INVALID co1) (\<lambda>(_, pipe, co2).
      rbind (core_send_invitation fresh h fd co2) (\<lambda>(_, co3). Inr (pipe, co3))))"

text \<open>The invited program: the invitation accepted and the pipe extracted.\<close>

definition join_invitation :: "(nat \<Rightarrow> nat \<Rightarrow> byte) \<Rightarrow> bytes \<Rightarrow> int \<Rightarrow> core \<Rightarrow> (u64 \<times> core) res" where
  "join_invitation fresh nm fd co =
     rbind (core_accept_invitation fd co) (\<lambda>(_, h, co1).
     rbind (extract_message_pipe_from_invitation fresh h nm MOJO_HANDLE_INVALID co1) (\<lambda>(_, pipe, co2). Inr (pipe, co2)))"

text \<open>The first names a new process draws: the node's own, two port names, and then one more node name.\<close>

definition good_names :: "(nat \<Rightarrow> nat \<Rightarrow> name) \<Rightarrow> bool" where
  "good_names src \<longleftrightarrow> src 1 0 \<noteq> src 1 1 \<and> src 1 0 \<noteq> kInvalidName \<and> src 1 1 \<noteq> kInvalidName"

text \<open>The node of a new process after it has made its first pair.\<close>

definition paired_node :: "(nat \<Rightarrow> nat \<Rightarrow> name) \<Rightarrow> ports_node" where
  "paired_node src = snd (snd (snd (projr (create_port_pair port_ref_default port_ref_default (ct_node (controller_new src))))))"

lemma new_sel:
  "ct_name (controller_new src) = src 0 0" "ct_peers (controller_new src) = (\<lambda>_. None)"
  "ct_pending_peer_messages (controller_new src) = (\<lambda>_. None)" "ct_reserved_ports (controller_new src) = []"
  "ct_pending_port_merges (controller_new src) = []" "ct_pending_invitations (controller_new src) = (\<lambda>_. None)"
  "ct_channels (controller_new src) = []" "ct_inviter_name (controller_new src) = kInvalidName"
  "nd_name (ct_node (controller_new src)) = src 0 0" "nd_ports (ct_node (controller_new src)) = (\<lambda>_. None)"
  "nd_heap (ct_node (controller_new src)) = []" "nd_peer_port_maps (ct_node (controller_new src)) = (\<lambda>_. None)"
  "ct_inviter_channel (controller_new src) = None"
  by (simp_all add: controller_new_def generate_random_name_def rng_new_def node_new_def)

lemma first_pair:
  assumes "good_names src"
  shows "create_port_pair r0 r1 (ct_node (controller_new src)) =
      Inr (node_OK, port_ref_make (src 1 0) (Some 0), port_ref_make (src 1 1) (Some 1), paired_node src)"
    and "nd_ports (paired_node src) = [src 1 0 \<mapsto> Some 0, src 1 1 \<mapsto> Some 1]"
    and "nd_heap (paired_node src) = [linked_port (src 0 0) (src 1 1), linked_port (src 0 0) (src 1 0)]"
    and "nd_name (paired_node src) = src 0 0" and "rg_source (nd_rng (paired_node src)) = src"
    and "rg_calls (nd_rng (paired_node src)) = 2"
    and "peer_ref (paired_node src) (src 0 0) (src 1 0) (src 1 1) = Some (port_ref_make (src 1 1) (Some 1))"
proof -
  let ?nd = "ct_node (controller_new src)"
  define g0 where "g0 = snd (generate_random_port_name (nd_rng ?nd))"
  define g1 where "g1 = snd (generate_random_port_name g0)"
  have rng: "nd_rng ?nd = (rng_new src)\<lparr>rg_calls := 1\<rparr>"
    by (simp add: controller_new_def generate_random_name_def rng_new_def node_new_def)
  have g0: "generate_random_port_name (nd_rng ?nd) = (src 1 0, g0)"
    by (simp add: g0_def rng generate_random_port_name_def rng_new_def kRandomNameCacheSize_def)
  have g1: "generate_random_port_name g0 = (src 1 1, g1)"
    by (simp add: g1_def g0_def rng generate_random_port_name_def rng_new_def kRandomNameCacheSize_def)
  have rg: "rg_source g1 = src" "rg_calls g1 = 2"
    by (simp_all add: g1_def g0_def rng generate_random_port_name_def rng_new_def kRandomNameCacheSize_def)
  have eq: "create_port_pair r0 r1 ?nd = Inr (node_OK, port_ref_make (src 1 0) (Some 0), port_ref_make (src 1 1) (Some 1),
    register_peer (src 0 0) (src 1 0) (src 1 1) (port_ref_make (src 1 1) (Some 1))
      (register_peer (src 0 0) (src 1 1) (src 1 0) (port_ref_make (src 1 0) (Some 0))
        (?nd\<lparr>nd_rng := g1, nd_heap := [linked_port (src 0 0) (src 1 1), linked_port (src 0 0) (src 1 0)],
            nd_ports := [src 1 0 \<mapsto> Some 0, src 1 1 \<mapsto> Some 1]\<rparr>)))" for r0 r1
    using create_port_pair_eq [OF g0 g1, of r0 r1] assms by (simp add: good_names_def new_sel)
  show "create_port_pair r0 r1 ?nd =
      Inr (node_OK, port_ref_make (src 1 0) (Some 0), port_ref_make (src 1 1) (Some 1), paired_node src)"
    by (simp add: paired_node_def eq)
  show "nd_ports (paired_node src) = [src 1 0 \<mapsto> Some 0, src 1 1 \<mapsto> Some 1]"
    "nd_heap (paired_node src) = [linked_port (src 0 0) (src 1 1), linked_port (src 0 0) (src 1 0)]"
    "nd_name (paired_node src) = src 0 0" "rg_source (nd_rng (paired_node src)) = src"
    "rg_calls (nd_rng (paired_node src)) = 2"
    by (simp_all add: paired_node_def eq node_simps rg new_sel)
  let ?nd1 = "?nd\<lparr>nd_rng := g1, nd_heap := [linked_port (src 0 0) (src 1 1), linked_port (src 0 0) (src 1 0)],
            nd_ports := [src 1 0 \<mapsto> Some 0, src 1 1 \<mapsto> Some 1]\<rparr>"
  have "refs_inv ?nd1" "peer_ref ?nd1 = (\<lambda>_ _ _. None)"
    by (simp_all add: refs_inv_def peer_ref_def new_sel fun_eq_iff)
  then show "peer_ref (paired_node src) (src 0 0) (src 1 0) (src 1 1) = Some (port_ref_make (src 1 1) (Some 1))"
    using assms by (auto simp: paired_node_def eq register_peer_ref good_names_def)
qed

definition paired_controller :: "(nat \<Rightarrow> nat \<Rightarrow> name) \<Rightarrow> controller" where
  "paired_controller src = (set_io_task_runner (Some io_new) (controller_new src))\<lparr>ct_node := paired_node src\<rparr>"

lemma paired_wf:
  assumes "good_names src"
  shows "ct_wf (paired_controller src)"
proof -
  have "ct_reach fresh (paired_controller src)" for fresh
    unfolding paired_controller_def
    by (rule cr_pair [OF cr_io [OF cr_new], where ?r0.0 = port_ref_default and ?r1.0 = port_ref_default])
       (simp add: set_io_task_runner_def first_pair [OF assms])
  then show ?thesis by (rule ct_reach_wf)
qed

text \<open>Making and starting a channel with a runner.\<close>

lemma make_channel:
  assumes "ct_io_task_runner ct = Some io"
  shows "create_channel fd ct = Inr (length (ct_channels ct), ct\<lparr>ct_channels := ct_channels ct @
      [\<lparr>nc_channel = Some (channel_new fd), nc_remote_node_name = kInvalidName\<rparr>],
      ct_io_task_runner := Some (set_delegate fd (length (ct_channels ct)) io)\<rparr>)"
  using assms by (simp add: create_channel_def node_channel_create_def channel_create_def Let_def)

lemma start_new_channel:
  assumes "ct_io_task_runner ct = Some io" and "ct_channels ct ! i = \<lparr>nc_channel = Some (channel_new fd), nc_remote_node_name = x\<rparr>"
    and "i < length (ct_channels ct)"
  shows "start_channel_of (Some i) ct = Inr (ct\<lparr>ct_io_task_runner := Some (add_fd_event fd kReadWritable io)\<rparr>)"
  using assms by (simp add: start_channel_of_def deref_channel_def nc_start_def channel_start_def channel_new_def)

lemma new_channel_open:
  "is_open \<lparr>nc_channel = Some (channel_new fd), nc_remote_node_name = x\<rparr>"
  "outbox \<lparr>nc_channel = Some (channel_new fd), nc_remote_node_name = x\<rparr> = []"
  by (simp_all add: is_open_def outbox_def channel_new_def)

lemma send_first_invitation:
  assumes good: "good_names src"
  obtains ct where "send_invitation fresh fd [(nm, port_ref_make (src 1 1) (Some 1))] (paired_controller src) = Inr ct"
    and "inviting ct (src 2 0) nm (src 1 0) 0 (src 1 1) 1" and "ct_name ct = src 0 0"
    and "nd_heap (ct_node ct) = nd_heap (paired_node src)" and "nd_ports (ct_node ct) = nd_ports (paired_node src)"
proof -
  let ?ct = "paired_controller src" and ?x = "[(nm, port_ref_make (src 1 1) (Some 1))]"
  have sel: "ct_io_task_runner ?ct = Some io_new" "ct_channels ?ct = []" "ct_reserved_ports ?ct = []" "ct_node ?ct = paired_node src"
    "ct_pending_invitations ?ct = (\<lambda>_. None)" "ct_name ?ct = src 0 0" "ct_peers ?ct = (\<lambda>_. None)"
    "ct_pending_peer_messages ?ct = (\<lambda>_. None)"
    by (simp_all add: paired_controller_def set_io_task_runner_def new_sel)
  note pair = first_pair [OF good]
  have temp: "generate_random_name (nd_rng (paired_node src)) = (src 2 0, (nd_rng (paired_node src))\<lparr>rg_calls := 3\<rparr>)"
    using pair(5,6) by (simp add: generate_random_name_def)
  obtain ct where ct: "send_invitation fresh fd ?x ?ct = Inr ct"
    and f: "ct_name ct = src 0 0" "ct_node ct = (paired_node src)\<lparr>nd_rng := (nd_rng (paired_node src))\<lparr>rg_calls := 3\<rparr>\<rparr>"
      "only_channel ct (src 2 0) [sent (AcceptInvitee (src 2 0) (src 0 0))]" "ct_pending_invitations ct = [src 2 0 \<mapsto> 0]"
      "ct_peers ct = (\<lambda>_. None)" "ct_pending_peer_messages ct = (\<lambda>_. None)" "ct_reserved_ports ct = [(src 2 0, ?x)]"
    by (simp add: send_invitation_def temp sel make_channel start_new_channel effect_simps set_remote_node_name_def
        om_index_def om_erase_def um_emplace_def only_channel_def outbox_send sent_def new_channel_open
        referenced_def)
  have "ref_ok (ct_node ?ct) (port_ref_make (src 1 1) (Some 1))" by (simp add: ref_ok_def sel port_ref_make_sel pair(3))
  then have "ct_wf ct" using send_invitation_wf [OF paired_wf [OF good] _ ct] by simp
  then have "inviting ct (src 2 0) nm (src 1 0) 0 (src 1 1) 1"
    using good f pair(2,3) by (simp add: inviting_def good_names_def linked_port_def)
  then show thesis using that [OF ct] f by simp
qed

lemma accept_first_invitation:
  assumes good: "good_names src"
  obtains ct where "accept_invitation fd (set_io_task_runner (Some io_new) (controller_new src)) = Inr ct"
    and "\<And>fresh nm. merge_port_into_inviter fresh nm (port_ref_make (src 1 0) (Some 0)) (ct\<lparr>ct_node := paired_node src\<rparr>) =
      Inr (ct\<lparr>ct_node := paired_node src, ct_pending_port_merges := [(nm, port_ref_make (src 1 0) (Some 0))]\<rparr>)"
    and "\<And>nm. invited (ct\<lparr>ct_node := paired_node src, ct_pending_port_merges := [(nm, port_ref_make (src 1 0) (Some 0))]\<rparr>)
      nm (src 1 0) 0 (src 1 1) 1"
    and "ct_name ct = src 0 0" and "ct_node ct = ct_node (controller_new src)"
proof -
  let ?ct = "set_io_task_runner (Some io_new) (controller_new src)"
  note pair = first_pair [OF good]
  have io: "ct_io_task_runner ?ct = Some io_new" by (simp add: set_io_task_runner_def)
  obtain ct where ct: "accept_invitation fd ?ct = Inr ct"
    and f: "ct_name ct = src 0 0" "ct_node ct = ct_node (controller_new src)" "only_channel ct kInvalidName []"
      "ct_inviter_channel ct = Some 0" "ct_peers ct = (\<lambda>_. None)" "ct_pending_peer_messages ct = (\<lambda>_. None)"
      "ct_pending_port_merges ct = []"
    by (simp add: accept_invitation_def make_channel start_new_channel set_io_task_runner_def new_sel only_channel_def
        new_channel_open)
  have "ct_wf ?ct" using ct_wf_new [of src] by (simp add: ct_wf_def channels_ok_def set_io_task_runner_def io_wf_new)
  then have "ct_wf ct" using ct by (rule accept_invitation_wf)
  moreover have "node_wf (paired_node src)" using paired_wf [OF good] by (simp add: ct_wf_def paired_controller_def)
  ultimately have "ct_wf (ct\<lparr>ct_node := paired_node src\<rparr>)"
    using f(1,2) pair(3,4) by (intro ct_wf_node) (simp_all add: new_sel)
  then have wf: "ct_wf (ct\<lparr>ct_node := paired_node src, ct_pending_port_merges := [(nm, port_ref_make (src 1 0) (Some 0))]\<rparr>)" for nm
    by (simp add: ct_wf_def channels_ok_def ref_ok_def port_ref_make_sel pair(3))
  have inv: "invited (ct\<lparr>ct_node := paired_node src, ct_pending_port_merges := [(nm, port_ref_make (src 1 0) (Some 0))]\<rparr>)
      nm (src 1 0) 0 (src 1 1) 1" for nm
    using good f wf pair by (auto simp: invited_def only_channel_def good_names_def linked_port_def)
  show thesis
    by (rule that [OF ct _ inv]) (simp_all add: f merge_port_into_inviter_def get_inviter_channel_def get_peer_channel_def)
qed

text \<open>The handles of a process that has added two dispatchers.\<close>

lemma two_handles:
  "ht_add_dispatcher d handle_table_new = (1, ht_after [d])" "ht_add_dispatcher e (ht_after [d]) = (2, ht_after [d, e])"
  "ht_get_dispatcher 1 (ht_after (d # ds)) = Some d" "ht_get_dispatcher 2 (ht_after [d, e]) = Some e"
proof -
  show "ht_add_dispatcher d handle_table_new = (1, ht_after [d])" "ht_add_dispatcher e (ht_after [d]) = (2, ht_after [d, e])"
    using ht_add_after [of d "[]"] ht_add_after [of e "[d]"] by (simp_all add: ht_after_nil handle_of_def)
  show "ht_get_dispatcher 1 (ht_after (d # ds)) = Some d" "ht_get_dispatcher 2 (ht_after [d, e]) = Some e"
    by (simp_all add: ht_get_dispatcher_def ht_after_def)
qed

lemma invite_first:
  assumes good: "good_names src"
  obtains co where "invite fresh nm fd (started src) = Inr (2, co)"
    and "inviting (co_controller co) (src 2 0) nm (src 1 0) 0 (src 1 1) 1" and "ct_name (co_controller co) = src 0 0"
    and "nd_heap (ct_node (co_controller co)) = nd_heap (paired_node src)"
    and "get_dispatcher 2 co = Some (1, MessagePipeDispatcher (port_ref_make (src 1 0) (Some 0)))"
proof -
  obtain ct where ct: "send_invitation fresh fd [(nm, port_ref_make (src 1 1) (Some 1))] (paired_controller src) = Inr ct"
    "inviting ct (src 2 0) nm (src 1 0) 0 (src 1 1) 1" "ct_name ct = src 0 0"
    "nd_heap (ct_node ct) = nd_heap (paired_node src)" "nd_ports (ct_node ct) = nd_ports (paired_node src)"
    by (rule send_first_invitation [OF good])
  let ?co = "\<lparr>co_handle_table = ht_after [0, 1],
      co_dispatchers = [InvitationDispatcher [] False, MessagePipeDispatcher (port_ref_make (src 1 0) (Some 0))],
      co_controller = ct\<rparr>"
  have one: "ct_node (set_io_task_runner io c) = ct_node c" for io c by (simp add: set_io_task_runner_def)
  have "invite fresh nm fd (started src) = Inr (2, ?co)"
    using ct(1) first_pair(1) [OF good]
    by (simp add: invite_def started_def core_set_io_task_runner_def core_new_def create_invitation_def add_dispatcher_def
        two_handles MOJO_HANDLE_INVALID_def attach_message_pipe_to_invitation_def get_dispatcher_def invitation_create_def
        create_partial_message_pipe_def core_port_pair_def one update_dispatcher_def MOJO_RESULT_OK_def
        core_send_invitation_def paired_controller_def)
  then show thesis by (rule that) (use ct in \<open>simp_all add: get_dispatcher_def two_handles\<close>)
qed

lemma join_first:
  assumes good: "good_names src"
  obtains co where "join_invitation fresh nm fd (started src) = Inr (2, co)"
    and "invited (co_controller co) nm (src 1 0) 0 (src 1 1) 1" and "ct_name (co_controller co) = src 0 0"
    and "nd_heap (ct_node (co_controller co)) = nd_heap (paired_node src)"
    and "get_dispatcher 2 co = Some (1, MessagePipeDispatcher (port_ref_make (src 1 0) (Some 0)))"
proof -
  obtain ct where ct: "accept_invitation fd (set_io_task_runner (Some io_new) (controller_new src)) = Inr ct"
    "\<And>fresh nm. merge_port_into_inviter fresh nm (port_ref_make (src 1 0) (Some 0)) (ct\<lparr>ct_node := paired_node src\<rparr>) =
      Inr (ct\<lparr>ct_node := paired_node src, ct_pending_port_merges := [(nm, port_ref_make (src 1 0) (Some 0))]\<rparr>)"
    "\<And>nm. invited (ct\<lparr>ct_node := paired_node src, ct_pending_port_merges := [(nm, port_ref_make (src 1 0) (Some 0))]\<rparr>)
      nm (src 1 0) 0 (src 1 1) 1"
    "ct_name ct = src 0 0" "ct_node ct = ct_node (controller_new src)"
    using accept_first_invitation [OF good, of fd] by metis
  let ?co = "\<lparr>co_handle_table = ht_after [0, 1],
      co_dispatchers = [InvitationDispatcher [] False, MessagePipeDispatcher (port_ref_make (src 1 0) (Some 0))],
      co_controller = ct\<lparr>ct_node := paired_node src, ct_pending_port_merges := [(nm, port_ref_make (src 1 0) (Some 0))]\<rparr>\<rparr>"
  have "join_invitation fresh nm fd (started src) = Inr (2, ?co)"
    using ct first_pair(1) [OF good]
    by (simp add: join_invitation_def core_accept_invitation_def started_def core_set_io_task_runner_def core_new_def
        add_dispatcher_def two_handles MOJO_HANDLE_INVALID_def get_dispatcher_def invitation_create_def
        extract_message_pipe_from_invitation_def extract_message_pipe_def MOJO_RESULT_OK_def MOJO_RESULT_NOT_FOUND_def
        extract_from_inviter_def core_port_pair_def)
  then show thesis by (rule that) (use ct in \<open>simp_all add: get_dispatcher_def two_handles\<close>)
qed

section \<open>Two processes\<close>

text \<open>Both programs, and then the three exchanges that the handshake takes.\<close>

definition connect :: "(nat \<Rightarrow> nat \<Rightarrow> byte) \<Rightarrow> bytes \<Rightarrow> int \<Rightarrow> int \<Rightarrow> core \<Rightarrow> core \<Rightarrow> (u64 \<times> u64 \<times> core \<times> core) res" where
  "connect fresh nm fda fdb A B =
     rbind (invite fresh nm fda A) (\<lambda>(pa, A).
     rbind (join_invitation fresh nm fdb B) (\<lambda>(pb, B).
     rbind (exchange fresh 0 (co_controller A) 0 (co_controller B)) (\<lambda>(a, b).
     rbind (exchange fresh 0 b 0 a) (\<lambda>(b, a).
     rbind (exchange fresh 0 a 0 b) (\<lambda>(a, b).
       Inr (pa, pb, A\<lparr>co_controller := a\<rparr>, B\<lparr>co_controller := b\<rparr>))))))"

definition port_queue :: "controller \<Rightarrow> nat \<Rightarrow> user_message list" where
  "port_queue ct a = mq_heap (pt_message_queue (nd_heap (ct_node ct) ! a))"

lemma get_dispatcher_controller [simp]: "get_dispatcher h (co\<lparr>co_controller := ct\<rparr>) = get_dispatcher h co"
  by (cases "ht_get_dispatcher h (co_handle_table co)") (simp_all add: get_dispatcher_def)

text \<open>The two programs, and the first two exchanges.\<close>

lemma connect_stages:
  assumes good: "good_names srcA" "good_names srcB" and temp: "srcA 2 0 \<noteq> srcB 0 0" and len: "length nm < 104"
  obtains A B a1 b1 a2 where "invite fresh nm fda (started srcA) = Inr (2, A)"
    "inviting (co_controller A) (srcA 2 0) nm (srcA 1 0) 0 (srcA 1 1) 1" "ct_name (co_controller A) = srcA 0 0"
    "nd_heap (ct_node (co_controller A)) = nd_heap (paired_node srcA)"
    "get_dispatcher 2 A = Some (1, MessagePipeDispatcher (port_ref_make (srcA 1 0) (Some 0)))"
    and "join_invitation fresh nm fdb (started srcB) = Inr (2, B)"
    "invited (co_controller B) nm (srcB 1 0) 0 (srcB 1 1) 1" "ct_name (co_controller B) = srcB 0 0"
    "nd_heap (ct_node (co_controller B)) = nd_heap (paired_node srcB)"
    "get_dispatcher 2 B = Some (1, MessagePipeDispatcher (port_ref_make (srcB 1 0) (Some 0)))"
    and "exchange fresh 0 (co_controller A) 0 (co_controller B) = Inr (a1, b1)" "ct_wf a1" "ct_wf b1"
    "a1 = (co_controller A)\<lparr>ct_channels := [emptied (ct_channels (co_controller A) ! 0)]\<rparr>"
    "only_channel b1 (ct_name (co_controller A)) [sent (AcceptInvitation (srcA 2 0) (ct_name (co_controller B))), sent (RequestPortMerge (srcB 1 0) nm)]"
    "ct_peers b1 = [ct_name (co_controller A) \<mapsto> 0]" "ct_node b1 = ct_node (co_controller B)" "ct_name b1 = ct_name (co_controller B)" "ct_pending_peer_messages b1 = (\<lambda>_. None)"
    and "only_channel a1 (srcA 2 0) []" "ct_pending_invitations a1 (srcA 2 0) = Some 0" "ct_peers a1 = (\<lambda>_. None)"
    "ct_pending_peer_messages a1 = (\<lambda>_. None)" "ct_reserved_ports a1 = [(srcA 2 0, [(nm, port_ref_make (srcA 1 1) (Some 1))])]"
    "nd_ports (ct_node a1) (srcA 1 0) = Some (Some 0)" "srcA 1 0 \<noteq> srcA 1 1" "pt_peer_port_name (nd_heap (ct_node a1) ! 1) = srcA 1 0"
    "srcA 1 0 \<noteq> kInvalidName"
    and "exchange fresh 0 b1 0 a1 = Inr (b1\<lparr>ct_channels := [emptied (ct_channels b1 ! 0)]\<rparr>, a2)" "ct_wf a2"
    "only_channel a2 (ct_name b1) [sent (ResponsePortMerge (srcB 1 0) (srcA 1 0))]" "ct_peers a2 = [ct_name b1 \<mapsto> 0]" "ct_name a2 = ct_name a1"
    "nd_ports (ct_node a2) = (nd_ports (ct_node a1))(srcA 1 1 := None)"
    "nd_heap (ct_node a2) = (nd_heap (ct_node a1))[0 := (nd_heap (ct_node a1) ! 0)\<lparr>pt_peer_node_name := ct_name b1, pt_peer_port_name := srcB 1 0\<rparr>]"
proof -
  obtain A where A: "invite fresh nm fda (started srcA) = Inr (2, A)"
    "inviting (co_controller A) (srcA 2 0) nm (srcA 1 0) 0 (srcA 1 1) 1" "ct_name (co_controller A) = srcA 0 0"
    "nd_heap (ct_node (co_controller A)) = nd_heap (paired_node srcA)"
    "get_dispatcher 2 A = Some (1, MessagePipeDispatcher (port_ref_make (srcA 1 0) (Some 0)))"
    by (rule invite_first [OF good(1)])
  obtain B where B: "join_invitation fresh nm fdb (started srcB) = Inr (2, B)"
    "invited (co_controller B) nm (srcB 1 0) 0 (srcB 1 1) 1" "ct_name (co_controller B) = srcB 0 0"
    "nd_heap (ct_node (co_controller B)) = nd_heap (paired_node srcB)"
    "get_dispatcher 2 B = Some (1, MessagePipeDispatcher (port_ref_make (srcB 1 0) (Some 0)))"
    by (rule join_first [OF good(2)])
  let ?a = "co_controller A" and ?b = "co_controller B"
  obtain a1 b1 where 1: "exchange fresh 0 ?a 0 ?b = Inr (a1, b1)" "ct_wf a1" "ct_wf b1"
    "a1 = ?a\<lparr>ct_channels := [emptied (ct_channels ?a ! 0)]\<rparr>"
    "only_channel b1 (ct_name ?a) [sent (AcceptInvitation (srcA 2 0) (ct_name ?b)), sent (RequestPortMerge (srcB 1 0) nm)]"
    "ct_peers b1 = [ct_name ?a \<mapsto> 0]" "ct_node b1 = ct_node ?b" "ct_name b1 = ct_name ?b" "ct_pending_peer_messages b1 = (\<lambda>_. None)"
    by (rule exchange_invitation [OF A(2) B(2)])
  have a1: "only_channel a1 (srcA 2 0) []" "ct_pending_invitations a1 (srcA 2 0) = Some 0" "ct_peers a1 = (\<lambda>_. None)"
    "ct_pending_peer_messages a1 = (\<lambda>_. None)" "ct_reserved_ports a1 = [(srcA 2 0, [(nm, port_ref_make (srcA 1 1) (Some 1))])]"
    "nd_ports (ct_node a1) (srcA 1 0) = Some (Some 0)" "srcA 1 0 \<noteq> srcA 1 1" "pt_peer_port_name (nd_heap (ct_node a1) ! 1) = srcA 1 0"
    "srcA 1 0 \<noteq> kInvalidName"
    using A(2) by (simp_all add: 1(4) inviting_def only_channel_def)
  have b1: "only_channel b1 (srcA 0 0) [sent (AcceptInvitation (srcA 2 0) (ct_name b1)), sent (RequestPortMerge (srcB 1 0) nm)]"
    "srcA 2 0 \<noteq> ct_name b1" "srcB 1 0 \<noteq> kInvalidName"
    using 1(5,8) temp A(3) B(2,3) by (simp_all add: invited_def)
  obtain a2 where 2: "exchange fresh 0 b1 0 a1 = Inr (b1\<lparr>ct_channels := [emptied (ct_channels b1 ! 0)]\<rparr>, a2)" "ct_wf a2"
    "only_channel a2 (ct_name b1) [sent (ResponsePortMerge (srcB 1 0) (srcA 1 0))]" "ct_peers a2 = [ct_name b1 \<mapsto> 0]" "ct_name a2 = ct_name a1"
    "nd_ports (ct_node a2) = (nd_ports (ct_node a1))(srcA 1 1 := None)"
    "nd_heap (ct_node a2) = (nd_heap (ct_node a1))[0 := (nd_heap (ct_node a1) ! 0)\<lparr>pt_peer_node_name := ct_name b1, pt_peer_port_name := srcB 1 0\<rparr>]"
    by (rule exchange_answer [OF 1(2) a1(1-8) b1 len])
  show thesis by (rule that [OF A B 1 a1 2])
qed

lemma connect_connects:
  assumes good: "good_names srcA" "good_names srcB" and temp: "srcA 2 0 \<noteq> srcB 0 0" and len: "length nm < 104"
  obtains A B where "connect fresh nm fda fdb (started srcA) (started srcB) = Inr (2, 2, A, B)"
    and "get_dispatcher 2 A = Some (1, MessagePipeDispatcher (port_ref_make (srcA 1 0) (Some 0)))"
    and "get_dispatcher 2 B = Some (1, MessagePipeDispatcher (port_ref_make (srcB 1 0) (Some 0)))"
    and "connected (co_controller A) (srcA 1 0) 0 (srcB 0 0) (srcB 1 0) []"
    and "connected (co_controller B) (srcB 1 0) 0 (srcA 0 0) (srcA 1 0) []"
    and "nd_ports (ct_node (co_controller A)) (srcA 1 1) = None" and "nd_ports (ct_node (co_controller B)) (srcB 1 1) = None"
    and "port_queue (co_controller A) 0 = []" and "port_queue (co_controller B) 0 = []"
    and "ct_name (co_controller A) = srcA 0 0" and "ct_name (co_controller B) = srcB 0 0"
proof -
  obtain A B a1 b1 a2 where A: "invite fresh nm fda (started srcA) = Inr (2, A)"
    "inviting (co_controller A) (srcA 2 0) nm (srcA 1 0) 0 (srcA 1 1) 1" "ct_name (co_controller A) = srcA 0 0"
    "nd_heap (ct_node (co_controller A)) = nd_heap (paired_node srcA)"
    "get_dispatcher 2 A = Some (1, MessagePipeDispatcher (port_ref_make (srcA 1 0) (Some 0)))"
    and B: "join_invitation fresh nm fdb (started srcB) = Inr (2, B)"
    "invited (co_controller B) nm (srcB 1 0) 0 (srcB 1 1) 1" "ct_name (co_controller B) = srcB 0 0"
    "nd_heap (ct_node (co_controller B)) = nd_heap (paired_node srcB)"
    "get_dispatcher 2 B = Some (1, MessagePipeDispatcher (port_ref_make (srcB 1 0) (Some 0)))"
    and 1: "exchange fresh 0 (co_controller A) 0 (co_controller B) = Inr (a1, b1)" "ct_wf a1" "ct_wf b1"
    "a1 = (co_controller A)\<lparr>ct_channels := [emptied (ct_channels (co_controller A) ! 0)]\<rparr>"
    "only_channel b1 (ct_name (co_controller A)) [sent (AcceptInvitation (srcA 2 0) (ct_name (co_controller B))), sent (RequestPortMerge (srcB 1 0) nm)]"
    "ct_peers b1 = [ct_name (co_controller A) \<mapsto> 0]" "ct_node b1 = ct_node (co_controller B)" "ct_name b1 = ct_name (co_controller B)" "ct_pending_peer_messages b1 = (\<lambda>_. None)"
    and a1: "only_channel a1 (srcA 2 0) []" "ct_pending_invitations a1 (srcA 2 0) = Some 0" "ct_peers a1 = (\<lambda>_. None)"
    "ct_pending_peer_messages a1 = (\<lambda>_. None)" "ct_reserved_ports a1 = [(srcA 2 0, [(nm, port_ref_make (srcA 1 1) (Some 1))])]"
    "nd_ports (ct_node a1) (srcA 1 0) = Some (Some 0)" "srcA 1 0 \<noteq> srcA 1 1" "pt_peer_port_name (nd_heap (ct_node a1) ! 1) = srcA 1 0"
    "srcA 1 0 \<noteq> kInvalidName"
    and 2: "exchange fresh 0 b1 0 a1 = Inr (b1\<lparr>ct_channels := [emptied (ct_channels b1 ! 0)]\<rparr>, a2)" "ct_wf a2"
    "only_channel a2 (ct_name b1) [sent (ResponsePortMerge (srcB 1 0) (srcA 1 0))]" "ct_peers a2 = [ct_name b1 \<mapsto> 0]" "ct_name a2 = ct_name a1"
    "nd_ports (ct_node a2) = (nd_ports (ct_node a1))(srcA 1 1 := None)"
    "nd_heap (ct_node a2) = (nd_heap (ct_node a1))[0 := (nd_heap (ct_node a1) ! 0)\<lparr>pt_peer_node_name := ct_name b1, pt_peer_port_name := srcB 1 0\<rparr>]"
    by (rule connect_stages [OF good temp len])
  have b1: "only_channel b1 (srcA 0 0) [sent (AcceptInvitation (srcA 2 0) (ct_name b1)), sent (RequestPortMerge (srcB 1 0) nm)]"
    using 1(5,8) A(3) by simp
  let ?b2 = "b1\<lparr>ct_channels := [emptied (ct_channels b1 ! 0)]\<rparr>"
  have b2: "ct_wf ?b2" "only_channel ?b2 (srcA 0 0) []" "nd_ports (ct_node ?b2) (srcB 1 0) = Some (Some 0)"
    "pt_peer_port_name (nd_heap (ct_node ?b2) ! 0) = srcB 1 1"
    "peer_ref (ct_node ?b2) (ct_name ?b2) (srcB 1 0) (srcB 1 1) = Some (port_ref_make (srcB 1 1) (Some 1))" "srcB 1 0 \<noteq> srcB 1 1"
    "pt_peer_port_name (nd_heap (ct_node ?b2) ! 1) = srcB 1 0"
    using B(2) 1(3,7,8) b1(1) by (simp_all add: invited_def only_channel_def ct_wf_def channels_ok_def)
  obtain b3 where 3: "exchange fresh 0 a2 0 ?b2 = Inr (a2\<lparr>ct_channels := [emptied (ct_channels a2 ! 0)]\<rparr>, b3)" "ct_wf b3"
    "only_channel b3 (srcA 0 0) []" "ct_peers b3 = ct_peers ?b2" "ct_name b3 = ct_name ?b2" "nd_ports (ct_node b3) = (nd_ports (ct_node ?b2))(srcB 1 1 := None)"
    "nd_heap (ct_node b3) = (nd_heap (ct_node ?b2))[0 := (nd_heap (ct_node ?b2) ! 0)\<lparr>pt_peer_node_name := srcA 0 0, pt_peer_port_name := srcA 1 0\<rparr>]"
    by (rule exchange_response [OF 2(2,3) b2 a1(9)])
  let ?a3 = "a2\<lparr>ct_channels := [emptied (ct_channels a2 ! 0)]\<rparr>"
  have heap: "nd_heap (ct_node a1) = nd_heap (paired_node srcA)" "nd_heap (ct_node ?b2) = nd_heap (paired_node srcB)"
    using A(4) B(4) 1(4,7) by simp_all
  have "connect fresh nm fda fdb (started srcA) (started srcB) = Inr (2, 2, A\<lparr>co_controller := ?a3\<rparr>, B\<lparr>co_controller := b3\<rparr>)"
    by (simp add: connect_def A(1) B(1) 1(1) 2(1) 3(1))
  then show thesis
  proof (rule that)
    show "connected (co_controller (A\<lparr>co_controller := ?a3\<rparr>)) (srcA 1 0) 0 (srcB 0 0) (srcB 1 0) []"
      using 2 a1 1(8) B(3) heap first_pair(3) [OF good(1)]
      by (simp add: connected_def only_channel_def ct_wf_def channels_ok_def)
    show "connected (co_controller (B\<lparr>co_controller := b3\<rparr>)) (srcB 1 0) 0 (srcA 0 0) (srcA 1 0) []"
      using 3 b2 1(6) A(3) heap first_pair(3) [OF good(2)] by (simp add: connected_def)
    show "port_queue (co_controller (A\<lparr>co_controller := ?a3\<rparr>)) 0 = []" "port_queue (co_controller (B\<lparr>co_controller := b3\<rparr>)) 0 = []"
      using 2(7) 3(7) heap first_pair(3) [OF good(1)] first_pair(3) [OF good(2)]
      by (simp_all add: port_queue_def linked_port_def port_create_def mq_new_def mq_from_def)
  qed (use A(3,5) B(3,5) 1(4,8) 2(5,6) 3(5,6) in simp_all)
qed

end
