(* ===== verification/Conversation.thy ===== *)
theory Conversation
  imports Handshake
begin

text \<open>
  Messages between two connected processes: written through the public interface, carried by an
  exchange, read through the public interface.
\<close>

section \<open>Writing\<close>

text \<open>A user message from port \<open>own\<close> to port \<open>other\<close>.\<close>

definition pipe_message :: "port_name \<Rightarrow> port_name \<Rightarrow> bytes \<Rightarrow> user_message" where
  "pipe_message own other str = \<lparr>um_from_port_name = own, um_to_port_name = other, um_data = str\<rparr>"

fun write_all :: "(nat \<Rightarrow> nat \<Rightarrow> byte) \<Rightarrow> u64 \<Rightarrow> bytes list \<Rightarrow> core \<Rightarrow> core res" where
  "write_all fresh h [] co = Inr co"
| "write_all fresh h (str # strs) co = rbind (write_message fresh h str co) (\<lambda>(_, co1). write_all fresh h strs co1)"

lemma write_step:
  assumes conn: "connected (co_controller co) own a peer other ps" and "peer \<noteq> ct_name (co_controller co)"
    and disp: "get_dispatcher h co = Some (i, MessagePipeDispatcher (port_ref_make own (Some a)))"
  obtains ct where "write_message fresh h str co = Inr (None, co\<lparr>co_controller := ct\<rparr>)"
    and "connected ct own a peer other (ps @ [sent (UserMessage (pipe_message own other str))])"
    and "ct_name ct = ct_name (co_controller co)" and "ct_node ct = ct_node (co_controller co)"
proof -
  let ?ct = "co_controller co" and ?r = "port_ref_make own (Some a)"
  let ?m = "user_message_default\<lparr>um_data := str\<rparr>"
  let ?ev = "attach_message (UserMessage ?m) event_create" and ?p = "nd_heap (ct_node ?ct) ! a"
  have wf: "ct_wf ?ct" and nd: "node_wf (ct_node ?ct)" "nd_ports (ct_node ?ct) own = Some (Some a)"
    using conn by (simp_all add: connected_def ct_wf_def)
  have a: "a < length (nd_heap (ct_node ?ct))" using node_wf_ports [OF nd] by auto
  have p: "pt_peer_node_name ?p = peer" "pt_peer_port_name ?p = other" "ct_peers ?ct peer = Some 0"
    and ch: "only_channel ?ct peer ps"
    using conn by (simp_all add: connected_def)
  have out: "outgoing ?r ?p ?m = sent (UserMessage (pipe_message own other str))"
    by (simp add: outgoing_def p(2) port_ref_make_sel sent_def pipe_message_def user_message_default_def)
  let ?ct' = "?ct\<lparr>ct_channels := (ct_channels ?ct)[0 := send_channel_message (outgoing ?r ?p ?m) (ct_channels ?ct ! 0)]\<rparr>"
  have zero: "0 < length (ct_channels ?ct)" using ch by (simp add: only_channel_def)
  obtain ev' where send: "send_user_message fresh ?r ?ev ?ct = Inr (None, ev', ?ct')"
    using send_user_message_eq [of ?r a ?ct ?ev ?m ?p fresh] a p assms(2) zero
    by (auto simp: port_ref_make_sel attach_message_def effect_simps)
  have "ct_wf ?ct'" by (rule send_user_message_wf [OF wf send])
  then have "connected ?ct' own a peer other (ps @ [sent (UserMessage (pipe_message own other str))])"
    using conn zero by (simp add: connected_def only_channel_def outbox_send out)
  moreover have "write_message fresh h str co = Inr (None, co\<lparr>co_controller := ?ct'\<rparr>)"
    by (simp add: write_message_def disp pipe_write_message_def send)
  ultimately show thesis using that by simp
qed

lemma write_all_queues:
  assumes "connected (co_controller co) own a peer other ps" and "peer \<noteq> ct_name (co_controller co)"
    and "get_dispatcher h co = Some (i, MessagePipeDispatcher (port_ref_make own (Some a)))"
  shows "\<exists>ct. write_all fresh h strs co = Inr (co\<lparr>co_controller := ct\<rparr>)
    \<and> connected ct own a peer other (ps @ map (\<lambda>str. sent (UserMessage (pipe_message own other str))) strs)"
  using assms
proof (induction strs arbitrary: co ps)
  case Nil
  then show ?case by (intro exI [of _ "co_controller co"]) simp
next
  case (Cons str strs)
  obtain ct where ct: "write_message fresh h str co = Inr (None, co\<lparr>co_controller := ct\<rparr>)"
    "connected ct own a peer other (ps @ [sent (UserMessage (pipe_message own other str))])"
    "ct_name ct = ct_name (co_controller co)" "ct_node ct = ct_node (co_controller co)"
    by (rule write_step [OF Cons.prems])
  from Cons.IH [of "co\<lparr>co_controller := ct\<rparr>" "ps @ [sent (UserMessage (pipe_message own other str))]"] ct Cons.prems(2,3)
  show ?case by simp
qed

section \<open>Delivery\<close>

lemma deliver_step:
  assumes conn: "connected ct own a peer other ps" and to: "um_to_port_name m = own" and len: "length (um_data m) < 92"
  obtains ct' where "receive fresh 0 (arrived (sent (UserMessage m))) ct = Inr ct'"
    and "connected ct' own a peer other ps" and "port_queue ct' a = port_queue ct a @ [m]" and "ct_name ct' = ct_name ct"
proof -
  have wf: "ct_wf ct" and nd: "node_wf (ct_node ct)" and port: "nd_ports (ct_node ct) own = Some (Some a)"
    using conn by (simp_all add: connected_def ct_wf_def)
  have a: "a < length (nd_heap (ct_node ct))" using node_wf_ports [OF nd port] by auto
  let ?ct = "ct\<lparr>ct_node := deliver_to a m (ct_node ct)\<rparr>"
  have "0 < length (ct_channels ct)" using conn by (simp add: connected_def only_channel_def)
  then have rec: "receive fresh 0 (arrived (sent (UserMessage m))) ct = Inr ?ct"
    using receive_sent [of 0 ct "UserMessage m" fresh] len message_lengths(5) [of m] ct_on_user_message_eq [OF nd, of _ m]
    by (simp add: controller_delegate_def to port)
  show thesis
    by (rule that [OF rec])
       (use conn a receive_wf [OF wf rec] in \<open>simp_all add: connected_def only_channel_def deliver_to_def port_queue_def\<close>)
qed

lemma deliver_all:
  assumes "connected ct own a peer other ps" and "\<forall>m \<in> set ms. um_to_port_name m = own \<and> length (um_data m) < 92"
  shows "\<exists>ct'. handle_all (receive fresh 0) (map (\<lambda>m. arrived (sent (UserMessage m))) ms) ct = Inr ct'
    \<and> connected ct' own a peer other ps \<and> port_queue ct' a = port_queue ct a @ ms \<and> ct_name ct' = ct_name ct"
  using assms
proof (induction ms arbitrary: ct)
  case (Cons m ms)
  have m: "um_to_port_name m = own" "length (um_data m) < 92" using Cons.prems(2) by simp_all
  obtain ct1 where ct1: "receive fresh 0 (arrived (sent (UserMessage m))) ct = Inr ct1"
    "connected ct1 own a peer other ps" "port_queue ct1 a = port_queue ct a @ [m]" "ct_name ct1 = ct_name ct"
    by (rule deliver_step [OF Cons.prems(1) m])
  then show ?case using Cons.IH [OF ct1(2)] Cons.prems(2) by simp
qed simp

section \<open>Reading\<close>

text \<open>What a caller sees of each read: the result and the data of the message in the event.\<close>

fun read_all :: "nat \<Rightarrow> u64 \<Rightarrow> core \<Rightarrow> ((u32 \<times> bytes option) list \<times> core) res" where
  "read_all 0 h co = Inr ([], co)"
| "read_all (Suc n) h co =
     rbind (read_message h event_create co) (\<lambda>(r, ev, co1).
     rbind (read_all n h co1) (\<lambda>(xs, co2). Inr ((r, map_option um_data (get_user_message ev)) # xs, co2)))"

lemma read_step:
  assumes conn: "connected (co_controller co) own a peer other ps"
    and disp: "get_dispatcher h co = Some (i, MessagePipeDispatcher (port_ref_make own (Some a)))"
  obtains ct ev' where "read_message h ev co = Inr (MOJO_RESULT_OK, ev', co\<lparr>co_controller := ct\<rparr>)"
    and "connected ct own a peer other ps"
    and "port_queue ct a = butlast (port_queue (co_controller co) a)"
    and "get_user_message ev' = Some (if port_queue (co_controller co) a = [] then user_message_default
           else last (port_queue (co_controller co) a))"
    and "ct_name ct = ct_name (co_controller co)"
proof -
  let ?ct = "co_controller co" and ?r = "port_ref_make own (Some a)"
  let ?q = "pt_message_queue (nd_heap (ct_node ?ct) ! a)"
  have wf: "ct_wf ?ct" and nd: "node_wf (ct_node ?ct)" "nd_ports (ct_node ?ct) own = Some (Some a)"
    using conn by (simp_all add: connected_def ct_wf_def)
  have a: "a < length (nd_heap (ct_node ?ct))" using node_wf_ports [OF nd] by auto
  show thesis
  proof (cases "mq_heap ?q = []")
    case True
    have get: "ct_get_user_message ?r (attach_message (UserMessage user_message_default) ev) ?ct =
        Inr (node_OK, attach_message (UserMessage user_message_default) ev, ?ct)"
      using True a by (simp add: ct_get_user_message_def node_get_message_def port_ref_make_sel node_simps has_next_message_def)
    show thesis
      by (rule that [of "attach_message (UserMessage user_message_default) ev" ?ct])
         (use get conn True in \<open>simp_all add: read_message_def disp pipe_read_message_def port_queue_def attach_message_def get_user_message_def\<close>)
  next
    case False
    let ?nd = "set_port (Some a) ((nd_heap (ct_node ?ct) ! a)\<lparr>pt_message_queue := ?q\<lparr>mq_heap := butlast (mq_heap ?q)\<rparr>\<rparr>) (ct_node ?ct)"
    let ?ev = "attach_message (UserMessage (last (mq_heap ?q))) (attach_message (UserMessage user_message_default) ev)"
    have get: "ct_get_user_message ?r (attach_message (UserMessage user_message_default) ev) ?ct =
        Inr (node_OK, ?ev, ?ct\<lparr>ct_node := ?nd\<rparr>)"
      using False a by (simp add: ct_get_user_message_def node_get_message_def port_ref_make_sel node_simps
          has_next_message_def get_next_message_def)
    show thesis
      by (rule that [of ?ev "?ct\<lparr>ct_node := ?nd\<rparr>"])
         (use get conn False a ct_get_user_message_wf [OF wf get] in \<open>simp_all add: read_message_def disp pipe_read_message_def
            port_queue_def attach_message_def get_user_message_def connected_def only_channel_def node_simps\<close>)
  qed
qed

lemma read_all_reverses:
  assumes "connected (co_controller co) own a peer other ps"
    and "get_dispatcher h co = Some (i, MessagePipeDispatcher (port_ref_make own (Some a)))"
    and "port_queue (co_controller co) a = ms"
  shows "\<exists>ct. read_all (length ms) h co = Inr (map (\<lambda>m. (MOJO_RESULT_OK, Some (um_data m))) (rev ms), co\<lparr>co_controller := ct\<rparr>)
    \<and> connected ct own a peer other ps \<and> port_queue ct a = []"
  using assms
proof (induction ms arbitrary: co rule: rev_induct)
  case Nil
  then show ?case by (intro exI [of _ "co_controller co"]) simp
next
  case (snoc m ms)
  obtain ct ev' where r: "read_message h event_create co = Inr (MOJO_RESULT_OK, ev', co\<lparr>co_controller := ct\<rparr>)"
    "connected ct own a peer other ps" "port_queue ct a = butlast (port_queue (co_controller co) a)"
    "get_user_message ev' = Some (if port_queue (co_controller co) a = [] then user_message_default
       else last (port_queue (co_controller co) a))"
    by (rule read_step [OF snoc.prems(1,2)])
  from snoc.IH [of "co\<lparr>co_controller := ct\<rparr>"] r snoc.prems(2,3) show ?case by auto
qed

section \<open>Properties\<close>

text \<open>
  C4: When one new process invites another with a pipe attached under a name of fewer than 104 bytes
  and the other accepts and extracts that pipe, three exchanges connect them: each has a handle to a
  message pipe whose port leads to the port behind the other's handle, each is the other's peer, and
  the two half ports that only served the handshake are gone. Nothing is left to send.
\<close>

theorem invitation_connects_processes:
  assumes "good_names srcA" and "good_names srcB" and "srcA 2 0 \<noteq> srcB 0 0" and "length nm < 104"
  shows "\<exists>A B. connect fresh nm fda fdb (started srcA) (started srcB) = Inr (2, 2, A, B)
    \<and> get_dispatcher 2 A = Some (1, MessagePipeDispatcher (port_ref_make (srcA 1 0) (Some 0)))
    \<and> get_dispatcher 2 B = Some (1, MessagePipeDispatcher (port_ref_make (srcB 1 0) (Some 0)))
    \<and> connected (co_controller A) (srcA 1 0) 0 (srcB 0 0) (srcB 1 0) []
    \<and> connected (co_controller B) (srcB 1 0) 0 (srcA 0 0) (srcA 1 0) []
    \<and> nd_ports (ct_node (co_controller A)) (srcA 1 1) = None
    \<and> nd_ports (ct_node (co_controller B)) (srcB 1 1) = None"
  by (rule connect_connects [OF assms, of fresh fda fdb]) blast

text \<open>Names that differ in the process, the call and the position.\<close>

definition sample_names :: "nat \<Rightarrow> nat \<Rightarrow> nat \<Rightarrow> name" where
  "sample_names k c i = Name (of_nat (k * 16 + c)) (of_nat (Suc i))"

lemma sample_names_good:
  "good_names (sample_names k)" "sample_names 1 2 0 \<noteq> sample_names 2 0 0" "sample_names 2 0 0 \<noteq> sample_names 1 0 0"
  by (simp_all add: good_names_def sample_names_def kInvalidName_def)

theorem invitation_connects_processes_witness:
  "\<exists>A B. connect (\<lambda>_ _. 0) [112, 105, 112, 101] 3 4 (started (sample_names 1)) (started (sample_names 2)) = Inr (2, 2, A, B)
    \<and> connected (co_controller A) (sample_names 1 1 0) 0 (sample_names 2 0 0) (sample_names 2 1 0) []"
  using invitation_connects_processes [of "sample_names 1" "sample_names 2" "[112, 105, 112, 101]" "\<lambda>_ _. 0" 3 4] sample_names_good
  by auto

text \<open>
  After the handshake, messages of fewer than 92 bytes written to the inviter's handle and carried
  over in one exchange are all read from the invitee's handle, whole and with the result OK, but in
  the reverse of the order they were written; every further read also returns OK, with an empty
  message that nobody wrote.
\<close>

lemma messages_read_reversed:
  assumes "good_names srcA" and "good_names srcB" and "srcA 2 0 \<noteq> srcB 0 0" and "length nm < 104"
    and "srcB 0 0 \<noteq> srcA 0 0" and "\<forall>str \<in> set strs. length str < 92"
  shows "\<exists>A B A1 b B1 B2 ev. connect fresh nm fda fdb (started srcA) (started srcB) = Inr (2, 2, A, B)
    \<and> write_all fresh 2 strs A = Inr A1
    \<and> (\<exists>a. exchange fresh 0 (co_controller A1) 0 (co_controller B) = Inr (a, b))
    \<and> read_all (length strs) 2 (B\<lparr>co_controller := b\<rparr>) = Inr (map (\<lambda>str. (MOJO_RESULT_OK, Some str)) (rev strs), B1)
    \<and> read_message 2 event_create B1 = Inr (MOJO_RESULT_OK, ev, B2)
    \<and> get_user_message ev = Some user_message_default"
proof -
  obtain A B where con: "connect fresh nm fda fdb (started srcA) (started srcB) = Inr (2, 2, A, B)"
    and dA: "get_dispatcher 2 A = Some (1, MessagePipeDispatcher (port_ref_make (srcA 1 0) (Some 0)))"
    and dB: "get_dispatcher 2 B = Some (1, MessagePipeDispatcher (port_ref_make (srcB 1 0) (Some 0)))"
    and cA: "connected (co_controller A) (srcA 1 0) 0 (srcB 0 0) (srcB 1 0) []"
    and cB: "connected (co_controller B) (srcB 1 0) 0 (srcA 0 0) (srcA 1 0) []"
    and empty: "port_queue (co_controller B) 0 = []" and nmA: "ct_name (co_controller A) = srcA 0 0"
    by (rule connect_connects [OF assms(1-4), of fresh fda fdb])
  let ?ms = "map (pipe_message (srcA 1 0) (srcB 1 0)) strs"
  have "srcB 0 0 \<noteq> ct_name (co_controller A)" using assms(5) nmA by simp
  then obtain a1 where a1: "write_all fresh 2 strs A = Inr (A\<lparr>co_controller := a1\<rparr>)"
    "connected a1 (srcA 1 0) 0 (srcB 0 0) (srcB 1 0) (map (\<lambda>m. sent (UserMessage m)) ?ms)"
    using write_all_queues [OF cA _ dA, of fresh strs] by (auto simp: comp_def)
  have "\<forall>m \<in> set ?ms. um_to_port_name m = srcB 1 0 \<and> length (um_data m) < 92"
    using assms(6) by (auto simp: pipe_message_def)
  from deliver_all [OF cB this] obtain b where
    b: "handle_all (receive fresh 0) (map (\<lambda>m. arrived (sent (UserMessage m))) ?ms) (co_controller B) = Inr b"
    "connected b (srcB 1 0) 0 (srcA 0 0) (srcA 1 0) []" "port_queue b 0 = ?ms"
    unfolding empty by auto
  have ex: "\<exists>a. exchange fresh 0 a1 0 (co_controller B) = Inr (a, b)"
    using a1(2) b(1) by (simp add: exchange_def connected_def only_channel_def comp_def)
  have dB': "get_dispatcher 2 (B\<lparr>co_controller := b\<rparr>) = Some (1, MessagePipeDispatcher (port_ref_make (srcB 1 0) (Some 0)))"
    using dB by simp
  obtain b1 where b1: "read_all (length strs) 2 (B\<lparr>co_controller := b\<rparr>) =
      Inr (map (\<lambda>str. (MOJO_RESULT_OK, Some str)) (rev strs), B\<lparr>co_controller := b1\<rparr>)"
    "connected b1 (srcB 1 0) 0 (srcA 0 0) (srcA 1 0) []" "port_queue b1 0 = []"
    using read_all_reverses [OF _ dB', of "srcA 0 0" "srcA 1 0" "[]" ?ms] b(2,3)
    by (auto simp: rev_map comp_def pipe_message_def)
  have cB1: "connected (co_controller (B\<lparr>co_controller := b1\<rparr>)) (srcB 1 0) 0 (srcA 0 0) (srcA 1 0) []" using b1(2) by simp
  have dB1: "get_dispatcher 2 (B\<lparr>co_controller := b1\<rparr>) = Some (1, MessagePipeDispatcher (port_ref_make (srcB 1 0) (Some 0)))"
    using dB by simp
  obtain ct ev where read: "read_message 2 event_create (B\<lparr>co_controller := b1\<rparr>) =
      Inr (MOJO_RESULT_OK, ev, (B\<lparr>co_controller := b1\<rparr>)\<lparr>co_controller := ct\<rparr>)"
    and "connected ct (srcB 1 0) 0 (srcA 0 0) (srcA 1 0) []"
    and "port_queue ct 0 = butlast (port_queue (co_controller (B\<lparr>co_controller := b1\<rparr>)) 0)"
    and ev: "get_user_message ev = Some (if port_queue (co_controller (B\<lparr>co_controller := b1\<rparr>)) 0 = []
      then user_message_default else last (port_queue (co_controller (B\<lparr>co_controller := b1\<rparr>)) 0))"
    by (rule read_step [OF cB1 dB1])
  have "get_user_message ev = Some user_message_default" using ev b1(3) by simp
  with con a1(1) b1(1) ex read show ?thesis by fastforce
qed

end
