(* ===== verification/Pipe_Refinement.thy ===== *)
theory Pipe_Refinement
  imports Conversation
begin

text \<open>
  What a message pipe is to the programs at its ends: at each end a list of messages written and not
  yet carried over, and a stack of messages to read. The two connected processes implement it, under
  any sequence of writes, exchanges and reads at either end.
\<close>

section \<open>The abstract pipe\<close>

datatype side = Inviter | Invitee

fun far :: "side \<Rightarrow> side" where
  "far Inviter = Invitee"
| "far Invitee = Inviter"

lemma far_far [simp]: "far (far s) = s" and far_neq [simp]: "far s \<noteq> s" "s \<noteq> far s"
  by (cases s; simp)+

datatype pipe_op = Write side bytes | Carry side | Read side

datatype outcome = Silent | Got u32 "bytes option"

record pipe =
  pi_written :: "side \<Rightarrow> bytes list"   \<comment> \<open>written at this end, not yet carried over\<close>
  pi_inbox :: "side \<Rightarrow> bytes list"     \<comment> \<open>to be read at this end, the last one first\<close>

definition pipe_new :: pipe where
  "pipe_new = \<lparr>pi_written = \<lambda>_. [], pi_inbox = \<lambda>_. []\<rparr>"

fun pipe_step :: "pipe_op \<Rightarrow> pipe \<Rightarrow> outcome \<times> pipe" where
  "pipe_step (Write s str) p = (Silent, p\<lparr>pi_written := (pi_written p)(s := pi_written p s @ [str])\<rparr>)"
| "pipe_step (Carry s) p =
     (Silent, p\<lparr>pi_written := (pi_written p)(s := []),
                pi_inbox := (pi_inbox p)(far s := pi_inbox p (far s) @ pi_written p s)\<rparr>)"
| "pipe_step (Read s) p =
     (if pi_inbox p s = [] then (Got MOJO_RESULT_OK (Some []), p)
      else (Got MOJO_RESULT_OK (Some (last (pi_inbox p s))), p\<lparr>pi_inbox := (pi_inbox p)(s := butlast (pi_inbox p s))\<rparr>))"

fun pipe_run :: "pipe_op list \<Rightarrow> pipe \<Rightarrow> outcome list \<times> pipe" where
  "pipe_run [] p = ([], p)"
| "pipe_run (x # xs) p = (let (r, p1) = pipe_step x p; (rs, p2) = pipe_run xs p1 in (r # rs, p2))"

section \<open>The two processes\<close>

text \<open>The public calls on the handles, and the exchange that carries what one side has queued.\<close>

fun core_step :: "(nat \<Rightarrow> nat \<Rightarrow> byte) \<Rightarrow> (side \<Rightarrow> u64) \<Rightarrow> pipe_op \<Rightarrow> (side \<Rightarrow> core) \<Rightarrow> (outcome \<times> (side \<Rightarrow> core)) res" where
  "core_step fresh h (Write s str) cs =
     rbind (write_message fresh (h s) str (cs s)) (\<lambda>(_, co). Inr (Silent, cs(s := co)))"
| "core_step fresh h (Carry s) cs =
     rbind (exchange fresh 0 (co_controller (cs s)) 0 (co_controller (cs (far s)))) (\<lambda>(a, b).
       Inr (Silent, cs(s := (cs s)\<lparr>co_controller := a\<rparr>, far s := (cs (far s))\<lparr>co_controller := b\<rparr>)))"
| "core_step fresh h (Read s) cs =
     rbind (read_message (h s) event_create (cs s)) (\<lambda>(r, ev, co).
       Inr (Got r (map_option um_data (get_user_message ev)), cs(s := co)))"

fun core_run :: "(nat \<Rightarrow> nat \<Rightarrow> byte) \<Rightarrow> (side \<Rightarrow> u64) \<Rightarrow> pipe_op list \<Rightarrow> (side \<Rightarrow> core) \<Rightarrow> (outcome list \<times> (side \<Rightarrow> core)) res" where
  "core_run fresh h [] cs = Inr ([], cs)"
| "core_run fresh h (x # xs) cs =
     rbind (core_step fresh h x cs) (\<lambda>(r, cs1). rbind (core_run fresh h xs cs1) (\<lambda>(rs, cs2). Inr (r # rs, cs2)))"

section \<open>Simulation\<close>

text \<open>
  \<open>own s\<close> and \<open>node s\<close> are the names of the port and of the process at side \<open>s\<close>, \<open>slot s\<close> the
  address of the port.
\<close>

definition end_ok :: "(side \<Rightarrow> u64) \<Rightarrow> (side \<Rightarrow> node_name) \<Rightarrow> (side \<Rightarrow> port_name) \<Rightarrow> (side \<Rightarrow> nat) \<Rightarrow> pipe \<Rightarrow> (side \<Rightarrow> core) \<Rightarrow> side \<Rightarrow> bool" where
  "end_ok h node own slot p cs s \<longleftrightarrow>
     connected (co_controller (cs s)) (own s) (slot s) (node (far s)) (own (far s))
       (map (\<lambda>str. sent (UserMessage (pipe_message (own s) (own (far s)) str))) (pi_written p s))
   \<and> port_queue (co_controller (cs s)) (slot s) = map (pipe_message (own (far s)) (own s)) (pi_inbox p s)
   \<and> (\<exists>i. get_dispatcher (h s) (cs s) = Some (i, MessagePipeDispatcher (port_ref_make (own s) (Some (slot s)))))
   \<and> ct_name (co_controller (cs s)) = node s
   \<and> (\<forall>str \<in> set (pi_written p s). length str < 92)"

definition simulates :: "(side \<Rightarrow> u64) \<Rightarrow> (side \<Rightarrow> node_name) \<Rightarrow> (side \<Rightarrow> port_name) \<Rightarrow> (side \<Rightarrow> nat) \<Rightarrow> pipe \<Rightarrow> (side \<Rightarrow> core) \<Rightarrow> bool" where
  "simulates h node own slot p cs \<longleftrightarrow> (\<forall>s. end_ok h node own slot p cs s)"

text \<open>An end is affected only by its own process and its own part of the pipe.\<close>

lemma end_ok_cong:
  "end_ok h node own slot p cs s \<Longrightarrow> cs' s = cs s \<Longrightarrow> pi_written p' s = pi_written p s \<Longrightarrow> pi_inbox p' s = pi_inbox p s
    \<Longrightarrow> end_ok h node own slot p' cs' s"
  by (simp add: end_ok_def)

lemma simulatesI:
  assumes "end_ok h node own slot p' cs' s" and "end_ok h node own slot p' cs' (far s)"
  shows "simulates h node own slot p' cs'"
  using assms unfolding simulates_def by (metis far.elims)

lemma exchange_messages:
  assumes S: "connected ct own a peer other (map (\<lambda>str. sent (UserMessage (pipe_message own other str))) strs)"
    and T: "connected ct' other b peer' own ps'"
    and len: "\<forall>str \<in> set strs. length str < 92"
  obtains s t where "exchange fresh 0 ct 0 ct' = Inr (s, t)" and "connected s own a peer other []"
    and "connected t other b peer' own ps'" and "port_queue t b = port_queue ct' b @ map (pipe_message own other) strs"
    and "port_queue s a = port_queue ct a" and "ct_name s = ct_name ct" and "ct_name t = ct_name ct'"
proof -
  let ?ms = "map (pipe_message own other) strs"
  have "\<forall>m \<in> set ?ms. um_to_port_name m = other \<and> length (um_data m) < 92" using len by (auto simp: pipe_message_def)
  from deliver_all [OF T this, of fresh] obtain t where
    t: "handle_all (receive fresh 0) (map (\<lambda>m. arrived (sent (UserMessage m))) ?ms) ct' = Inr t"
    "connected t other b peer' own ps'" "port_queue t b = port_queue ct' b @ ?ms" "ct_name t = ct_name ct'"
    by auto
  let ?s = "ct\<lparr>ct_channels := (ct_channels ct)[0 := emptied (ct_channels ct ! 0)]\<rparr>"
  have "exchange fresh 0 ct 0 ct' = Inr (?s, t)"
    using S t(1) by (simp add: exchange_def connected_def only_channel_def comp_def)
  moreover have "ct_wf ct" using S by (simp add: connected_def)
  then have "ct_wf ?s" by (simp add: ct_wf_def channels_ok_def)
  then have "connected ?s own a peer other []" using S by (simp add: connected_def only_channel_def)
  ultimately show thesis using that t(2-4) by (simp add: port_queue_def)
qed

lemma core_step_simulates:
  assumes sim: "simulates h node own slot p cs" and names: "node Inviter \<noteq> node Invitee"
    and len: "\<And>s str. x = Write s str \<Longrightarrow> length str < 92"
  shows "\<exists>cs'. core_step fresh h x cs = Inr (fst (pipe_step x p), cs') \<and> simulates h node own slot (snd (pipe_step x p)) cs'"
proof -
  have ends: "end_ok h node own slot p cs s" for s using sim by (simp add: simulates_def)
  have diff: "node (far s) \<noteq> node s" for s using names by (cases s) auto
  show ?thesis
  proof (cases x)
    case (Write s str)
    note e = ends [of s, unfolded end_ok_def]
    obtain i where d: "get_dispatcher (h s) (cs s) = Some (i, MessagePipeDispatcher (port_ref_make (own s) (Some (slot s))))"
      using e by blast
    obtain ct where ct: "write_message fresh (h s) str (cs s) = Inr (None, (cs s)\<lparr>co_controller := ct\<rparr>)"
      "connected ct (own s) (slot s) (node (far s)) (own (far s))
        (map (\<lambda>str. sent (UserMessage (pipe_message (own s) (own (far s)) str))) (pi_written p s)
          @ [sent (UserMessage (pipe_message (own s) (own (far s)) str))])"
      "ct_name ct = ct_name (co_controller (cs s))" "ct_node ct = ct_node (co_controller (cs s))"
      by (rule write_step [where fresh = fresh, OF _ _ d]) (use e diff [of s] in auto)
    let ?cs = "cs(s := (cs s)\<lparr>co_controller := ct\<rparr>)" and ?p = "snd (pipe_step x p)"
    have "end_ok h node own slot ?p ?cs s"
      using e ct(2-4) d len [OF Write] by (auto simp: end_ok_def Write port_queue_def)
    moreover have "end_ok h node own slot ?p ?cs (far s)"
      by (rule end_ok_cong [OF ends [of "far s"]]) (simp_all add: Write)
    ultimately show ?thesis using ct(1) simulatesI by (simp add: Write)
  next
    case (Carry s)
    note e = ends [of s, unfolded end_ok_def] and f = ends [of "far s", unfolded end_ok_def far_far]
    obtain a b where ab: "exchange fresh 0 (co_controller (cs s)) 0 (co_controller (cs (far s))) = Inr (a, b)"
      "connected a (own s) (slot s) (node (far s)) (own (far s)) []"
      "connected b (own (far s)) (slot (far s)) (node s) (own s)
        (map (\<lambda>str. sent (UserMessage (pipe_message (own (far s)) (own s) str))) (pi_written p (far s)))"
      "port_queue b (slot (far s)) = port_queue (co_controller (cs (far s))) (slot (far s))
        @ map (pipe_message (own s) (own (far s))) (pi_written p s)"
      "port_queue a (slot s) = port_queue (co_controller (cs s)) (slot s)"
      "ct_name a = ct_name (co_controller (cs s))" "ct_name b = ct_name (co_controller (cs (far s)))"
      by (rule exchange_messages [where fresh = fresh]) (use e f in auto)
    let ?cs = "cs(s := (cs s)\<lparr>co_controller := a\<rparr>, far s := (cs (far s))\<lparr>co_controller := b\<rparr>)"
      and ?p = "snd (pipe_step x p)"
    have "end_ok h node own slot ?p ?cs s" using e ab(2,5,6) by (simp add: end_ok_def Carry)
    moreover have "end_ok h node own slot ?p ?cs (far s)" using f ab(3,4,7) by (simp add: end_ok_def Carry)
    ultimately show ?thesis using ab(1) simulatesI by (simp add: Carry)
  next
    case (Read s)
    note e = ends [of s, unfolded end_ok_def]
    obtain i where d: "get_dispatcher (h s) (cs s) = Some (i, MessagePipeDispatcher (port_ref_make (own s) (Some (slot s))))"
      using e by blast
    have conn: "connected (co_controller (cs s)) (own s) (slot s) (node (far s)) (own (far s))
        (map (\<lambda>str. sent (UserMessage (pipe_message (own s) (own (far s)) str))) (pi_written p s))"
      and q: "port_queue (co_controller (cs s)) (slot s) = map (pipe_message (own (far s)) (own s)) (pi_inbox p s)"
      using e by blast+
    obtain ct ev where ct: "read_message (h s) event_create (cs s) = Inr (MOJO_RESULT_OK, ev, (cs s)\<lparr>co_controller := ct\<rparr>)"
      "connected ct (own s) (slot s) (node (far s)) (own (far s))
        (map (\<lambda>str. sent (UserMessage (pipe_message (own s) (own (far s)) str))) (pi_written p s))"
      "port_queue ct (slot s) = butlast (port_queue (co_controller (cs s)) (slot s))"
      "get_user_message ev = Some (if port_queue (co_controller (cs s)) (slot s) = [] then user_message_default
        else last (port_queue (co_controller (cs s)) (slot s)))"
      "ct_name ct = ct_name (co_controller (cs s))"
      by (rule read_step [OF conn d])
    let ?cs = "cs(s := (cs s)\<lparr>co_controller := ct\<rparr>)" and ?p = "snd (pipe_step x p)"
    have "end_ok h node own slot ?p ?cs s"
      using e ct(2,3,5) d q by (auto simp: end_ok_def Read map_butlast)
    moreover have "end_ok h node own slot ?p ?cs (far s)"
      by (rule end_ok_cong [OF ends [of "far s"]]) (simp_all add: Read)
    moreover have "core_step fresh h x cs = Inr (fst (pipe_step x p), ?cs)"
      by (simp add: Read ct(1,4) q user_message_default_def pipe_message_def last_map)
    ultimately show ?thesis using simulatesI by blast
  qed
qed

lemma core_run_simulates:
  assumes "simulates h node own slot p cs" and "node Inviter \<noteq> node Invitee"
    and "\<forall>s str. Write s str \<in> set xs \<longrightarrow> length str < 92"
  shows "\<exists>cs'. core_run fresh h xs cs = Inr (fst (pipe_run xs p), cs') \<and> simulates h node own slot (snd (pipe_run xs p)) cs'"
  using assms(1,3)
proof (induction xs arbitrary: p cs)
  case (Cons x xs)
  obtain cs1 where 1: "core_step fresh h x cs = Inr (fst (pipe_step x p), cs1)" "simulates h node own slot (snd (pipe_step x p)) cs1"
    using core_step_simulates [OF Cons.prems(1) assms(2), of x fresh] Cons.prems(2) by auto
  obtain cs2 where "core_run fresh h xs cs1 = Inr (fst (pipe_run xs (snd (pipe_step x p))), cs2)"
    "simulates h node own slot (snd (pipe_run xs (snd (pipe_step x p)))) cs2"
    using Cons.IH [OF 1(2)] Cons.prems(2) by auto
  with 1(1) show ?case by (simp add: split_beta)
qed auto

section \<open>The pipe of an invitation\<close>

text \<open>
  Two processes that have been connected by an invitation implement the abstract pipe: whatever sequence of writes
  of fewer than 92 bytes, exchanges and reads is done at the two ends, no call faults and each read
  returns what the abstract pipe returns: the messages of the other end, whole, the last one carried over
  first, or an empty message with the result OK when there is none.
\<close>

lemma connect_simulates:
  assumes "good_names srcA" and "good_names srcB" and "srcA 2 0 \<noteq> srcB 0 0" and "length nm < 104"
  shows "\<exists>A B. connect fresh nm fda fdb (started srcA) (started srcB) = Inr (2, 2, A, B)
    \<and> simulates (\<lambda>_. 2) (\<lambda>s. case s of Inviter \<Rightarrow> srcA 0 0 | Invitee \<Rightarrow> srcB 0 0)
        (\<lambda>s. case s of Inviter \<Rightarrow> srcA 1 0 | Invitee \<Rightarrow> srcB 1 0) (\<lambda>_. 0) pipe_new (\<lambda>s. case s of Inviter \<Rightarrow> A | Invitee \<Rightarrow> B)"
proof -
  obtain A B where con: "connect fresh nm fda fdb (started srcA) (started srcB) = Inr (2, 2, A, B)"
    and dA: "get_dispatcher 2 A = Some (1, MessagePipeDispatcher (port_ref_make (srcA 1 0) (Some 0)))"
    and dB: "get_dispatcher 2 B = Some (1, MessagePipeDispatcher (port_ref_make (srcB 1 0) (Some 0)))"
    and cA: "connected (co_controller A) (srcA 1 0) 0 (srcB 0 0) (srcB 1 0) []"
    and cB: "connected (co_controller B) (srcB 1 0) 0 (srcA 0 0) (srcA 1 0) []"
    and qA: "port_queue (co_controller A) 0 = []" and qB: "port_queue (co_controller B) 0 = []"
    and nA: "ct_name (co_controller A) = srcA 0 0" and nB: "ct_name (co_controller B) = srcB 0 0"
    by (rule connect_connects [OF assms, of fresh fda fdb])
  let ?node = "\<lambda>s. case s of Inviter \<Rightarrow> srcA 0 0 | Invitee \<Rightarrow> srcB 0 0"
    and ?own = "\<lambda>s. case s of Inviter \<Rightarrow> srcA 1 0 | Invitee \<Rightarrow> srcB 1 0"
    and ?cs = "\<lambda>s. case s of Inviter \<Rightarrow> A | Invitee \<Rightarrow> B"
  have "simulates (\<lambda>_. 2) ?node ?own (\<lambda>_. 0) pipe_new ?cs"
    by (rule simulatesI [of _ _ _ _ _ _ Inviter]) (simp_all add: end_ok_def pipe_new_def dA dB cA cB qA qB nA nB del: One_nat_def)
  with con show ?thesis by blast
qed

lemma connected_processes_implement_pipe:
  assumes "good_names srcA" and "good_names srcB" and "srcA 2 0 \<noteq> srcB 0 0" and "length nm < 104"
    and "srcA 0 0 \<noteq> srcB 0 0" and "\<forall>s str. Write s str \<in> set xs \<longrightarrow> length str < 92"
  shows "\<exists>A B cs. connect fresh nm fda fdb (started srcA) (started srcB) = Inr (2, 2, A, B)
    \<and> core_run fresh (\<lambda>_. 2) xs (\<lambda>s. case s of Inviter \<Rightarrow> A | Invitee \<Rightarrow> B) = Inr (fst (pipe_run xs pipe_new), cs)"
proof -
  obtain A B where con: "connect fresh nm fda fdb (started srcA) (started srcB) = Inr (2, 2, A, B)"
    and sim: "simulates (\<lambda>_. 2) (\<lambda>s. case s of Inviter \<Rightarrow> srcA 0 0 | Invitee \<Rightarrow> srcB 0 0)
        (\<lambda>s. case s of Inviter \<Rightarrow> srcA 1 0 | Invitee \<Rightarrow> srcB 1 0) (\<lambda>_. 0) pipe_new (\<lambda>s. case s of Inviter \<Rightarrow> A | Invitee \<Rightarrow> B)"
    using connect_simulates [OF assms(1-4)] by blast
  from core_run_simulates [OF sim _ assms(6), of fresh] con assms(5) show ?thesis by auto
qed

end
