(* ===== verification/Wiring.thy ===== *)
theory Wiring
  imports Conversation
begin

text \<open>
  How the channels of a process hang between the event loop and the controller: the descriptor of each, whether it has a
  delegate to hand its messages to, and the delegate the loop has for each descriptor. Only making a channel
  changes this wiring; every handler and every public call keeps it.
\<close>

section \<open>The wiring\<close>

type_synonym wiring = "(int \<times> bool) option list \<times> (int, nat) omap option"

definition nc_wiring :: "node_channel \<Rightarrow> (int \<times> bool) option" where
  "nc_wiring nc = map_option (\<lambda>ch. (ch_socket ch, ch_delegate ch)) (nc_channel nc)"

definition wiring :: "controller \<Rightarrow> wiring" where
  "wiring ct = (map nc_wiring (ct_channels ct), map_option io_delegates (ct_io_task_runner ct))"

fun wire_channel :: "int \<Rightarrow> wiring \<Rightarrow> wiring" where
  "wire_channel fd (cs, io) = (cs @ [Some (fd, True)], map_option (\<lambda>m. om_emplace fd (length cs) (om_erase fd m)) io)"

lemma nc_wiring_steps [simp]:
  "nc_wiring (set_remote_node_name nm nc) = nc_wiring nc"
  "nc_wiring (send_channel_message p nc) = nc_wiring nc"
  "nc_wiring (emptied nc) = nc_wiring nc"
  by (auto simp: nc_wiring_def set_remote_node_name_def send_channel_message_def write_channel_message_def
      channel_write_def emptied_def option.map_comp comp_def split: option.splits)

lemma send_message_wiring: "send_message fresh m nc = Inr nc' \<Longrightarrow> nc_wiring nc' = nc_wiring nc"
  by (auto simp: send_message_def rbind_eq_Inr_iff)

lemmas nc_send_defs = nc_accept_invitee_def nc_accept_invitation_def nc_request_port_merge_def nc_response_port_merge_def

lemma map_nc_wiring_update:
  "nc_wiring nc = nc_wiring (cs ! i) \<Longrightarrow> map nc_wiring (cs[i := nc]) = map nc_wiring cs"
  by (cases "i < length cs") (simp_all add: map_update list_update_same_conv list_update_beyond)

lemma with_channel_wiring:
  assumes "with_channel c f ct = Inr ct'" and "\<And>nc nc'. f nc = Inr nc' \<Longrightarrow> nc_wiring nc' = nc_wiring nc"
  shows "wiring ct' = wiring ct"
  using assms(1) assms(2) [of "ct_channels ct ! the c"]
  by (auto simp: with_channel_eq wiring_def map_nc_wiring_update)

text \<open>The calls that only send or rename.\<close>

lemma channel_calls_wiring:
  "with_channel c (\<lambda>nc. Inr (set_remote_node_name nm nc)) ct = Inr ct' \<Longrightarrow> wiring ct' = wiring ct"
  "with_channel c (\<lambda>nc. Inr (send_channel_message p nc)) ct = Inr ct' \<Longrightarrow> wiring ct' = wiring ct"
  "with_channel c (nc_accept_invitee fresh a b) ct = Inr ct' \<Longrightarrow> wiring ct' = wiring ct"
  "with_channel c (nc_accept_invitation fresh a b) ct = Inr ct' \<Longrightarrow> wiring ct' = wiring ct"
  "with_channel c (nc_request_port_merge fresh a str) ct = Inr ct' \<Longrightarrow> wiring ct' = wiring ct"
  "with_channel c (nc_response_port_merge fresh a b) ct = Inr ct' \<Longrightarrow> wiring ct' = wiring ct"
  by (erule with_channel_wiring; auto simp: nc_send_defs send_message_wiring)+

text \<open>Tables that are no part of it.\<close>

lemma wiring_update [simp]:
  "wiring (ct\<lparr>ct_inviter_name := a\<rparr>) = wiring ct" "wiring (ct\<lparr>ct_node := nd\<rparr>) = wiring ct"
  "wiring (ct\<lparr>ct_peers := ps\<rparr>) = wiring ct" "wiring (ct\<lparr>ct_pending_peer_messages := q\<rparr>) = wiring ct"
  "wiring (ct\<lparr>ct_pending_port_merges := ms\<rparr>) = wiring ct" "wiring (ct\<lparr>ct_reserved_ports := rs\<rparr>) = wiring ct"
  "wiring (ct\<lparr>ct_pending_invitations := is\<rparr>) = wiring ct" "wiring (ct\<lparr>ct_inviter_channel := c\<rparr>) = wiring ct"
  by (simp_all add: wiring_def)

lemma io_delegates_add_fd_event [simp]: "io_delegates (add_fd_event fd ev io) = io_delegates io"
  by (simp add: add_fd_event_def Let_def split: option.splits prod.splits)

lemma nc_start_delegates: "nc_start nc io = Inr io' \<Longrightarrow> map_option io_delegates io' = map_option io_delegates io"
  by (auto simp: nc_start_def channel_start_def split: option.splits if_splits)

lemma start_channel_of_wiring: "start_channel_of c ct = Inr ct' \<Longrightarrow> wiring ct' = wiring ct"
  by (auto simp: start_channel_of_def rbind_eq_Inr_iff wiring_def dest: nc_start_delegates)

section \<open>Handlers keep it\<close>

lemma send_all_to_wiring: "send_all_to c ps ct = Inr ct' \<Longrightarrow> wiring ct' = wiring ct"
proof (induction c ps ct rule: send_all_to.induct)
  case (2 c p ps ct)
  then obtain ct1 where "with_channel c (\<lambda>nc. Inr (send_channel_message p nc)) ct = Inr ct1" "send_all_to c ps ct1 = Inr ct'"
    by (auto simp: rbind_eq_Inr_iff)
  with 2(1) show ?case by (auto dest: channel_calls_wiring)
qed simp

lemma add_peer_wiring:
  assumes "add_peer nm c b ct = Inr ct'"
  shows "wiring ct' = wiring ct"
proof -
  obtain ct1 where 1: "with_channel c (\<lambda>nc. Inr (set_remote_node_name nm nc)) ct = Inr ct1"
    using assms by (auto simp: add_peer_def rbind_eq_Inr_iff)
  note same = channel_calls_wiring(1) [OF 1]
  show ?thesis
  proof (cases "ct_peers ct1 nm")
    case None
    define ct2 where "ct2 = ct1\<lparr>ct_peers := (ct_peers ct1)(nm \<mapsto> the c)\<rparr>"
    define ps where "ps = (case ct_pending_peer_messages ct2 nm of None \<Rightarrow> [] | Some ps \<Rightarrow> ps)"
    define ct3 where "ct3 = (case ct_pending_peer_messages ct2 nm of None \<Rightarrow> ct2
        | Some ps \<Rightarrow> ct2\<lparr>ct_pending_peer_messages := um_erase nm (ct_pending_peer_messages ct2)\<rparr>)"
    have "wiring ct3 = wiring ct" using same by (simp add: ct3_def ct2_def split: option.splits)
    moreover have "rbind (if b then start_channel_of c ct3 else Inr ct3) (send_all_to c ps) = Inr ct'"
      using assms 1 None by (cases b) (simp_all add: add_peer_def Let_def ct3_def ps_def flip: ct2_def split: option.splits)
    ultimately show ?thesis
      by (cases b) (auto simp: rbind_eq_Inr_iff dest!: start_channel_of_wiring send_all_to_wiring)
  qed (use assms 1 same in \<open>simp add: add_peer_def\<close>)
qed

lemma close_ports_wiring: "close_ports rs ct = Inr ct' \<Longrightarrow> wiring ct' = wiring ct"
  by (induction rs ct rule: close_ports.induct) (auto simp: rbind_eq_Inr_iff)

lemma drop_peer_wiring: "drop_peer nm ct = Inr ct' \<Longrightarrow> wiring ct' = wiring ct"
  by (auto simp: drop_peer_def Let_def rbind_eq_Inr_iff split: option.splits
      dest!: release_channel_Inr close_ports_wiring)

lemma request_merges_wiring: "request_merges fresh rs ct = Inr ct' \<Longrightarrow> wiring ct' = wiring ct"
proof (induction fresh rs ct rule: request_merges.induct)
  case (2 fresh nm r rs ct)
  then obtain ct1 where "with_channel (get_inviter_channel ct) (nc_request_port_merge fresh (pr_name r) nm) ct = Inr ct1"
    "request_merges fresh rs ct1 = Inr ct'"
    by (auto simp: rbind_eq_Inr_iff)
  with 2(1) show ?case by (auto dest: channel_calls_wiring)
qed simp

interpretation cwire: delegate_inv "controller_delegate fresh" "\<lambda>ct. wiring ct = w" for fresh w
proof unfold_locales
  fix s fn a b s'
  assume w: "wiring s = w"
  show "wiring s' = w" if "OnAcceptInvitee (controller_delegate fresh) fn a b s = Inr s'"
    using that w
    by (auto simp: controller_delegate_def on_accept_invitee_def handle_pending_merge_port_def Let_def rbind_eq_Inr_iff
        dest!: channel_calls_wiring add_peer_wiring request_merges_wiring)
  show "wiring s' = w" if "OnAcceptInvitation (controller_delegate fresh) fn a b s = Inr s'"
    using that w
    by (auto simp: controller_delegate_def on_accept_invitation_def Let_def rbind_eq_Inr_iff split: option.splits if_splits
        dest!: release_channel_Inr drop_peer_wiring add_peer_wiring)
  show "wiring s' = w" if "OnResponsePortMerge (controller_delegate fresh) fn a b s = Inr s'"
    using that w by (auto simp: controller_delegate_def on_response_port_merge_def rbind_eq_Inr_iff)
next
  fix s fn a nm s'
  assume "wiring s = w" and "OnRequestPortMerge (controller_delegate fresh) fn a nm s = Inr s'"
  then show "wiring s' = w"
    by (auto simp: controller_delegate_def on_request_port_merge_def Let_def rbind_eq_Inr_iff
        split: option.splits if_splits dest!: channel_calls_wiring)
next
  fix s fn m s'
  assume "wiring s = w" "OnUserMessage (controller_delegate fresh) fn m s = Inr s'"
  then show "wiring s' = w" by (auto simp: controller_delegate_def ct_on_user_message_def Let_def rbind_eq_Inr_iff)
qed

lemma receive_wiring: "receive fresh c p ct = Inr ct' \<Longrightarrow> wiring ct' = wiring ct"
  by (auto simp: receive_def rbind_eq_Inr_iff dest: cwire.keeps_message [OF refl])

lemma handle_all_wiring: "handle_all (receive fresh c) ps ct = Inr ct' \<Longrightarrow> wiring ct' = wiring ct"
  by (induction ps arbitrary: ct) (auto simp: rbind_eq_Inr_iff dest!: receive_wiring)

lemma exchange_wiring:
  assumes "exchange fresh i s j t = Inr (s', t')"
  shows "wiring s' = wiring s" and "wiring t' = wiring t"
  using assms handle_all_wiring
  by (auto simp: exchange_def rbind_eq_Inr_iff wiring_def map_nc_wiring_update)

section \<open>Making a channel\<close>

lemma create_channel_wiring: "create_channel fd ct = Inr (c, ct') \<Longrightarrow> wiring ct' = wire_channel fd (wiring ct)"
  by (auto simp: create_channel_def node_channel_create_def channel_create_def rbind_eq_Inr_iff Let_def wiring_def
      nc_wiring_def channel_new_def set_delegate_def split: option.splits)

lemma send_invitation_wiring:
  assumes "send_invitation fresh fd attached ct = Inr ct'"
  shows "wiring ct' = wire_channel fd (wiring ct)"
proof -
  obtain temp g where r: "generate_random_name (nd_rng (ct_node ct)) = (temp, g)" by fastforce
  obtain pm reserved where o: "om_index [] temp (ct_reserved_ports ct) = (pm, reserved)" by fastforce
  show ?thesis
    using assms by (auto simp: send_invitation_def Let_def rbind_eq_Inr_iff r o
        dest!: release_channel_Inr create_channel_wiring channel_calls_wiring start_channel_of_wiring)
qed

lemma accept_invitation_wiring: "accept_invitation fd ct = Inr ct' \<Longrightarrow> wiring ct' = wire_channel fd (wiring ct)"
  by (auto simp: accept_invitation_def rbind_eq_Inr_iff dest!: release_channel_Inr create_channel_wiring start_channel_of_wiring)

lemma merge_port_into_inviter_wiring: "merge_port_into_inviter fresh nm r ct = Inr ct' \<Longrightarrow> wiring ct' = wiring ct"
  by (auto simp: merge_port_into_inviter_def split: option.splits dest: channel_calls_wiring)

end
