(* ===== verification/Wire_Pipe.thy ===== *)
theory Wire_Pipe
  imports Pipe_Refinement Wiring
begin

text \<open>
  From the public calls down to the events of the loop: the pipe of two connected processes when what one has
  written is carried over as bytes, flushed by the event loop of the one and read by that of the other in whatever pieces
  the socket delivers.
\<close>

section \<open>The wiring of connected processes\<close>

abbreviation core_wiring :: "core \<Rightarrow> wiring" where
  "core_wiring co \<equiv> wiring (co_controller co)"

lemma started_wiring: "core_wiring (started src) = ([], Some [])"
  by (simp add: started_def core_set_io_task_runner_def core_new_def set_io_task_runner_def controller_new_def wiring_def
      io_new_def split: prod.splits)

lemma core_port_pair_wiring: "core_port_pair r0 r1 co = Inr (s0, s1, co') \<Longrightarrow> core_wiring co' = core_wiring co"
  by (auto simp: core_port_pair_def rbind_eq_Inr_iff)

lemma add_dispatcher_controller [simp]: "co_controller (snd (add_dispatcher d co)) = co_controller co"
  by (simp add: add_dispatcher_def split_beta)

lemma add_dispatcher_keeps: "add_dispatcher d co = (h, co') \<Longrightarrow> co_controller co' = co_controller co"
  using add_dispatcher_controller [of d co] by simp

lemma create_partial_message_pipe_wiring:
  "create_partial_message_pipe r co = Inr (h, r', co') \<Longrightarrow> core_wiring co' = core_wiring co"
  by (auto simp: create_partial_message_pipe_def rbind_eq_Inr_iff split_beta dest!: core_port_pair_wiring)

lemma update_dispatcher_controller [simp]: "co_controller (update_dispatcher i d co) = co_controller co"
  by (simp add: update_dispatcher_def)

lemma attach_wiring:
  assumes "attach_message_pipe_to_invitation h nm out co = Inr (r, pipe, co')"
  shows "core_wiring co' = core_wiring co"
  using assms
  by (auto simp: attach_message_pipe_to_invitation_def rbind_eq_Inr_iff split_beta Let_def
      split: option.splits if_splits dest!: create_partial_message_pipe_wiring)

lemma invite_wiring:
  assumes "invite fresh nm fd co = Inr (pipe, co')"
  shows "core_wiring co' = core_wiring co \<or> core_wiring co' = wire_channel fd (core_wiring co)"
proof -
  obtain r h co1 where 1: "create_invitation co = (r, h, co1)" by (cases "create_invitation co")
  obtain r2 co2 r3 where 2: "attach_message_pipe_to_invitation h nm MOJO_HANDLE_INVALID co1 = Inr (r2, pipe, co2)"
    and 3: "core_send_invitation fresh h fd co2 = Inr (r3, co')"
    using assms by (auto simp: invite_def 1 rbind_eq_Inr_iff)
  have "core_wiring co1 = core_wiring co"
    using 1 by (auto simp: create_invitation_def split_beta Let_def split: if_splits dest: add_dispatcher_keeps)
  then have "core_wiring co2 = core_wiring co" using attach_wiring [OF 2] by simp
  then show ?thesis
    using 3 by (auto simp: core_send_invitation_def rbind_eq_Inr_iff Let_def
      split: option.splits if_splits prod.splits dest!: send_invitation_wiring)
qed

lemma extract_wiring: "extract_message_pipe i nm x co = (r, h, co') \<Longrightarrow> co_controller co' = co_controller co"
  by (auto simp: extract_message_pipe_def create_partial_message_pipe_for_def Let_def split_beta
      split: dispatcher.splits option.splits if_splits dest!: add_dispatcher_keeps)

lemma extract_from_inviter_wiring:
  assumes "extract_from_inviter fresh nm co = Inr (h, co')"
  shows "core_wiring co' = core_wiring co"
proof -
  obtain r0 r1 cp ct where c: "core_port_pair r0 r1 co = Inr cp"
    and m: "merge_port_into_inviter fresh nm (fst cp) (co_controller (snd (snd cp))) = Inr ct" and ct: "co_controller co' = ct"
    using assms by (auto simp: extract_from_inviter_def rbind_eq_Inr_iff split_beta Let_def)
  show ?thesis
    using merge_port_into_inviter_wiring [OF m] core_port_pair_wiring [of _ _ _ "fst cp" "fst (snd cp)" "snd (snd cp)"] c ct
    by fastforce
qed

lemma join_invitation_wiring:
  assumes "join_invitation fresh nm fd co = Inr (pipe, co')"
  shows "core_wiring co' = core_wiring co \<or> core_wiring co' = wire_channel fd (core_wiring co)"
proof -
  obtain r h co1 r2 where 1: "core_accept_invitation fd co = Inr (r, h, co1)"
    and 2: "extract_message_pipe_from_invitation fresh h nm MOJO_HANDLE_INVALID co1 = Inr (r2, pipe, co')"
    using assms by (auto simp: join_invitation_def rbind_eq_Inr_iff)
  have "core_wiring co1 = core_wiring co \<or> core_wiring co1 = wire_channel fd (core_wiring co)"
    using 1
    by (auto simp: core_accept_invitation_def rbind_eq_Inr_iff split_beta Let_def split: if_splits
        dest!: accept_invitation_wiring)
  moreover have "core_wiring co' = core_wiring co1"
    using 2 by (auto simp: extract_message_pipe_from_invitation_def rbind_eq_Inr_iff Let_def
        split: option.splits if_splits prod.splits dest!: extract_wiring extract_from_inviter_wiring)
  ultimately show ?thesis by simp
qed

text \<open>One channel, on its descriptor, known to the event loop.\<close>

abbreviation wired_to :: "int \<Rightarrow> controller \<Rightarrow> bool" where
  "wired_to fd ct \<equiv> wiring ct = ([Some (fd, True)], Some [(fd, 0)])"

lemma connect_wiring:
  assumes "connect fresh nm fda fdb (started srcA) (started srcB) = Inr (pa, pb, A, B)"
    and "length (ct_channels (co_controller A)) = 1" and "length (ct_channels (co_controller B)) = 1"
  shows "wired_to fda (co_controller A)" and "wired_to fdb (co_controller B)"
proof -
  obtain A0 B0 a b b1 a1 a2 b2 where 1: "invite fresh nm fda (started srcA) = Inr (pa, A0)"
    "join_invitation fresh nm fdb (started srcB) = Inr (pb, B0)"
    "exchange fresh 0 (co_controller A0) 0 (co_controller B0) = Inr (a, b)" "exchange fresh 0 b 0 a = Inr (b1, a1)"
    "exchange fresh 0 a1 0 b1 = Inr (a2, b2)" "A = A0\<lparr>co_controller := a2\<rparr>" "B = B0\<lparr>co_controller := b2\<rparr>"
    using assms(1) by (auto simp: connect_def rbind_eq_Inr_iff)
  have same: "core_wiring A = core_wiring A0" "core_wiring B = core_wiring B0"
    using exchange_wiring [OF 1(3)] exchange_wiring [OF 1(4)] exchange_wiring [OF 1(5)] 1(6,7) by simp_all
  have len: "length (fst (core_wiring A)) = 1" "length (fst (core_wiring B)) = 1" using assms(2,3) by (simp_all add: wiring_def)
  show "wired_to fda (co_controller A)" "wired_to fdb (co_controller B)"
    using same len invite_wiring [OF 1(1)] join_invitation_wiring [OF 1(2)] by (auto simp: started_wiring om_erase_def)
qed

lemma send_user_message_wiring:
  assumes "send_user_message fresh r e ct = Inr (x, e', ct')"
  shows "wiring ct' = wiring ct"
proof -
  obtain nm ev where f: "forward_event fresh nm ev ct = Inr ct'"
    using assms by (auto simp: send_user_message_def node_send_user_message_def send_user_message_internal_def
        rbind_eq_Inr_iff Let_def split: option.splits)
  then show ?thesis
    by (auto simp: forward_event_def send_peer_event_def protocol_of_eq Let_def
        split: if_splits option.splits prod.splits dest: channel_calls_wiring)
qed

lemma core_step_wiring:
  assumes "core_step fresh h x cs = Inr (r, cs')"
  shows "core_wiring (cs' s) = core_wiring (cs s)"
proof (cases x)
  case (Write u str)
  then obtain v co where w: "write_message fresh (h u) str (cs u) = Inr (v, co)" "cs' = cs(u := co)"
    using assms by (auto simp: rbind_eq_Inr_iff)
  have "core_wiring co = core_wiring (cs u)"
    using w(1) by (auto simp: write_message_def pipe_write_message_def rbind_eq_Inr_iff
        split: option.splits dispatcher.splits dest!: send_user_message_wiring)
  then show ?thesis using w(2) by simp
next
  case (Carry u)
  then obtain a b where e: "exchange fresh 0 (co_controller (cs u)) 0 (co_controller (cs (far u))) = Inr (a, b)"
    "cs' = cs(u := (cs u)\<lparr>co_controller := a\<rparr>, far u := (cs (far u))\<lparr>co_controller := b\<rparr>)"
    using assms by (auto simp: rbind_eq_Inr_iff)
  from exchange_wiring [OF e(1)] show ?thesis using e(2) by simp
next
  case (Read u)
  then obtain v ev co where w: "read_message (h u) event_create (cs u) = Inr (v, ev, co)" "cs' = cs(u := co)"
    using assms by (auto simp: rbind_eq_Inr_iff)
  have "core_wiring co = core_wiring (cs u)"
    using w(1) by (auto simp: read_message_def pipe_read_message_def ct_get_user_message_def rbind_eq_Inr_iff
        split: option.splits dispatcher.splits)
  then show ?thesis using w(2) by simp
qed

section \<open>The event loop of a process\<close>

text \<open>
  The controller, what the socket takes, what it delivers, and what it has taken. A handler that waits
  for more blocks the loop.
\<close>

record event_loop =
  el_controller :: controller
  el_tx :: "tx list"
  el_rx :: "rx list"
  el_out :: bytes
  el_blocked :: bool

definition loop_new :: "controller \<Rightarrow> tx list \<Rightarrow> rx list \<Rightarrow> event_loop" where
  "loop_new ct tx rx = \<lparr>el_controller = ct, el_tx = tx, el_rx = rx, el_out = [], el_blocked = False\<rparr>"

definition loop_readable :: "(nat \<Rightarrow> nat \<Rightarrow> byte) \<Rightarrow> (nat \<Rightarrow> byte) \<Rightarrow> nat \<Rightarrow> int \<Rightarrow> event_loop \<Rightarrow> event_loop res" where
  "loop_readable fresh junk c fd s =
     (case nc_channel (ct_channels (el_controller s) ! c) of
        None \<Rightarrow> Inl NullDeref
      | Some ch \<Rightarrow>
          (case on_fd_readable fresh junk (receive fresh c) ch (el_rx s) (el_controller s) of
             None \<Rightarrow> Inr (s\<lparr>el_blocked := True\<rparr>)
           | Some (Inl f) \<Rightarrow> Inl f
           | Some (Inr (ct, q)) \<Rightarrow> Inr (s\<lparr>el_controller := ct, el_rx := q\<rparr>)))"

definition loop_writeable :: "(nat \<Rightarrow> nat \<Rightarrow> byte) \<Rightarrow> nat \<Rightarrow> int \<Rightarrow> event_loop \<Rightarrow> event_loop res" where
  "loop_writeable fresh c fd s =
     (let ct = el_controller s in
      case nc_channel (ct_channels ct ! c) of
        None \<Rightarrow> Inl NullDeref
      | Some ch \<Rightarrow>
          (case on_fd_writeable fresh ch (el_tx s) of
             None \<Rightarrow> Inr (s\<lparr>el_blocked := True\<rparr>)
           | Some (Inl f) \<Rightarrow> Inl f
           | Some (Inr (ch1, out, q)) \<Rightarrow>
               Inr (s\<lparr>el_controller := ct\<lparr>ct_channels := (ct_channels ct)[c := (ct_channels ct ! c)\<lparr>nc_channel := Some ch1\<rparr>]\<rparr>,
                      el_tx := q, el_out := el_out s @ out\<rparr>)))"

definition loop_delegate :: "int \<Rightarrow> event_loop \<Rightarrow> nat option" where
  "loop_delegate fd s = (case ct_io_task_runner (el_controller s) of None \<Rightarrow> None | Some io \<Rightarrow> io_delegate fd io)"

definition loop_event :: "(nat \<Rightarrow> nat \<Rightarrow> byte) \<Rightarrow> (nat \<Rightarrow> byte) \<Rightarrow> int \<Rightarrow> nat \<Rightarrow> event_loop \<Rightarrow> event_loop res" where
  "loop_event fresh junk fd events s =
     (if el_blocked s then Inr s
      else on_libuv_fd_active loop_delegate (loop_readable fresh junk) (loop_writeable fresh) fd 0 events s)"

fun loop_events :: "(nat \<Rightarrow> nat \<Rightarrow> byte) \<Rightarrow> (nat \<Rightarrow> byte) \<Rightarrow> int \<Rightarrow> nat list \<Rightarrow> event_loop \<Rightarrow> event_loop res" where
  "loop_events fresh junk fd [] s = Inr s"
| "loop_events fresh junk fd (ev # evs) s = rbind (loop_event fresh junk fd ev s) (loop_events fresh junk fd evs)"

lemma wired_delegate:
  assumes "wired_to fd (el_controller s)"
  shows "loop_delegate fd s = Some 0" and "\<exists>ch. nc_channel (ct_channels (el_controller s) ! 0) = Some ch \<and> ch_delegate ch"
  using assms by (auto simp: wiring_def loop_delegate_def io_delegate_def nc_wiring_def)

lemma readable_event:
  assumes "wired_to fd (el_controller s)" and "\<not> el_blocked s"
  shows "loop_event fresh junk fd UV_READABLE s = loop_readable fresh junk 0 fd s"
  using assms wired_delegate by (simp add: loop_event_def on_libuv_fd_active_def UV_READABLE_def UV_WRITABLE_def)

lemma writable_event:
  assumes "wired_to fd (el_controller s)" and "\<not> el_blocked s"
  shows "loop_event fresh junk fd UV_WRITABLE s = loop_writeable fresh 0 fd s"
  using assms wired_delegate by (simp add: loop_event_def on_libuv_fd_active_def UV_READABLE_def UV_WRITABLE_def)

lemma on_fd_readable_wiring:
  "on_fd_readable fresh junk (receive fresh c) ch q ct = Some (Inr (ct', q')) \<Longrightarrow> wiring ct' = wiring ct"
  by (auto simp: on_fd_readable_def rbind_eq_Inr_iff split: option.splits sum.splits if_splits dest: receive_wiring)

text \<open>The events of a socket that has whole messages to deliver read them one by one.\<close>

lemma loop_reads:
  assumes "wired_to fd (el_controller s)" and "\<not> el_blocked s" and "ch_delegate ch"
  shows "case read_events fresh junk (receive fresh 0) ch n (el_rx s) (el_controller s) of
      None \<Rightarrow> True
    | Some (Inl f) \<Rightarrow> loop_events fresh junk fd (replicate n UV_READABLE) s = Inl f
    | Some (Inr (ct, q)) \<Rightarrow> loop_events fresh junk fd (replicate n UV_READABLE) s = Inr (s\<lparr>el_controller := ct, el_rx := q\<rparr>)"
  using assms(1,2)
proof (induction n arbitrary: s)
  case (Suc n)
  obtain ch0 where ch0: "nc_channel (ct_channels (el_controller s) ! 0) = Some ch0" "ch_delegate ch0"
    using wired_delegate(2) [OF Suc.prems(1)] by blast
  have eq: "on_fd_readable fresh junk (receive fresh 0) ch0 q ct = on_fd_readable fresh junk (receive fresh 0) ch q ct" for q ct
    using ch0(2) assms(3) by (simp add: on_fd_readable_def split: option.splits sum.splits)
  let ?r = "on_fd_readable fresh junk (receive fresh 0) ch (el_rx s) (el_controller s)"
  show ?case
  proof (cases "\<exists>ct q. ?r = Some (Inr (ct, q))")
    case True
    then obtain ct q where r: "?r = Some (Inr (ct, q))" by blast
    from on_fd_readable_wiring [OF this] Suc.prems(1) have w: "wired_to fd ct" by simp
    show ?thesis
      using Suc.IH [of "s\<lparr>el_controller := ct, el_rx := q\<rparr>"] w Suc.prems r
      by (auto simp add: readable_event loop_readable_def ch0(1) eq split: option.splits sum.splits prod.splits)
  next
    case False
    then show ?thesis
      using Suc.prems by (auto simp: readable_event loop_readable_def ch0(1) eq split: option.splits sum.splits)
  qed
qed simp

section \<open>Carrying bytes\<close>

text \<open>
  What one end has queued, flushed by one event to a socket that takes it, and read by as many events at the other end;
  \<open>pieces\<close> says in which pieces the socket delivers the header and the body of each message. \<open>None\<close> is a loop that is
  blocked.
\<close>

definition carry :: "(nat \<Rightarrow> nat \<Rightarrow> byte) \<Rightarrow> (nat \<Rightarrow> byte) \<Rightarrow> (protocol \<Rightarrow> rx list \<times> rx list)
    \<Rightarrow> int \<Rightarrow> controller \<Rightarrow> int \<Rightarrow> controller \<Rightarrow> (controller \<times> controller) res option" where
  "carry fresh junk pieces fd s fd' t =
     (let ps = outbox (ct_channels s ! 0);
          qs = concat (map (\<lambda>p. fst (pieces p) @ snd (pieces p)) ps) in
      case loop_events fresh junk fd [UV_WRITABLE] (loop_new s (map (\<lambda>p. TOk (length (protocol_bytes p))) ps) []) of
        Inl f \<Rightarrow> Some (Inl f)
      | Inr l \<Rightarrow>
          if el_blocked l \<or> rx_bytes qs \<noteq> el_out l then None
          else case loop_events fresh junk fd' (replicate (length ps) UV_READABLE) (loop_new t [] qs) of
            Inl f \<Rightarrow> Some (Inl f)
          | Inr l' \<Rightarrow> if el_blocked l' then None else Some (Inr (el_controller l, el_controller l')))"

fun wire_step :: "(nat \<Rightarrow> nat \<Rightarrow> byte) \<Rightarrow> (nat \<Rightarrow> byte) \<Rightarrow> (side \<Rightarrow> int) \<Rightarrow> (side \<Rightarrow> u64) \<Rightarrow> (protocol \<Rightarrow> rx list \<times> rx list)
    \<Rightarrow> pipe_op \<Rightarrow> (side \<Rightarrow> core) \<Rightarrow> (outcome \<times> (side \<Rightarrow> core)) res option" where
  "wire_step fresh junk fd h pieces (Carry s) cs =
     map_option (\<lambda>r. rbind r (\<lambda>(a, b).
         Inr (Silent, cs(s := (cs s)\<lparr>co_controller := a\<rparr>, far s := (cs (far s))\<lparr>co_controller := b\<rparr>))))
       (carry fresh junk pieces (fd s) (co_controller (cs s)) (fd (far s)) (co_controller (cs (far s))))"
| "wire_step fresh junk fd h pieces x cs = Some (core_step fresh h x cs)"

fun wire_run :: "(nat \<Rightarrow> nat \<Rightarrow> byte) \<Rightarrow> (nat \<Rightarrow> byte) \<Rightarrow> (side \<Rightarrow> int) \<Rightarrow> (side \<Rightarrow> u64)
    \<Rightarrow> (pipe_op \<times> (protocol \<Rightarrow> rx list \<times> rx list)) list \<Rightarrow> (side \<Rightarrow> core) \<Rightarrow> (outcome list \<times> (side \<Rightarrow> core)) res option" where
  "wire_run fresh junk fd h [] cs = Some (Inr ([], cs))"
| "wire_run fresh junk fd h ((x, pieces) # xs) cs =
     (case wire_step fresh junk fd h pieces x cs of
        None \<Rightarrow> None
      | Some (Inl f) \<Rightarrow> Some (Inl f)
      | Some (Inr (r, cs1)) \<Rightarrow> map_option (\<lambda>y. rbind y (\<lambda>(rs, cs2). Inr (r # rs, cs2))) (wire_run fresh junk fd h xs cs1))"

lemma carry_is_exchange:
  assumes "outbox (ct_channels s ! 0) = ps" and "wired_to fd s" and "wired_to fd' t"
    and "list_all sendable ps" and "\<And>p. sendable p \<Longrightarrow> arrives (pieces p) p"
  shows "carry fresh junk pieces fd s fd' t = Some (exchange fresh 0 s 0 t)"
proof -
  obtain ch ch' where ch: "nc_channel (ct_channels s ! 0) = Some ch" and ch': "nc_channel (ct_channels t ! 0) = Some ch'" "ch_delegate ch'"
    using assms(2,3) by (auto simp: wiring_def nc_wiring_def)
  have ps: "ch_writing_protocol ch = ps" using assms(1) ch by (simp add: outbox_def)
  let ?qs = "map pieces ps" and ?q = "concat (map (\<lambda>p. fst (pieces p) @ snd (pieces p)) ps)"
  have "list_all2 arrives ?qs (ch_writing_protocol ch)" using assms(4,5) by (auto simp: ps list_all2_conv_all_nth list_all_length)
  moreover have "list_all sendable (ch_writing_protocol ch)" using assms(4) ps by simp
  moreover have q: "concat (map (\<lambda>(qh, qb). qh @ qb) ?qs) = ?q" by (simp add: comp_def split_beta)
  ultimately obtain ch1 where w: "on_fd_writeable fresh ch (map (\<lambda>p. TOk (length (protocol_bytes p))) ps) = Some (Inr (ch1, rx_bytes ?q, []))"
    and r: "case read_events fresh junk (receive fresh 0) ch' (length ps) ?q t of
         None \<Rightarrow> False
       | Some (Inl f) \<Rightarrow> exchange fresh 0 s 0 t = Inl f
       | Some (Inr (t', rest)) \<Rightarrow> exchange fresh 0 s 0 t =
           Inr (s\<lparr>ct_channels := (ct_channels s)[0 := (ct_channels s ! 0)\<lparr>nc_channel := Some ch1\<rparr>]\<rparr>, t')"
    using exchange_over_socket [OF ch ch', of ?qs fresh fresh junk] unfolding q ps length_map by blast
  have flushed: "loop_events fresh junk fd [UV_WRITABLE] (loop_new s (map (\<lambda>p. TOk (length (protocol_bytes p))) ps) []) =
      Inr \<lparr>el_controller = s\<lparr>ct_channels := (ct_channels s)[0 := (ct_channels s ! 0)\<lparr>nc_channel := Some ch1\<rparr>]\<rparr>,
        el_tx = [], el_rx = [], el_out = rx_bytes ?q, el_blocked = False\<rparr>"
    using assms(2) by (simp add: loop_new_def writable_event loop_writeable_def ch w)
  have "case read_events fresh junk (receive fresh 0) ch' (length ps) ?q t of
      None \<Rightarrow> True
    | Some (Inl f) \<Rightarrow> loop_events fresh junk fd' (replicate (length ps) UV_READABLE) (loop_new t [] ?q) = Inl f
    | Some (Inr (ct, q)) \<Rightarrow> loop_events fresh junk fd' (replicate (length ps) UV_READABLE) (loop_new t [] ?q)
        = Inr ((loop_new t [] ?q)\<lparr>el_controller := ct, el_rx := q\<rparr>)"
    using loop_reads [where fd = fd' and s = "loop_new t [] ?q" and ch = ch' and fresh = fresh and junk = junk and n = "length ps"]
      assms(3) ch'(2) by (simp add: loop_new_def)
  then show ?thesis
    using r unfolding carry_def assms(1) Let_def flushed
    by (auto simp: loop_new_def split: option.splits sum.splits prod.splits)
qed

lemma wire_step_eq:
  assumes "simulates h node own slot p cs" and "\<forall>s. wired_to (fd s) (co_controller (cs s))"
    and "\<And>p. sendable p \<Longrightarrow> arrives (pieces p) p"
  shows "wire_step fresh junk fd h pieces x cs = Some (core_step fresh h x cs)"
proof (cases x)
  case (Carry s)
  have "outbox (ct_channels (co_controller (cs s)) ! 0)
      = map (\<lambda>str. sent (UserMessage (pipe_message (own s) (own (far s)) str))) (pi_written p s)"
    and len: "\<forall>str \<in> set (pi_written p s). length str < 92"
    using assms(1) unfolding simulates_def end_ok_def connected_def only_channel_def by blast+
  moreover have "list_all sendable (map (\<lambda>str. sent (UserMessage (pipe_message (own s) (own (far s)) str))) (pi_written p s))"
  proof -
    have "sendable (sent (UserMessage (pipe_message a b str)))" if "length str < 92" for a b str
    proof -
      have "length (message_bytes (UserMessage (pipe_message a b str))) = 36 + length str"
        by (simp only: message_lengths) (simp add: pipe_message_def)
      then show ?thesis using that by (auto simp: sendable_def sent_def protocol_create_def simp del: message_bytes.simps)
    qed
    then show ?thesis using len by (simp add: list_all_iff)
  qed
  ultimately have "carry fresh junk pieces (fd s) (co_controller (cs s)) (fd (far s)) (co_controller (cs (far s)))
      = Some (exchange fresh 0 (co_controller (cs s)) 0 (co_controller (cs (far s))))"
    using assms(2,3) by (blast intro: carry_is_exchange)
  then show ?thesis by (simp add: Carry)
qed simp_all

lemma wire_run_simulates:
  assumes "simulates h node own slot p cs" and "node Inviter \<noteq> node Invitee" and "\<forall>s. wired_to (fd s) (co_controller (cs s))"
    and "\<forall>s str pieces. (Write s str, pieces) \<in> set xs \<longrightarrow> length str < 92"
    and "\<forall>x pieces p. (x, pieces) \<in> set xs \<longrightarrow> sendable p \<longrightarrow> arrives (pieces p) p"
  shows "\<exists>cs'. wire_run fresh junk fd h xs cs = Some (Inr (fst (pipe_run (map fst xs) p), cs'))"
  using assms(1,3-)
proof (induction xs arbitrary: p cs)
  case (Cons xp xs)
  obtain x pieces where xp: "xp = (x, pieces)" by force
  obtain cs1 where 1: "core_step fresh h x cs = Inr (fst (pipe_step x p), cs1)" "simulates h node own slot (snd (pipe_step x p)) cs1"
    using core_step_simulates [OF Cons.prems(1) assms(2), of x fresh] Cons.prems(3) xp by auto
  have "wire_step fresh junk fd h pieces x cs = Some (core_step fresh h x cs)"
    using Cons.prems(4) xp by (intro wire_step_eq [OF Cons.prems(1,2)]) auto
  moreover have "\<forall>s. wired_to (fd s) (co_controller (cs1 s))" using core_step_wiring [OF 1(1)] Cons.prems(2) by simp
  then obtain cs2 where "wire_run fresh junk fd h xs cs1 = Some (Inr (fst (pipe_run (map fst xs) (snd (pipe_step x p))), cs2))"
    using Cons.IH [OF 1(2)] Cons.prems(3,4) by (meson list.set_intros(2))
  ultimately show ?case using 1(1) by (simp add: xp split_beta)
qed simp

lemma connect_ready:
  fixes fda fdb :: int
  assumes "good_names srcA" and "good_names srcB" and "srcA 2 0 \<noteq> srcB 0 0" and "length nm < 104"
  defines "fd \<equiv> \<lambda>s. case s of Inviter \<Rightarrow> fda | Invitee \<Rightarrow> fdb"
  obtains A B where "connect fresh nm fda fdb (started srcA) (started srcB) = Inr (2, 2, A, B)"
    and "simulates (\<lambda>_. 2) (\<lambda>s. case s of Inviter \<Rightarrow> srcA 0 0 | Invitee \<Rightarrow> srcB 0 0)
      (\<lambda>s. case s of Inviter \<Rightarrow> srcA 1 0 | Invitee \<Rightarrow> srcB 1 0) (\<lambda>_. 0) pipe_new (\<lambda>s. case s of Inviter \<Rightarrow> A | Invitee \<Rightarrow> B)"
    and "\<forall>s. wired_to (fd s) (co_controller (case s of Inviter \<Rightarrow> A | Invitee \<Rightarrow> B))"
proof -
  obtain A B where con: "connect fresh nm fda fdb (started srcA) (started srcB) = Inr (2, 2, A, B)"
    and sim: "simulates (\<lambda>_. 2) (\<lambda>s. case s of Inviter \<Rightarrow> srcA 0 0 | Invitee \<Rightarrow> srcB 0 0)
      (\<lambda>s. case s of Inviter \<Rightarrow> srcA 1 0 | Invitee \<Rightarrow> srcB 1 0) (\<lambda>_. 0) pipe_new (\<lambda>s. case s of Inviter \<Rightarrow> A | Invitee \<Rightarrow> B)"
      (is "simulates _ _ _ _ _ ?cs")
    using connect_simulates [OF assms(1-4)] by blast
  have "length (ct_channels (co_controller (?cs s))) = 1" for s
    using sim unfolding simulates_def end_ok_def connected_def only_channel_def by blast
  from this [of Inviter] this [of Invitee] have "\<forall>s. wired_to (fd s) (co_controller (?cs s))"
    using connect_wiring [OF con] by (simp add: fd_def split: side.splits)
  with con sim show thesis by (rule that)
qed

text \<open>
  C1: Two processes connected by an invitation implement the abstract pipe, down to the events of their
  loops and the bytes on their socket: whatever sequence of writes of fewer than 92 bytes, reads and deliveries is
  done at the two ends, and in whatever pieces each delivery hands out the bytes, no call faults, no loop blocks and each read
  returns what the abstract pipe returns: the messages of the other end, whole, the last one carried over
  first, or an empty message with the result OK when there is none.
\<close>

theorem pipe_over_sockets:
  assumes "good_names srcA" and "good_names srcB" and "srcA 2 0 \<noteq> srcB 0 0" and "length nm < 104"
    and "srcA 0 0 \<noteq> srcB 0 0" and "\<forall>s str pieces. (Write s str, pieces) \<in> set xs \<longrightarrow> length str < 92"
    and "\<forall>x pieces p. (x, pieces) \<in> set xs \<longrightarrow> sendable p \<longrightarrow> arrives (pieces p) p"
  shows "\<exists>A B cs. connect fresh nm fda fdb (started srcA) (started srcB) = Inr (2, 2, A, B)
    \<and> wire_run fresh junk (\<lambda>s. case s of Inviter \<Rightarrow> fda | Invitee \<Rightarrow> fdb) (\<lambda>_. 2) xs (\<lambda>s. case s of Inviter \<Rightarrow> A | Invitee \<Rightarrow> B)
        = Some (Inr (fst (pipe_run (map fst xs) pipe_new), cs))"
proof -
  obtain A B where con: "connect fresh nm fda fdb (started srcA) (started srcB) = Inr (2, 2, A, B)"
    and sim: "simulates (\<lambda>_. 2) (\<lambda>s. case s of Inviter \<Rightarrow> srcA 0 0 | Invitee \<Rightarrow> srcB 0 0)
      (\<lambda>s. case s of Inviter \<Rightarrow> srcA 1 0 | Invitee \<Rightarrow> srcB 1 0) (\<lambda>_. 0) pipe_new (\<lambda>s. case s of Inviter \<Rightarrow> A | Invitee \<Rightarrow> B)"
    and wired: "\<forall>s. wired_to (case s of Inviter \<Rightarrow> fda | Invitee \<Rightarrow> fdb) (co_controller (case s of Inviter \<Rightarrow> A | Invitee \<Rightarrow> B))"
    by (rule connect_ready [OF assms(1-4)])
  from wire_run_simulates [OF sim _ wired assms(6,7), of fresh junk] con assms(5) show ?thesis by auto
qed

text \<open>Each message in two pieces, its header and its body.\<close>

definition in_two :: "protocol \<Rightarrow> rx list \<times> rx list" where
  "in_two p = ([RData (take kBaseLen (protocol_bytes p))], [RData (drop kBaseLen (protocol_bytes p))])"

lemma in_two_arrives: "sendable p \<Longrightarrow> arrives (in_two p) p"
  by (simp add: in_two_def arrives_def sendable_def protocol_bytes_def meta_bytes_def str32_def kBaseLen_def)

theorem pipe_over_sockets_witness:
  "\<exists>A B cs. connect (\<lambda>_ _. 0) [112] 3 4 (started (sample_names 1)) (started (sample_names 2)) = Inr (2, 2, A, B)
    \<and> wire_run (\<lambda>_ _. 0) (\<lambda>_. 0) (\<lambda>s. case s of Inviter \<Rightarrow> 3 | Invitee \<Rightarrow> 4) (\<lambda>_. 2)
        [(Write Inviter [1], in_two), (Write Inviter [2, 3], in_two), (Carry Inviter, in_two), (Read Invitee, in_two),
         (Read Invitee, in_two), (Read Invitee, in_two)] (\<lambda>s. case s of Inviter \<Rightarrow> A | Invitee \<Rightarrow> B)
        = Some (Inr ([Silent, Silent, Silent, Got MOJO_RESULT_OK (Some [2, 3]), Got MOJO_RESULT_OK (Some [1]),
            Got MOJO_RESULT_OK (Some [])], cs))"
  using pipe_over_sockets [of "sample_names 1" "sample_names 2" "[112]"
      "[(Write Inviter [1], in_two), (Write Inviter [2, 3], in_two), (Carry Inviter, in_two), (Read Invitee, in_two),
         (Read Invitee, in_two), (Read Invitee, in_two)]" "\<lambda>_ _. 0" 3 4 "\<lambda>_. 0"]
    sample_names_good in_two_arrives
  by (auto simp: pipe_new_def)

end
