(* ===== verification/Descriptors.thy ===== *)
theory Descriptors
  imports Channel
begin

unbundle bit_operations_syntax

text \<open>
  The file descriptors under a channel: \<^verbatim>\<open>set_nonblock\<close>, \<^verbatim>\<open>set_cloexec\<close> and \<^verbatim>\<open>Socket\<close> of
  \<^verbatim>\<open>src/core/sock_ops.cc\<close>, \<^verbatim>\<open>sock_pair_channel.h\<close>, \<^verbatim>\<open>connection_params.h\<close>, and what a non-blocking
  socket means for \<^verbatim>\<open>ReadHeader\<close>. The kernel's table maps an open descriptor to its status flags (those
  of the open file, which no two descriptors of this table share) and its descriptor flags; which numbers it gives out is an argument.
\<close>

section \<open>The kernel's table\<close>

definition O_RDWR :: u32 where "O_RDWR = 2"
definition O_NONBLOCK :: u32 where "O_NONBLOCK = 0x800"
definition FD_CLOEXEC :: u32 where "FD_CLOEXEC = 1"
definition SOCK_STREAM :: u32 where "SOCK_STREAM = 1"
definition SOCK_NONBLOCK :: u32 where "SOCK_NONBLOCK = 0x800"
definition SOCK_CLOEXEC :: u32 where "SOCK_CLOEXEC = 0x80000"

record descriptor =
  ds_status :: u32
  ds_flags :: u32

type_synonym descriptors = "int \<rightharpoonup> descriptor"

text \<open>
  \<^verbatim>\<open>fcntl\<close> as POSIX and Linux have it: \<open>- 1\<close> for a descriptor that is not open; \<^verbatim>\<open>F_SETFL\<close> changes only
  \<^verbatim>\<open>O_APPEND\<close>, \<^verbatim>\<open>O_NONBLOCK\<close>, \<^verbatim>\<open>O_ASYNC\<close>, \<^verbatim>\<open>O_DIRECT\<close> and \<^verbatim>\<open>O_NOATIME\<close>, \<^verbatim>\<open>F_SETFD\<close> only \<^verbatim>\<open>FD_CLOEXEC\<close>.
\<close>

definition settable :: u32 where "settable = 0x46C00"

definition fcntl_getfl :: "int \<Rightarrow> descriptors \<Rightarrow> u32" where
  "fcntl_getfl fd t = (case t fd of None \<Rightarrow> - 1 | Some d \<Rightarrow> ds_status d)"

definition fcntl_setfl :: "int \<Rightarrow> u32 \<Rightarrow> descriptors \<Rightarrow> descriptors" where
  "fcntl_setfl fd v t =
     (case t fd of None \<Rightarrow> t
      | Some d \<Rightarrow> t(fd \<mapsto> d\<lparr>ds_status := (ds_status d AND NOT settable) OR (v AND settable)\<rparr>))"

definition fcntl_getfd :: "int \<Rightarrow> descriptors \<Rightarrow> u32" where
  "fcntl_getfd fd t = (case t fd of None \<Rightarrow> - 1 | Some d \<Rightarrow> ds_flags d)"

definition fcntl_setfd :: "int \<Rightarrow> u32 \<Rightarrow> descriptors \<Rightarrow> descriptors" where
  "fcntl_setfd fd v t = (case t fd of None \<Rightarrow> t | Some d \<Rightarrow> t(fd \<mapsto> d\<lparr>ds_flags := v AND FD_CLOEXEC\<rparr>))"

text \<open>A new socket of a type; \<open>None\<close> is a failed call.\<close>

definition new_socket :: "u32 \<Rightarrow> descriptor" where
  "new_socket ty = \<lparr>ds_status = O_RDWR OR (if ty AND SOCK_NONBLOCK = 0 then 0 else O_NONBLOCK),
     ds_flags = if ty AND SOCK_CLOEXEC = 0 then 0 else FD_CLOEXEC\<rparr>"

definition sys_socket :: "int option \<Rightarrow> u32 \<Rightarrow> descriptors \<Rightarrow> int \<times> descriptors" where
  "sys_socket given ty t = (case given of None \<Rightarrow> (- 1, t) | Some fd \<Rightarrow> (fd, t(fd \<mapsto> new_socket ty)))"

definition sys_socketpair :: "(int \<times> int) option \<Rightarrow> u32 \<Rightarrow> int \<times> int \<Rightarrow> descriptors \<Rightarrow> (int \<times> int) \<times> descriptors" where
  "sys_socketpair given ty array t =
     (case given of None \<Rightarrow> (array, t)
      | Some (a, b) \<Rightarrow> ((a, b), t(a \<mapsto> new_socket ty, b \<mapsto> new_socket ty)))"

section \<open>The operations\<close>

definition set_nonblock :: "int \<Rightarrow> descriptors \<Rightarrow> descriptors" where
  "set_nonblock fd t = fcntl_setfl fd (fcntl_getfl fd t OR O_NONBLOCK) t"

definition set_cloexec :: "int \<Rightarrow> descriptors \<Rightarrow> descriptors" where
  "set_cloexec fd t = fcntl_setfd fd (fcntl_getfd fd t OR FD_CLOEXEC) t"

definition sock_socket :: "int option \<Rightarrow> u32 \<Rightarrow> descriptors \<Rightarrow> int \<times> descriptors" where
  "sock_socket given ty t = sys_socket given (ty OR SOCK_NONBLOCK OR SOCK_CLOEXEC) t"

record connection_params =
  cp_is_async :: bool
  cp_fd :: int

definition connection_params_new :: "int \<Rightarrow> connection_params" where
  "connection_params_new fd = \<lparr>cp_is_async = False, cp_fd = fd\<rparr>"

definition set_is_async :: "bool \<Rightarrow> connection_params \<Rightarrow> connection_params" where
  "set_is_async b cp = cp\<lparr>cp_is_async := b\<rparr>"

record sock_pair_channel =
  sp_local_endpoint :: int
  sp_remote_endpoint :: int

text \<open>The result of \<^verbatim>\<open>socketpair\<close> is not looked at: after a failure the array holds what was there, \<open>junk\<close>.\<close>

definition sock_pair_channel_new :: "(int \<times> int) option \<Rightarrow> int \<times> int \<Rightarrow> descriptors \<Rightarrow> sock_pair_channel \<times> descriptors" where
  "sock_pair_channel_new given junk t =
     (let ((a, b), t1) = sys_socketpair given SOCK_STREAM junk t
      in (\<lparr>sp_local_endpoint = a, sp_remote_endpoint = b\<rparr>, set_nonblock b (set_nonblock a t1)))"

section \<open>Lemmas\<close>

definition nonblocking :: "int \<Rightarrow> descriptors \<Rightarrow> bool" where
  "nonblocking fd t \<longleftrightarrow> (\<exists>d. t fd = Some d \<and> ds_status d AND O_NONBLOCK \<noteq> 0)"

lemma set_nonblock_eq:
  "set_nonblock fd t = (case t fd of None \<Rightarrow> t | Some d \<Rightarrow> t(fd \<mapsto> d\<lparr>ds_status := ds_status d OR O_NONBLOCK\<rparr>))"
proof -
  have "(s AND NOT settable) OR ((s OR O_NONBLOCK) AND settable) = s OR O_NONBLOCK" for s
  proof -
    have "O_NONBLOCK AND settable = O_NONBLOCK" by (simp add: O_NONBLOCK_def settable_def)
    then have "(s OR O_NONBLOCK) AND settable = (s AND settable) OR O_NONBLOCK" by (simp add: bit.conj_disj_distrib2)
    moreover have "(s AND NOT settable) OR (s AND settable) = s"
      by (simp flip: bit.conj_disj_distrib)
    ultimately show ?thesis by (simp flip: or.assoc)
  qed
  then show ?thesis by (simp add: set_nonblock_def fcntl_setfl_def fcntl_getfl_def split: option.splits)
qed

lemma set_cloexec_eq:
  "set_cloexec fd t = (case t fd of None \<Rightarrow> t | Some d \<Rightarrow> t(fd \<mapsto> d\<lparr>ds_flags := FD_CLOEXEC\<rparr>))"
  by (simp add: set_cloexec_def fcntl_setfd_def fcntl_getfd_def FD_CLOEXEC_def bit.conj_disj_distrib2 split: option.splits)

lemma new_socket_nonblock: "new_socket (ty OR SOCK_NONBLOCK OR SOCK_CLOEXEC) = \<lparr>ds_status = O_RDWR OR O_NONBLOCK, ds_flags = FD_CLOEXEC\<rparr>"
proof -
  have "(ty OR SOCK_NONBLOCK OR SOCK_CLOEXEC) AND SOCK_NONBLOCK \<noteq> 0" "(ty OR SOCK_NONBLOCK OR SOCK_CLOEXEC) AND SOCK_CLOEXEC \<noteq> 0"
    by (simp_all add: SOCK_NONBLOCK_def SOCK_CLOEXEC_def bit.conj_disj_distrib2)
  then show ?thesis by (simp add: new_socket_def)
qed

lemma pair_socket: "new_socket SOCK_STREAM = \<lparr>ds_status = O_RDWR, ds_flags = 0\<rparr>"
  by (simp add: new_socket_def SOCK_STREAM_def SOCK_NONBLOCK_def SOCK_CLOEXEC_def)

text \<open>Setting the mode of a descriptor that is not open does nothing, and twice is once.\<close>

lemma set_nonblock_idem: "set_nonblock fd (set_nonblock fd t) = set_nonblock fd t"
  by (simp add: set_nonblock_eq or.assoc split: option.splits)

lemma socket_is_nonblocking: "sock_socket (Some fd) ty t = (fd, t') \<Longrightarrow> nonblocking fd t' \<and> ds_flags (the (t' fd)) = FD_CLOEXEC"
  by (auto simp: sock_socket_def sys_socket_def new_socket_nonblock nonblocking_def O_RDWR_def O_NONBLOCK_def)

lemma sock_pair_made:
  assumes "a \<noteq> b"
  shows "sock_pair_channel_new (Some (a, b)) junk t = (\<lparr>sp_local_endpoint = a, sp_remote_endpoint = b\<rparr>,
     t(a \<mapsto> \<lparr>ds_status = O_RDWR OR O_NONBLOCK, ds_flags = 0\<rparr>, b \<mapsto> \<lparr>ds_status = O_RDWR OR O_NONBLOCK, ds_flags = 0\<rparr>))"
  using assms by (auto simp: sock_pair_channel_new_def sys_socketpair_def pair_socket set_nonblock_eq fun_upd_twist)

section \<open>What a channel reads from such a socket\<close>

text \<open>Only a call on a non-blocking descriptor returns because there is nothing to read.\<close>

fun may_return :: "int \<Rightarrow> descriptors \<Rightarrow> rx \<Rightarrow> bool" where
  "may_return fd t (RErr EAGAIN) \<longleftrightarrow> nonblocking fd t"
| "may_return fd t r \<longleftrightarrow> True"

lemma read_fix_buf_cut:
  assumes "length bs < unat n" and "bs \<noteq> []"
  shows "read_fix_buf junk n (RData bs # RErr EAGAIN # q) = Some (bs @ map junk [length bs..<unat n], q)"
  using assms by (auto simp: read_fix_buf_def sock_recvn_def)

lemma header_decodes:
  assumes "length buf = 11"
  shows "deserialize_protocol fresh buf = Inr \<lparr>p_magic = buf ! 0, p_version = buf ! 1, p_type = buf ! 2,
    p_content_length = le_dec (take 4 (drop 3 buf)), p_data = []\<rparr>"
proof -
  define w :: u32 where "w = le_dec (take 4 (drop 3 buf))"
  have w: "le_enc 4 w = take 4 (drop 3 buf)"
    using le_enc_le_dec [of "take 4 (drop 3 buf)", where 'a = 32] assms by (simp add: w_def)
  have take3: "take 3 buf = [buf ! 0, buf ! 1, buf ! 2]"
    using assms by (simp add: numeral_3_eq_3 numeral_2_eq_2 take_Suc_conv_app_nth)
  have "buf = take 3 buf @ take 4 (drop 3 buf) @ drop 7 buf"
    using append_take_drop_id [of 4 "drop 3 buf"] append_take_drop_id [of 3 buf] by simp
  then have split: "([buf ! 0, buf ! 1, buf ! 2] @ le_enc 4 w) @ drop 7 buf = buf" by (simp add: w take3)
  show ?thesis
    using deserialize_short [OF yields_decode_meta [of protocol_default "buf ! 0" "buf ! 1" "buf ! 2" w], of "drop 7 buf" fresh] assms
    by (simp only: split) (simp add: deserialize_protocol_def protocol_decode_def [abs_def] protocol_default_def w_def)
qed

text \<open>
  C40: Both ends of a new \<^verbatim>\<open>SockPairChannel\<close> are non-blocking and survive an exec, every other descriptor is as it was; and
  on such an end a header of which only the first \<open>k\<close> bytes have arrived is not waited for: \<^verbatim>\<open>ReadHeader\<close>
  returns one made of these and of what the buffer held before, with the type of the message and a content length that it
  did not have, and the rest of the header is left to be read as the body.
\<close>

theorem pair_reads_partial_header:
  assumes "a \<noteq> b" and "sock_pair_channel_new (Some (a, b)) old t = (sp, t')" and "3 \<le> k" and "k < kBaseLen"
  shows "\<forall>fd. (fd \<in> {sp_local_endpoint sp, sp_remote_endpoint sp} \<longrightarrow> nonblocking fd t' \<and> ds_flags (the (t' fd)) = 0
        \<and> list_all (may_return fd t') [RData (take k (protocol_bytes p)), RErr EAGAIN]
        \<and> read_header fresh junk kBaseLen ([RData (take k (protocol_bytes p)), RErr EAGAIN] @ q)
            = Some (Inr (p\<lparr>p_content_length := le_dec (take 4 (drop 3 (take k (protocol_bytes p) @ map junk [k..<kBaseLen]))),
                p_data := []\<rparr>, q)))
      \<and> (fd \<notin> {sp_local_endpoint sp, sp_remote_endpoint sp} \<longrightarrow> t' fd = t fd)"
proof -
  let ?bs = "take k (protocol_bytes p)" and ?buf = "take k (protocol_bytes p) @ map junk [k..<kBaseLen]"
  have len: "length ?bs = k" using assms(4) by (simp add: protocol_bytes_def meta_bytes_def str32_def kBaseLen_def)
  have n: "unat (of_nat kBaseLen :: u16) = kBaseLen" by (simp add: kBaseLen_def)
  have cut: "read_fix_buf junk (of_nat kBaseLen) (RData ?bs # RErr EAGAIN # q) = Some (?buf, q)"
  proof -
    have "?bs \<noteq> []" using len assms(3) by auto
    then show ?thesis using read_fix_buf_cut [of ?bs "of_nat kBaseLen" junk q] assms(4) len n by (simp del: length_take take_eq_Nil)
  qed
  have "?bs ! 0 = p_magic p \<and> ?bs ! 1 = p_version p \<and> ?bs ! 2 = p_type p"
    using assms(3) by (simp add: protocol_bytes_def meta_bytes_def)
  then have first: "?buf ! 0 = p_magic p" "?buf ! 1 = p_version p" "?buf ! 2 = p_type p"
    using assms(3) len by (simp_all add: nth_append del: nth_take)
  have "length ?buf = 11" using len assms(4) by (simp add: kBaseLen_def)
  then have head: "read_header fresh junk kBaseLen (RData ?bs # RErr EAGAIN # q)
      = Some (Inr (p\<lparr>p_content_length := le_dec (take 4 (drop 3 ?buf)), p_data := []\<rparr>, q))"
    unfolding read_header_def cut by (simp only: option.case prod.case header_decodes first) simp
  show ?thesis
    using assms(2) head unfolding sock_pair_made [OF assms(1)]
    by (auto simp: nonblocking_def O_RDWR_def O_NONBLOCK_def)
qed

theorem pair_reads_partial_header_witness:
  "read_header (\<lambda>_ _. 0) (\<lambda>_. 0) kBaseLen [RData [0xcc, 1, 9], RErr EAGAIN, RData [2, 0, 0, 0]]
    = Some (Inr (\<lparr>p_magic = 0xcc, p_version = 1, p_type = 9, p_content_length = 0, p_data = []\<rparr>, [RData [2, 0, 0, 0]]))"
proof -
  let ?p = "\<lparr>p_magic = 0xcc, p_version = 1, p_type = 9, p_content_length = 2, p_data = [104, 105 :: byte]\<rparr>"
  have bytes: "protocol_bytes ?p = [0xcc, 1, 9, 2, 0, 0, 0, 2, 0, 0, 0, 104, 105]" by code_simp
  have buf: "le_dec (take 4 (drop 3 (take 3 (protocol_bytes ?p) @ map (\<lambda>_. 0) [3..<kBaseLen]))) = (0 :: u32)"
    unfolding bytes kBaseLen_def by code_simp
  show ?thesis
    using pair_reads_partial_header [OF _ refl [THEN trans, OF sock_pair_made [of 5 6 "(0, 0)" Map.empty]], of 3 ?p "\<lambda>_ _. 0" "\<lambda>_. 0" "[RData [2, 0, 0, 0]]"]
    by (auto simp: bytes buf [unfolded bytes] kBaseLen_def)
qed

end
