(* ===== verification/Log_Stream.thy ===== *)
theory Log_Stream
  imports Prelude
begin

text \<open>
  The text buffer behind the log messages, \<^verbatim>\<open>src/log/log_stream.h\<close>: a fixed array and a cursor into it.
  The cookie (a debugging aid) has no effect on the contents, and the formatting of numbers is
  declared only.
\<close>

section \<open>The buffer\<close>

record fixed_buffer =
  fb_data :: bytes      \<comment> \<open>\<^verbatim>\<open>data_\<close>, of constant size\<close>
  fb_cur :: nat         \<comment> \<open>\<^verbatim>\<open>cur_\<close>, as an offset\<close>

definition kSmallBuffer :: nat where "kSmallBuffer = 4000"
definition kLargeBuffer :: nat where "kLargeBuffer = 4000 * 1000"

text \<open>The array is not initialized: \<open>junk\<close> is what it holds.\<close>

definition fb_new :: "nat \<Rightarrow> (nat \<Rightarrow> byte) \<Rightarrow> fixed_buffer" where
  "fb_new n junk = \<lparr>fb_data = map junk [0..<n], fb_cur = 0\<rparr>"

definition fb_length :: "fixed_buffer \<Rightarrow> int" where
  "fb_length b = signed_take_bit 31 (int (fb_cur b))"

definition fb_avail :: "fixed_buffer \<Rightarrow> int" where
  "fb_avail b = signed_take_bit 31 (int (length (fb_data b)) - int (fb_cur b))"

text \<open>The room left is an \<^verbatim>\<open>int\<close> and compared as a \<^verbatim>\<open>size_t\<close>.\<close>

definition fb_append :: "bytes \<Rightarrow> fixed_buffer \<Rightarrow> fixed_buffer res" where
  "fb_append buf b =
     (if int (length buf) < fb_avail b mod 2 ^ 64
      then if fb_cur b + length buf \<le> length (fb_data b)
           then Inr (b\<lparr>fb_data := overlay (fb_cur b) buf (fb_data b), fb_cur := fb_cur b + length buf\<rparr>)
           else Inl MemoryOverrun
      else Inr b)"

definition fb_add :: "nat \<Rightarrow> fixed_buffer \<Rightarrow> fixed_buffer" where
  "fb_add len b = b\<lparr>fb_cur := fb_cur b + len\<rparr>"

definition fb_reset :: "fixed_buffer \<Rightarrow> fixed_buffer" where
  "fb_reset b = b\<lparr>fb_cur := 0\<rparr>"

definition fb_bzero :: "fixed_buffer \<Rightarrow> fixed_buffer" where
  "fb_bzero b = b\<lparr>fb_data := replicate (length (fb_data b)) 0\<rparr>"

definition fb_to_string :: "fixed_buffer \<Rightarrow> bytes" where
  "fb_to_string b = take (nat (fb_length b)) (fb_data b)"

section \<open>The stream\<close>

definition log_stream_new :: "(nat \<Rightarrow> byte) \<Rightarrow> fixed_buffer" where
  "log_stream_new junk = fb_new kSmallBuffer junk"

definition ls_bool :: "bool \<Rightarrow> fixed_buffer \<Rightarrow> fixed_buffer res" where
  "ls_bool v b = fb_append (if v then [49] else [48]) b"

definition ls_char :: "byte \<Rightarrow> fixed_buffer \<Rightarrow> fixed_buffer res" where
  "ls_char v b = fb_append [v] b"

definition ls_string :: "bytes \<Rightarrow> fixed_buffer \<Rightarrow> fixed_buffer res" where
  "ls_string v b = fb_append v b"

definition ls_buffer :: "fixed_buffer \<Rightarrow> fixed_buffer \<Rightarrow> fixed_buffer res" where
  "ls_buffer v b = ls_string (fb_to_string v) b"

text \<open>A C string ends at its first zero byte; a null pointer is printed as such.\<close>

definition ls_cstring :: "bytes option \<Rightarrow> fixed_buffer \<Rightarrow> fixed_buffer res" where
  "ls_cstring str b =
     (case str of Some s \<Rightarrow> fb_append (takeWhile (\<lambda>c. c \<noteq> 0) s) b
      | None \<Rightarrow> fb_append [40, 110, 117, 108, 108, 41] b)"

section \<open>What is kept\<close>

definition fb_wf :: "fixed_buffer \<Rightarrow> bool" where
  "fb_wf b \<longleftrightarrow> fb_cur b \<le> length (fb_data b) \<and> length (fb_data b) < 2 ^ 31"

lemma fb_wf_new: "n < 2 ^ 31 \<Longrightarrow> fb_wf (fb_new n junk)"
  by (simp add: fb_wf_def fb_new_def)

lemma signed_small: "- (2 ^ 31) \<le> i \<Longrightarrow> i < 2 ^ 31 \<Longrightarrow> signed_take_bit 31 i = (i :: int)"
  by (rule signed_take_bit_int_eq_self) simp_all

lemma fb_wf_sel:
  assumes "fb_wf b"
  shows "fb_to_string b = take (fb_cur b) (fb_data b)" and "fb_avail b = int (length (fb_data b) - fb_cur b)"
  using assms signed_small [of "int (fb_cur b)"] signed_small [of "int (length (fb_data b)) - int (fb_cur b)"]
  by (simp_all add: fb_wf_def fb_to_string_def fb_length_def fb_avail_def of_nat_diff)

text \<open>What a buffer with this much room keeps of the pieces appended to it.\<close>

fun kept :: "nat \<Rightarrow> bytes list \<Rightarrow> bytes" where
  "kept room [] = []"
| "kept room (x # xs) = (if length x < room then x @ kept (room - length x) xs else kept room xs)"

fun append_all :: "bytes list \<Rightarrow> fixed_buffer \<Rightarrow> fixed_buffer res" where
  "append_all [] b = Inr b"
| "append_all (x # xs) b = rbind (fb_append x b) (\<lambda>b1. append_all xs b1)"

lemma fb_append_wf:
  assumes "fb_wf b"
  obtains b' where "fb_append x b = Inr b'" and "fb_wf b'" and "length (fb_data b') = length (fb_data b)"
    and "fb_to_string b' = fb_to_string b @ (if length x < length (fb_data b) - fb_cur b then x else [])"
    and "fb_cur b' = fb_cur b + (if length x < length (fb_data b) - fb_cur b then length x else 0)"
proof (cases "length x < length (fb_data b) - fb_cur b")
  case True
  let ?b = "b\<lparr>fb_data := overlay (fb_cur b) x (fb_data b), fb_cur := fb_cur b + length x\<rparr>"
  have "length (fb_data b) - fb_cur b < 2 ^ 64" using assms by (auto simp: fb_wf_def)
  then have "int (length x) < fb_avail b mod 2 ^ 64" using True fb_wf_sel(2) [OF assms] by (simp add: mod_pos_pos_trivial)
  then have app: "fb_append x b = Inr ?b" using True by (simp add: fb_append_def)
  have len: "length (fb_data ?b) = length (fb_data b)" using True assms by (simp add: fb_wf_def overlay_def)
  then have wf: "fb_wf ?b" using True assms by (simp add: fb_wf_def)
  have "take (fb_cur b + length x) (overlay (fb_cur b) x (fb_data b)) = take (fb_cur b) (fb_data b) @ x"
    using True by (simp add: overlay_def)
  then show thesis using that [OF app wf len] True fb_wf_sel(1) [OF assms] fb_wf_sel(1) [OF wf] by simp
next
  case False
  have "fb_avail b mod 2 ^ 64 \<le> int (length (fb_data b) - fb_cur b)"
    unfolding fb_wf_sel(2) [OF assms] by (rule zmod_le_nonneg_dividend) simp
  moreover have "int (length (fb_data b) - fb_cur b) \<le> int (length x)" using False by simp
  ultimately have "\<not> int (length x) < fb_avail b mod 2 ^ 64" by (meson leD order_trans)
  then have "fb_append x b = Inr b" by (simp add: fb_append_def)
  then show thesis using that [of b] False assms by simp
qed

lemma append_all_keeps:
  assumes "fb_wf b"
  shows "\<exists>b'. append_all xs b = Inr b' \<and> fb_wf b' \<and> length (fb_data b') = length (fb_data b)
      \<and> fb_to_string b' = fb_to_string b @ kept (length (fb_data b) - fb_cur b) xs
      \<and> (fb_cur b < length (fb_data b) \<longrightarrow> fb_cur b' < length (fb_data b))"
  using assms
proof (induction xs arbitrary: b)
  case (Cons x xs)
  obtain b1 where b1: "fb_append x b = Inr b1" "fb_wf b1" "length (fb_data b1) = length (fb_data b)"
    "fb_to_string b1 = fb_to_string b @ (if length x < length (fb_data b) - fb_cur b then x else [])"
    "fb_cur b1 = fb_cur b + (if length x < length (fb_data b) - fb_cur b then length x else 0)"
    by (rule fb_append_wf [OF Cons.prems, of x])
  have "length (fb_data b1) - fb_cur b1 = (if length x < length (fb_data b) - fb_cur b
      then length (fb_data b) - fb_cur b - length x else length (fb_data b) - fb_cur b)"
    by (simp add: b1(3,5))
  with Cons.IH [OF b1(2)] b1 show ?case by (auto split: if_splits)
qed simp

text \<open>
  C39: Appending to a log buffer never writes outside it: each piece is kept whole, in order, when it is
  shorter than the room left, and dropped whole otherwise, so that the last byte of the buffer is never
  used. But \<^verbatim>\<open>add\<close> does not check: once it has moved the cursor past the end, every append that is not
  empty writes outside the buffer.
\<close>

theorem log_buffer_keeps_whole_pieces:
  assumes "fb_wf b"
  shows "(\<exists>b'. append_all xs b = Inr b' \<and> fb_wf b' \<and> length (fb_data b') = length (fb_data b)
      \<and> fb_to_string b' = fb_to_string b @ kept (length (fb_data b) - fb_cur b) xs
      \<and> (fb_cur b < length (fb_data b) \<longrightarrow> fb_cur b' < length (fb_data b)))
    \<and> (length (fb_data b) < fb_cur b + n \<and> fb_cur b + n < 2 ^ 31 \<and> x \<noteq> [] \<and> length x < 2 ^ 63
      \<longrightarrow> fb_append x (fb_add n b) = Inl MemoryOverrun)"
proof
  show "\<exists>b'. append_all xs b = Inr b' \<and> fb_wf b' \<and> length (fb_data b') = length (fb_data b)
      \<and> fb_to_string b' = fb_to_string b @ kept (length (fb_data b) - fb_cur b) xs
      \<and> (fb_cur b < length (fb_data b) \<longrightarrow> fb_cur b' < length (fb_data b))"
    by (rule append_all_keeps [OF assms])
  have "fb_append x (fb_add n b) = Inl MemoryOverrun"
    if "length (fb_data b) < fb_cur b + n" "fb_cur b + n < 2 ^ 31" "x \<noteq> []" "length x < 2 ^ 63"
  proof -
    let ?d = "int (length (fb_data b)) - int (fb_cur b + n)"
    have "fb_avail (fb_add n b) = ?d"
      using that(1,2) signed_small [of ?d] by (simp add: fb_avail_def fb_add_def)
    moreover have "?d mod 2 ^ 64 = ?d + 2 ^ 64" using that(1,2) by (intro int_mod_pos_eq [where q = "- 1"]) simp_all
    ultimately have "int (length x) < fb_avail (fb_add n b) mod 2 ^ 64" using that(2,4) by simp
    then show ?thesis using that(1) by (simp add: fb_append_def fb_add_def)
  qed
  then show "length (fb_data b) < fb_cur b + n \<and> fb_cur b + n < 2 ^ 31 \<and> x \<noteq> [] \<and> length x < 2 ^ 63
      \<longrightarrow> fb_append x (fb_add n b) = Inl MemoryOverrun" by blast
qed

theorem log_buffer_keeps_whole_pieces_witness:
  "\<exists>b'. append_all [[1, 2], [3, 4, 5], [6]] (fb_new 4 (\<lambda>_. 0)) = Inr b' \<and> fb_to_string b' = [1, 2, 6]"
  using log_buffer_keeps_whole_pieces [OF fb_wf_new [of 4 "\<lambda>_. 0"], of "[[1, 2], [3, 4, 5], [6]]" 0 "[]"]
  by (auto simp: fb_new_def fb_to_string_def fb_length_def)

end
