(* ===== verification/Message_Text.thy ===== *)
theory Message_Text
  imports Protocol Log_Stream
begin

text \<open>
  Names and messages as text: the stream operators of \<^verbatim>\<open>src/core/ports/name.cc\<close> and the \<^verbatim>\<open>ToString\<close>
  functions of \<^verbatim>\<open>src/core/protocol.h\<close> and \<^verbatim>\<open>src/core/protocols/\<close>. A standard stream writes a name in
  hexadecimal, so that different names look different. A log stream has no manipulators: it takes
  \<^verbatim>\<open>&std::hex\<close> for a \<^verbatim>\<open>bool\<close>. The number formatting of a log stream is declared only and a
  parameter, \<open>num\<close>.
\<close>

section \<open>Numbers\<close>

definition ascii :: "string \<Rightarrow> bytes" where
  "ascii s = map of_char s"

fun digits_of :: "string \<Rightarrow> nat \<Rightarrow> nat \<Rightarrow> string" where
  "digits_of ds b n = (if n < b \<or> b < 2 then [ds ! n] else digits_of ds b (n div b) @ [ds ! (n mod b)])"

declare digits_of.simps [simp del]

definition hex_text :: "nat \<Rightarrow> string" where
  "hex_text = digits_of ''0123456789ABCDEF'' 16"

definition dec_text :: "nat \<Rightarrow> string" where
  "dec_text = digits_of ''0123456789'' 10"

lemma digits_of_chars: "1 < b \<Longrightarrow> b \<le> length ds \<Longrightarrow> set (digits_of ds b n) \<subseteq> set ds"
  by (induction ds b n rule: digits_of.induct)
  (subst digits_of.simps, auto intro!: nth_mem order_less_le_trans [OF mod_less_divisor])

lemma digits_of_inject:
  assumes "distinct ds" and "1 < b" and "b \<le> length ds" and "digits_of ds b m = digits_of ds b n"
  shows "m = n"
  using assms(4)
proof (induction m arbitrary: n rule: less_induct)
  case (less m)
  have len: "digits_of ds b k \<noteq> []" "[] \<noteq> digits_of ds b k" for k by (subst digits_of.simps, simp)+
  have nth: "ds ! i = ds ! j \<longleftrightarrow> i = j" if "i < b" "j < b" for i j
    using that assms(1,3) by (simp add: nth_eq_iff_index_eq)
  show ?case
  proof (cases "m < b \<or> n < b")
    case True
    then show ?thesis
      using less.prems len assms(2) nth
      by (auto simp: digits_of.simps [of ds b m] digits_of.simps [of ds b n] append_eq_Cons_conv split: if_splits)
  next
    case False
    with less.prems assms(2) have "digits_of ds b (m div b) = digits_of ds b (n div b)" "ds ! (m mod b) = ds ! (n mod b)"
      by (auto simp: digits_of.simps [of ds b m] digits_of.simps [of ds b n])
    moreover have "m div b < m" using False assms(2) by (intro div_less_dividend) simp_all
    ultimately have "m div b = n div b" "m mod b = n mod b" using less.IH nth assms(2) by simp_all
    then show ?thesis by (metis div_mult_mod_eq)
  qed
qed

section \<open>Names\<close>

fun show_name :: "name \<Rightarrow> string" where
  "show_name (Name v1 v2) = hex_text (unat v1) @ (if v2 \<noteq> 0 then ''.'' @ hex_text (unat v2) else [])"

lemma hex_text_dot: "CHR ''.'' \<notin> set (hex_text n)"
  using digits_of_chars [of 16 "''0123456789ABCDEF''" n] by (auto simp: hex_text_def)

lemma hex_text_inject [simp]: "hex_text m = hex_text n \<longleftrightarrow> m = n"
  using digits_of_inject [of "''0123456789ABCDEF''" 16 m n] by (auto simp: hex_text_def)

text \<open>Different names are printed differently.\<close>

lemma show_name_inject: "show_name x = show_name y \<longleftrightarrow> x = y"
proof
  assume eq: "show_name x = show_name y"
  obtain a b c d where xy: "x = Name a b" "y = Name c d" by (cases x, cases y)
  have cut: "takeWhile (\<lambda>ch. ch \<noteq> CHR ''.'') (show_name (Name p q)) = hex_text (unat p)"
    and rest: "dropWhile (\<lambda>ch. ch \<noteq> CHR ''.'') (show_name (Name p q)) = (if q \<noteq> 0 then ''.'' @ hex_text (unat q) else [])"
    for p q
  proof -
    let ?P = "\<lambda>ch. ch \<noteq> CHR ''.''" and ?h = "hex_text (unat p)"
    have no: "ch \<in> set ?h \<Longrightarrow> ?P ch" for ch using hex_text_dot [of "unat p"] by blast
    have "takeWhile ?P (?h @ ys) = ?h @ takeWhile ?P ys" "dropWhile ?P (?h @ ys) = dropWhile ?P ys" for ys
      by (rule takeWhile_append2 dropWhile_append2, erule no)+
    then show "takeWhile ?P (show_name (Name p q)) = ?h"
      and "dropWhile ?P (show_name (Name p q)) = (if q \<noteq> 0 then ''.'' @ hex_text (unat q) else [])"
      by simp_all
  qed
  have "hex_text (unat a) = hex_text (unat c)"
    using eq unfolding xy cut [of a b, symmetric] cut [of c d, symmetric] by (simp only:)
  moreover have "(if b \<noteq> 0 then ''.'' @ hex_text (unat b) else []) = (if d \<noteq> 0 then ''.'' @ hex_text (unat d) else [])"
    using eq unfolding xy rest [of a b, symmetric] rest [of c d, symmetric] by (simp only:)
  ultimately show "x = y" by (simp add: xy word_unat_eq_iff split: if_splits)
qed simp

text \<open>
  On a log stream the two manipulators are printed as \<^verbatim>\<open>1\<close> each, in front of the number.
\<close>

fun ls_name :: "(u64 \<Rightarrow> bytes) \<Rightarrow> name \<Rightarrow> fixed_buffer \<Rightarrow> fixed_buffer res" where
  "ls_name num (Name v1 v2) b =
     rbind (ls_bool True b) (\<lambda>b. rbind (ls_bool True b) (\<lambda>b. rbind (fb_append (num v1) b) (\<lambda>b.
       if v2 \<noteq> 0 then rbind (ls_char 46 b) (\<lambda>b. fb_append (num v2) b) else Inr b)))"

lemma ls_name_pieces:
  "ls_name num (Name v1 v2) b = append_all ([[49], [49], num v1] @ (if v2 \<noteq> 0 then [[46], num v2] else [])) b"
  by (simp add: ls_bool_def ls_char_def rbind_def split: sum.splits)

lemma logged_name:
  assumes "fb_wf b" and "fb_cur b + 3 + length (num v1) < length (fb_data b)"
  shows "\<exists>b'. ls_name num (Name v1 0) b = Inr b' \<and> fb_to_string b' = fb_to_string b @ [49, 49] @ num v1"
  unfolding ls_name_pieces
  using append_all_keeps [OF assms(1), of "[[49], [49], num v1]"] assms(2) by fastforce

section \<open>Messages\<close>

definition to_string_accept_invitation :: "name \<Rightarrow> name \<Rightarrow> bytes" where
  "to_string_accept_invitation token invitee =
     ascii (''[ port_name: '' @ show_name token @ ''invitee_name: '' @ show_name invitee @ '' ]'')"

definition to_string_accept_invitee :: "name \<Rightarrow> name \<Rightarrow> bytes" where
  "to_string_accept_invitee token inviter =
     ascii (''[ port_name: '' @ show_name token @ ''inviter_name_: '' @ show_name inviter @ '' ]'')"

definition to_string_accept_peer :: "name \<Rightarrow> name \<Rightarrow> name \<Rightarrow> bytes" where
  "to_string_accept_peer token peer port_nm =
     ascii (''[ port_name: '' @ show_name token @ ''peer_name_: '' @ show_name peer @ ''port_name_: '' @ show_name port_nm @ '' ]'')"

definition to_string_request_port_merge :: "name \<Rightarrow> bytes \<Rightarrow> bytes" where
  "to_string_request_port_merge connector pipe_name =
     ascii (''[ port_name_: '' @ show_name connector @ '' ]'' @ ''message pipe name: '') @ pipe_name"

definition to_string_response_port_merge :: "name \<Rightarrow> name \<Rightarrow> bytes" where
  "to_string_response_port_merge connector port_nm =
     ascii (''[ connector_port_name: '' @ show_name connector @ '' ]'' @ ''port_name: '' @ show_name port_nm)"

definition to_string_user_message :: "user_message \<Rightarrow> bytes" where
  "to_string_user_message m =
     ascii (''[ from_port_name: '' @ show_name (um_from_port_name m) @ ''[ to_port_name: '' @ show_name (um_to_port_name m)
       @ '' data='') @ um_data m @ ascii '']''"

text \<open>The one-byte fields of the envelope are characters to a stream.\<close>

definition to_string_protocol :: "protocol \<Rightarrow> bytes" where
  "to_string_protocol p =
     ascii ''[ magic='' @ [p_magic p] @ ascii '' version='' @ [p_version p] @ ascii '' type='' @ [p_type p]
       @ ascii ('' length='' @ dec_text (unat (p_content_length p))) @ ascii '' content='' @ p_data p @ ascii '' ]''"

end
