(* ===== verification/Locks.thy ===== *)
theory Locks
  imports Prelude
begin

text \<open>
  The mutex of \<^verbatim>\<open>src/base/mutex.h\<close> and its guard, under threads that interleave. The recursive
  pthread mutex is an owner and a count; \<^verbatim>\<open>holder_\<close> is the field the class adds. Locking is two
  steps, the pthread call and the assignment of the holder, and so is unlocking, in the other order.
  A failed pthread call aborts the program (\<^verbatim>\<open>MCHECK\<close>); its limit on nesting is taken as never
  reached. Memory is sequentially consistent.
\<close>

section \<open>The mutex\<close>

type_synonym pid = int

record mutex_lock =
  mx_owner :: "pid option"   \<comment> \<open>\<^verbatim>\<open>mutex_\<close>: the thread that has locked it\<close>
  mx_count :: nat            \<comment> \<open>and how many times\<close>
  mx_holder :: pid           \<comment> \<open>\<^verbatim>\<open>holder_\<close>\<close>

definition mutex_new :: mutex_lock where
  "mutex_new = \<lparr>mx_owner = None, mx_count = 0, mx_holder = 0\<rparr>"

text \<open>\<open>None\<close>: the call blocks, respectively fails with \<^verbatim>\<open>EPERM\<close>.\<close>

definition pthread_mutex_lock :: "pid \<Rightarrow> mutex_lock \<Rightarrow> mutex_lock option" where
  "pthread_mutex_lock t m =
     (case mx_owner m of
        None \<Rightarrow> Some (m\<lparr>mx_owner := Some t, mx_count := 1\<rparr>)
      | Some u \<Rightarrow> if u = t then Some (m\<lparr>mx_count := Suc (mx_count m)\<rparr>) else None)"

definition pthread_mutex_unlock :: "pid \<Rightarrow> mutex_lock \<Rightarrow> mutex_lock option" where
  "pthread_mutex_unlock t m =
     (if mx_owner m \<noteq> Some t then None
      else if mx_count m \<le> 1 then Some (m\<lparr>mx_owner := None, mx_count := 0\<rparr>)
      else Some (m\<lparr>mx_count := mx_count m - 1\<rparr>))"

definition assign_holder :: "pid \<Rightarrow> mutex_lock \<Rightarrow> mutex_lock" where
  "assign_holder t m = m\<lparr>mx_holder := t\<rparr>"

definition unassign_holder :: "mutex_lock \<Rightarrow> mutex_lock" where
  "unassign_holder m = m\<lparr>mx_holder := 0\<rparr>"

definition is_locked_by_this_thread :: "pid \<Rightarrow> mutex_lock \<Rightarrow> bool" where
  "is_locked_by_this_thread t m \<longleftrightarrow> mx_holder m = t"

text \<open>A destructor that finds the mutex held fails an assertion or a check.\<close>

definition mutex_destroy :: "mutex_lock \<Rightarrow> bool" where
  "mutex_destroy m \<longleftrightarrow> mx_holder m = 0 \<and> mx_owner m = None"

section \<open>Threads with guards\<close>

text \<open>
  A thread holds a number of live guards and is outside the calls of \<^verbatim>\<open>Lock\<close> and \<^verbatim>\<open>UnLock\<close>, or between
  the two steps of one. Guards are local variables: only a thread's own guards unlock.
\<close>

datatype phase = Running | Entering | Leaving

record lock_system =
  ls_mutex :: mutex_lock
  ls_guards :: "pid \<Rightarrow> nat"
  ls_phase :: "pid \<Rightarrow> phase"
  ls_aborted :: bool

definition lock_system_new :: lock_system where
  "lock_system_new = \<lparr>ls_mutex = mutex_new, ls_guards = \<lambda>_. 0, ls_phase = \<lambda>_. Running, ls_aborted = False\<rparr>"

inductive guard_step :: "pid \<Rightarrow> lock_system \<Rightarrow> lock_system \<Rightarrow> bool" where
  gs_lock: "0 < t \<Longrightarrow> ls_phase s t = Running \<Longrightarrow> pthread_mutex_lock t (ls_mutex s) = Some m
    \<Longrightarrow> guard_step t s (s\<lparr>ls_mutex := m, ls_phase := (ls_phase s)(t := Entering)\<rparr>)"
| gs_assign: "ls_phase s t = Entering
    \<Longrightarrow> guard_step t s (s\<lparr>ls_mutex := assign_holder t (ls_mutex s), ls_phase := (ls_phase s)(t := Running),
          ls_guards := (ls_guards s)(t := Suc (ls_guards s t))\<rparr>)"
| gs_unassign: "ls_phase s t = Running \<Longrightarrow> 0 < ls_guards s t
    \<Longrightarrow> guard_step t s (s\<lparr>ls_mutex := unassign_holder (ls_mutex s), ls_phase := (ls_phase s)(t := Leaving),
          ls_guards := (ls_guards s)(t := ls_guards s t - 1)\<rparr>)"
| gs_unlock: "ls_phase s t = Leaving \<Longrightarrow> pthread_mutex_unlock t (ls_mutex s) = Some m
    \<Longrightarrow> guard_step t s (s\<lparr>ls_mutex := m, ls_phase := (ls_phase s)(t := Running)\<rparr>)"
| gs_abort: "ls_phase s t = Leaving \<Longrightarrow> pthread_mutex_unlock t (ls_mutex s) = None
    \<Longrightarrow> guard_step t s (s\<lparr>ls_aborted := True\<rparr>)"

inductive guard_reach :: "lock_system \<Rightarrow> bool" where
  gr_new: "guard_reach lock_system_new"
| gr_step: "guard_reach s \<Longrightarrow> guard_step t s s' \<Longrightarrow> guard_reach s'"

definition inside :: "lock_system \<Rightarrow> pid \<Rightarrow> bool" where
  "inside s t \<longleftrightarrow> 0 < ls_guards s t \<or> ls_phase s t \<noteq> Running"

section \<open>The invariant\<close>

definition depth :: "lock_system \<Rightarrow> pid \<Rightarrow> nat" where
  "depth s t = ls_guards s t + (if ls_phase s t = Running then 0 else 1)"

definition lock_inv :: "lock_system \<Rightarrow> bool" where
  "lock_inv s \<longleftrightarrow>
     (\<forall>t. depth s t = (if mx_owner (ls_mutex s) = Some t then mx_count (ls_mutex s) else 0))
   \<and> (\<forall>t. mx_owner (ls_mutex s) = Some t \<longrightarrow> 0 < t \<and> 0 < mx_count (ls_mutex s))
   \<and> (mx_holder (ls_mutex s) \<noteq> 0 \<longrightarrow> mx_owner (ls_mutex s) = Some (mx_holder (ls_mutex s)))
   \<and> (\<forall>t. ls_phase s t = Leaving \<longrightarrow> mx_holder (ls_mutex s) = 0)
   \<and> \<not> ls_aborted s"

lemma inside_depth: "inside s t \<longleftrightarrow> 0 < depth s t"
  by (auto simp: inside_def depth_def)

lemma depth_sel:
  "depth (s\<lparr>ls_mutex := m, ls_phase := p\<rparr>) t = ls_guards s t + (if p t = Running then 0 else 1)"
  "depth (s\<lparr>ls_mutex := m, ls_phase := p, ls_guards := g\<rparr>) t = g t + (if p t = Running then 0 else 1)"
  by (simp_all add: depth_def)

lemmas mutex_ops = pthread_mutex_lock_def pthread_mutex_unlock_def assign_holder_def unassign_holder_def

lemma lock_inv_new: "lock_inv lock_system_new"
  by (simp add: lock_inv_def lock_system_new_def mutex_new_def depth_def)

lemma lock_inv_owner: "lock_inv s \<Longrightarrow> inside s t \<longleftrightarrow> mx_owner (ls_mutex s) = Some t"
  by (simp add: lock_inv_def inside_depth)

lemma lock_inv_inside:
  assumes "lock_inv s" and "inside s t"
  shows "mx_owner (ls_mutex s) = Some t" "mx_count (ls_mutex s) = depth s t" "0 < depth s t" "0 < t"
    "mx_holder (ls_mutex s) = 0 \<or> mx_holder (ls_mutex s) = t" "\<not> ls_aborted s"
  using assms lock_inv_owner [OF assms(1), of t] by (auto simp: lock_inv_def inside_depth)

lemma lock_inv_free:
  assumes "lock_inv s" and "mx_owner (ls_mutex s) = None"
  shows "depth s t = 0" "mx_holder (ls_mutex s) = 0" "\<not> ls_aborted s"
  using assms by (auto simp: lock_inv_def)

text \<open>A step of a thread changes nobody else's depth, and the mutex counts the owner's.\<close>

lemma lock_invI:
  assumes "lock_inv s" and "\<And>u. u \<noteq> t \<Longrightarrow> depth s' u = depth s u \<and> (ls_phase s' u = ls_phase s u)"
    and "depth s' t = 0 \<and> mx_owner (ls_mutex s') = None
      \<or> depth s' t = mx_count (ls_mutex s') \<and> 0 < depth s' t \<and> mx_owner (ls_mutex s') = Some t"
    and "mx_owner (ls_mutex s) = None \<or> mx_owner (ls_mutex s) = Some t" and "0 < t"
    and "mx_holder (ls_mutex s') = 0 \<or> mx_holder (ls_mutex s') = t \<and> 0 < depth s' t \<and> ls_phase s' t \<noteq> Leaving"
    and "\<not> ls_aborted s'"
  shows "lock_inv s'"
proof -
  have other: "depth s' u = 0 \<and> ls_phase s' u \<noteq> Leaving" if "u \<noteq> t" for u
  proof -
    have "depth s u = 0" using assms(1,4) that by (auto simp: lock_inv_def)
    then have "ls_phase s u \<noteq> Leaving" by (auto simp: depth_def)
    with \<open>depth s u = 0\<close> assms(2) [OF that] show ?thesis by simp
  qed
  show ?thesis
    unfolding lock_inv_def
  proof (intro conjI allI impI)
    fix u
    show "depth s' u = (if mx_owner (ls_mutex s') = Some u then mx_count (ls_mutex s') else 0)"
      using assms(3) other [of u] by (cases "u = t") auto
    show "ls_phase s' u = Leaving \<Longrightarrow> mx_holder (ls_mutex s') = 0"
      using assms(6) other [of u] by (cases "u = t") auto
    show "mx_owner (ls_mutex s') = Some u \<Longrightarrow> 0 < u" "mx_owner (ls_mutex s') = Some u \<Longrightarrow> 0 < mx_count (ls_mutex s')"
      using assms(3,5) by auto
  qed (use assms(3,6,7) in auto)
qed

lemma lock_inv_step:
  assumes "lock_inv s" and "guard_step t s s'"
  shows "lock_inv s'"
  using assms(2)
proof cases
  case (gs_lock m)
  show ?thesis
  proof (cases "mx_owner (ls_mutex s)")
    case None
    with gs_lock show ?thesis
      using lock_inv_free(1) [OF assms(1) None, of t] lock_inv_free(2,3) [OF assms(1) None]
      by (intro lock_invI [OF assms(1)]) (auto simp: mutex_ops depth_def)
  next
    case (Some u)
    with gs_lock have "u = t" by (auto simp: mutex_ops split: if_splits)
    with Some have "inside s t" using lock_inv_owner [OF assms(1)] by simp
    from lock_inv_inside [OF assms(1) this] gs_lock show ?thesis
      by (intro lock_invI [OF assms(1)]) (auto simp: mutex_ops depth_def)
  qed
next
  case gs_assign
  then have "inside s t" by (simp add: inside_def)
  from lock_inv_inside [OF assms(1) this] gs_assign show ?thesis
    by (intro lock_invI [OF assms(1)]) (auto simp: mutex_ops depth_def)
next
  case gs_unassign
  then have "inside s t" by (simp add: inside_def)
  from lock_inv_inside [OF assms(1) this] gs_unassign show ?thesis
    by (intro lock_invI [OF assms(1)]) (auto simp: mutex_ops depth_def)
next
  case (gs_unlock m)
  then have "inside s t" by (simp add: inside_def)
  moreover have "mx_holder (ls_mutex s) = 0" using gs_unlock(2) assms(1) unfolding lock_inv_def by blast
  ultimately show ?thesis
    using lock_inv_inside [OF assms(1)] gs_unlock
    by (intro lock_invI [OF assms(1)]) (auto simp: mutex_ops depth_def split: if_splits)
next
  case gs_abort
  then have "inside s t" by (simp add: inside_def)
  from lock_inv_inside(1) [OF assms(1) this] gs_abort show ?thesis by (simp add: mutex_ops split: if_splits)
qed

lemma guard_reach_inv: "guard_reach s \<Longrightarrow> lock_inv s"
  by (induction rule: guard_reach.induct) (auto intro: lock_inv_new lock_inv_step)

text \<open>A thread that is inside is never blocked.\<close>

lemma inside_steps:
  assumes "guard_reach s" and "inside s t"
  shows "\<exists>s'. guard_step t s s'"
proof (cases "ls_phase s t")
  case Running
  with assms(2) have "0 < ls_guards s t" by (simp add: inside_def)
  from gs_unassign [OF Running this] show ?thesis by blast
next
  case Entering
  from gs_assign [OF this] show ?thesis by blast
next
  case Leaving
  from gs_unlock [OF this] gs_abort [OF this] show ?thesis by (cases "pthread_mutex_unlock t (ls_mutex s)") blast+
qed

section \<open>Properties\<close>

text \<open>
  C27: However the threads interleave, at most one of them is inside, from the first step of its outermost
  guard to the last; no pthread call fails; a thread that \<^verbatim>\<open>IsLockedByThisThread\<close> confirms is inside; the
  thread that is inside is never blocked, whatever the nesting of its guards; and when none is, the
  mutex can be locked by any thread, or destroyed.
\<close>

theorem mutex_guards_exclude:
  assumes "guard_reach s"
  shows "(\<forall>t u. inside s t \<and> inside s u \<longrightarrow> t = u)
    \<and> \<not> ls_aborted s
    \<and> (\<forall>t. 0 < t \<and> is_locked_by_this_thread t (ls_mutex s) \<longrightarrow> inside s t)
    \<and> (\<forall>t. inside s t \<longrightarrow> (\<exists>s'. guard_step t s s'))
    \<and> ((\<forall>t. \<not> inside s t) \<longrightarrow> mutex_destroy (ls_mutex s)
        \<and> (\<forall>t. 0 < t \<longrightarrow> (\<exists>s'. guard_step t s s' \<and> inside s' t)))"
proof -
  note inv = guard_reach_inv [OF assms]
  note own = lock_inv_owner [OF inv]
  have held: "mx_holder (ls_mutex s) \<noteq> 0 \<longrightarrow> mx_owner (ls_mutex s) = Some (mx_holder (ls_mutex s))"
    using inv by (simp add: lock_inv_def)
  have "mutex_destroy (ls_mutex s) \<and> (\<forall>t. 0 < t \<longrightarrow> (\<exists>s'. guard_step t s s' \<and> inside s' t))" if none: "\<forall>t. \<not> inside s t"
  proof (intro conjI allI impI)
    have free: "mx_owner (ls_mutex s) = None" using none own by (cases "mx_owner (ls_mutex s)") auto
    then show "mutex_destroy (ls_mutex s)" using held by (auto simp: mutex_destroy_def)
    fix t :: pid
    assume "0 < t"
    moreover have "ls_phase s t = Running" using none by (simp add: inside_def)
    moreover have "\<exists>m. pthread_mutex_lock t (ls_mutex s) = Some m" using free by (simp add: pthread_mutex_lock_def)
    ultimately show "\<exists>s'. guard_step t s s' \<and> inside s' t" by (auto simp: inside_def dest!: gs_lock)
  qed
  then show ?thesis
    using own held lock_inv_def [of s] inv inside_steps [OF assms] by (auto simp: is_locked_by_this_thread_def)
qed

theorem mutex_guards_exclude_witness:
  "mutex_destroy mutex_new \<and> (\<exists>s. guard_step 7 lock_system_new s \<and> inside s 7)"
  using mutex_guards_exclude [OF gr_new] by (auto simp: lock_system_new_def inside_def)

text \<open>
  C35: The holder is exact only without nesting. A thread that has taken the mutex is confirmed as its holder, but
  when it holds two guards or more and the innermost is destroyed, \<^verbatim>\<open>IsLockedByThisThread\<close> denies
  it (and \<^verbatim>\<open>AssertLocked\<close> aborts) although the mutex is still locked by it and blocks every other thread.
\<close>

theorem nested_guard_loses_holder:
  assumes "guard_reach s" and "inside s t"
  shows "(ls_phase s t = Entering \<longrightarrow> (\<exists>s1. guard_step t s s1 \<and> is_locked_by_this_thread t (ls_mutex s1)))
    \<and> (ls_phase s t = Running \<and> 2 \<le> ls_guards s t \<longrightarrow>
        (\<exists>s1 s2. guard_step t s s1 \<and> guard_step t s1 s2 \<and> ls_phase s2 t = Running \<and> inside s2 t
          \<and> \<not> is_locked_by_this_thread t (ls_mutex s2)
          \<and> (\<forall>u. u \<noteq> t \<longrightarrow> pthread_mutex_lock u (ls_mutex s2) = None)))"
proof (intro conjI impI)
  assume "ls_phase s t = Entering"
  from gs_assign [OF this] show "\<exists>s1. guard_step t s s1 \<and> is_locked_by_this_thread t (ls_mutex s1)"
    by (fastforce simp: is_locked_by_this_thread_def assign_holder_def)
next
  assume two: "ls_phase s t = Running \<and> 2 \<le> ls_guards s t"
  note ins = lock_inv_inside [OF guard_reach_inv [OF assms(1)] assms(2)]
  let ?m = "ls_mutex s"
  let ?s1 = "s\<lparr>ls_mutex := unassign_holder ?m, ls_phase := (ls_phase s)(t := Leaving),
      ls_guards := (ls_guards s)(t := ls_guards s t - 1)\<rparr>"
  let ?m2 = "(unassign_holder ?m)\<lparr>mx_count := mx_count ?m - 1\<rparr>"
  let ?s2 = "?s1\<lparr>ls_mutex := ?m2, ls_phase := (ls_phase ?s1)(t := Running)\<rparr>"
  have "guard_step t s ?s1" using two by (intro gs_unassign) simp_all
  moreover have "guard_step t ?s1 ?s2"
    using two ins(1,2) by (intro gs_unlock) (simp_all add: pthread_mutex_unlock_def unassign_holder_def depth_def)
  moreover have "inside ?s2 t" using two by (simp add: inside_def)
  moreover have "\<not> is_locked_by_this_thread t (ls_mutex ?s2)"
    using ins(4) by (simp add: is_locked_by_this_thread_def unassign_holder_def)
  moreover have "\<forall>u. u \<noteq> t \<longrightarrow> pthread_mutex_lock u (ls_mutex ?s2) = None"
    using ins(1) by (simp add: pthread_mutex_lock_def unassign_holder_def)
  ultimately show "\<exists>s1 s2. guard_step t s s1 \<and> guard_step t s1 s2 \<and> ls_phase s2 t = Running \<and> inside s2 t
      \<and> \<not> is_locked_by_this_thread t (ls_mutex s2) \<and> (\<forall>u. u \<noteq> t \<longrightarrow> pthread_mutex_lock u (ls_mutex s2) = None)"
    by (intro exI [of _ ?s1] exI [of _ ?s2]) simp
qed

text \<open>One thread under two guards, for the witness.\<close>

definition two_guards :: lock_system where
  "two_guards = \<lparr>ls_mutex = \<lparr>mx_owner = Some 7, mx_count = 2, mx_holder = 7\<rparr>,
     ls_guards = (\<lambda>_. 0)(7 := 2), ls_phase = (\<lambda>_. Running), ls_aborted = False\<rparr>"

lemma take_guard:
  assumes "guard_reach s" and "0 < t" and "ls_phase s t = Running" and "pthread_mutex_lock t (ls_mutex s) = Some m"
  shows "guard_reach (s\<lparr>ls_mutex := assign_holder t m, ls_guards := (ls_guards s)(t := Suc (ls_guards s t))\<rparr>)"
proof -
  let ?s1 = "s\<lparr>ls_mutex := m, ls_phase := (ls_phase s)(t := Entering)\<rparr>"
  have "guard_reach ?s1" by (rule gr_step [OF assms(1) gs_lock [OF assms(2-4)]])
  from gr_step [OF this gs_assign [of ?s1 t]] show ?thesis
    using assms(3) by (simp add: fun_upd_idem)
qed

lemma reach_two_guards: "guard_reach two_guards"
proof -
  have "guard_reach (lock_system_new\<lparr>ls_mutex := \<lparr>mx_owner = Some 7, mx_count = 1, mx_holder = 7\<rparr>, ls_guards := (\<lambda>_. 0)(7 := 1)\<rparr>)"
    using take_guard [OF gr_new, of 7] by (simp add: lock_system_new_def mutex_new_def mutex_ops)
  from take_guard [OF this, of 7] show ?thesis
    by (simp add: lock_system_new_def mutex_new_def mutex_ops two_guards_def numeral_2_eq_2)
qed

theorem nested_guard_loses_holder_witness:
  "\<exists>s1 s2. guard_step 7 two_guards s1 \<and> guard_step 7 s1 s2 \<and> inside s2 7 \<and> \<not> is_locked_by_this_thread 7 (ls_mutex s2)"
proof -
  have two: "inside two_guards 7" "ls_phase two_guards 7 = Running \<and> 2 \<le> ls_guards two_guards 7"
    by (simp_all add: two_guards_def inside_def)
  from nested_guard_loses_holder [OF reach_two_guards two(1)] two(2) show ?thesis by blast
qed

end
