(* ===== verification/Base_Objects.thy ===== *)
theory Base_Objects
  imports Locks
begin

text \<open>
  The small shared objects of \<^verbatim>\<open>src/base/\<close>: the atomic counter (\<^verbatim>\<open>atomic_int.h\<close>), the lazily created
  singletons, one per process (\<^verbatim>\<open>singleton.h\<close>) and one per thread (\<^verbatim>\<open>thread_local_singleton.h\<close>), and
  the command line, the start and the arguments of a process (\<^verbatim>\<open>process.h\<close>), and the limits of the integer types
  (\<^verbatim>\<open>def.h\<close>). An atomic operation is one step, so calls of several
  threads are the calls in some order; an object is named by a number, the next one unused.
\<close>

section \<open>Atomic integers\<close>

text \<open>Each operation maps the value to its result and the new value.\<close>

definition atomic_new :: "'w::len word" where
  "atomic_new = 0"

definition atomic_get :: "'w::len word \<Rightarrow> 'w word \<times> 'w word" where
  "atomic_get v = (v, if v = 0 then 0 else v)"

definition get_and_add :: "'w::len word \<Rightarrow> 'w word \<Rightarrow> 'w word \<times> 'w word" where
  "get_and_add x v = (v, v + x)"

definition add_and_get :: "'w::len word \<Rightarrow> 'w word \<Rightarrow> 'w word \<times> 'w word" where
  "add_and_get x v = (let (r, v1) = get_and_add x v in (r + x, v1))"

definition increment_and_get :: "'w::len word \<Rightarrow> 'w word \<times> 'w word" where
  "increment_and_get v = add_and_get 1 v"

definition decrement_and_get :: "'w::len word \<Rightarrow> 'w word \<times> 'w word" where
  "decrement_and_get v = add_and_get (- 1) v"

definition atomic_add :: "'w::len word \<Rightarrow> 'w word \<Rightarrow> 'w word" where
  "atomic_add x v = snd (get_and_add x v)"

definition atomic_increment :: "'w::len word \<Rightarrow> 'w word" where
  "atomic_increment v = snd (increment_and_get v)"

definition atomic_decrement :: "'w::len word \<Rightarrow> 'w word" where
  "atomic_decrement v = snd (decrement_and_get v)"

definition get_and_set :: "'w::len word \<Rightarrow> 'w word \<Rightarrow> 'w word \<times> 'w word" where
  "get_and_set x v = (v, x)"

text \<open>\<^verbatim>\<open>Thread::NumCreated\<close> increments the counter it reports.\<close>

definition num_created :: "32 word \<Rightarrow> 32 word \<times> 32 word" where
  "num_created v = increment_and_get v"

fun add_all :: "'w::len word list \<Rightarrow> 'w word \<Rightarrow> 'w word list \<times> 'w word" where
  "add_all [] v = ([], v)"
| "add_all (x # xs) v = (let (r, v1) = add_and_get x v; (rs, v2) = add_all xs v1 in (r # rs, v2))"

text \<open>Whatever is added, the results are the partial sums and the value is the sum.\<close>

lemma add_all_sums:
  "add_all xs v = (map (\<lambda>i. v + sum_list (take (Suc i) xs)) [0..<length xs], v + sum_list xs)"
proof (induction xs arbitrary: v)
  case (Cons x xs)
  then show ?case
    by (simp add: add_and_get_def get_and_add_def map_upt_Suc ac_simps del: upt_Suc)
qed simp

text \<open>No two of fewer than \<open>2 ^ w\<close> increments have the same result.\<close>

lemma increments_distinct:
  assumes "n < 2 ^ LENGTH('w)"
  shows "distinct (fst (add_all (replicate n (1 :: 'w::len word)) v))"
proof -
  have "inj_on (\<lambda>i. v + word_of_nat (Suc i)) {0..<n}"
  proof (rule inj_onI)
    fix i j
    assume "i \<in> {0..<n}" "j \<in> {0..<n}" and eq: "v + (word_of_nat (Suc i) :: 'w word) = v + word_of_nat (Suc j)"
    then have "Suc i < 2 ^ LENGTH('w)" "Suc j < 2 ^ LENGTH('w)" using assms by auto
    moreover have "unat (word_of_nat (Suc i) :: 'w word) = unat (word_of_nat (Suc j) :: 'w word)"
      using eq by (simp only: add_left_cancel)
    ultimately show "i = j" by (simp add: unat_of_nat take_bit_nat_eq_self del: of_nat_Suc)
  qed
  moreover have "fst (add_all (replicate n 1) v) = map (\<lambda>i. v + word_of_nat (Suc i)) [0..<n]"
    by (auto simp: add_all_sums sum_list_replicate min_absorb1 intro!: map_cong)
  ultimately show ?thesis by (simp add: distinct_map del: of_nat_Suc)
qed

section \<open>A singleton\<close>

record singleton =
  sg_once :: bool              \<comment> \<open>\<^verbatim>\<open>ponce_\<close> has run\<close>
  sg_value :: "nat option"     \<comment> \<open>\<^verbatim>\<open>value_\<close>\<close>
  sg_next :: nat               \<comment> \<open>the next new object\<close>
  sg_atexit :: nat             \<comment> \<open>how often \<^verbatim>\<open>destroy\<close> is registered\<close>

definition singleton_new :: singleton where
  "singleton_new = \<lparr>sg_once = False, sg_value = None, sg_next = 0, sg_atexit = 0\<rparr>"

definition singleton_init :: "bool \<Rightarrow> singleton \<Rightarrow> singleton" where
  "singleton_init has_no_destroy s =
     (let s1 = s\<lparr>sg_value := Some (sg_next s), sg_next := Suc (sg_next s)\<rparr>
      in if has_no_destroy then s1 else s1\<lparr>sg_atexit := Suc (sg_atexit s1)\<rparr>)"

text \<open>The assertion of \<^verbatim>\<open>instance\<close>, or the dereference after it, fails on a null pointer.\<close>

definition singleton_instance :: "bool \<Rightarrow> singleton \<Rightarrow> (nat \<times> singleton) res" where
  "singleton_instance has_no_destroy s =
     (let s1 = (if sg_once s then s else (singleton_init has_no_destroy s)\<lparr>sg_once := True\<rparr>)
      in case sg_value s1 of None \<Rightarrow> Inl NullDeref | Some p \<Rightarrow> Inr (p, s1))"

definition singleton_destroy :: "singleton \<Rightarrow> singleton" where
  "singleton_destroy s = s\<lparr>sg_value := None\<rparr>"

text \<open>
  One object for ever: every call returns the first one, whose destruction is registered once; after
  that has run, every call faults.
\<close>

lemma singleton_once:
  assumes "singleton_instance nd singleton_new = Inr (p, s)"
  shows "singleton_instance nd s = Inr (p, s)" and "sg_atexit s = (if nd then 0 else 1)" and "sg_next s = 1"
    and "singleton_instance nd (singleton_destroy s) = Inl NullDeref"
  using assms by (cases nd; auto simp: singleton_instance_def singleton_init_def singleton_new_def singleton_destroy_def Let_def)+

section \<open>A singleton for each thread\<close>

record tls_singleton =
  tl_value :: "pid \<Rightarrow> nat option"   \<comment> \<open>\<^verbatim>\<open>t_value_\<close> of each thread\<close>
  tl_key :: "pid \<Rightarrow> nat option"     \<comment> \<open>\<^verbatim>\<open>pthread_getspecific(deleter_.pkey_)\<close> of each thread\<close>
  tl_next :: nat

definition tls_new :: tls_singleton where
  "tls_new = \<lparr>tl_value = (\<lambda>_. None), tl_key = (\<lambda>_. None), tl_next = 0\<rparr>"

definition deleter_set :: "pid \<Rightarrow> nat \<Rightarrow> tls_singleton \<Rightarrow> tls_singleton option" where
  "deleter_set t p s = (if tl_key s t \<noteq> None then None else Some (s\<lparr>tl_key := (tl_key s)(t := Some p)\<rparr>))"

definition tls_instance :: "pid \<Rightarrow> tls_singleton \<Rightarrow> (nat \<times> tls_singleton) option" where
  "tls_instance t s =
     (case tl_value s t of
        Some p \<Rightarrow> Some (p, s)
      | None \<Rightarrow>
          let p = tl_next s
          in map_option (\<lambda>s1. (p, s1))
               (deleter_set t p (s\<lparr>tl_value := (tl_value s)(t := Some p), tl_next := Suc p\<rparr>)))"

definition tls_pointer :: "pid \<Rightarrow> tls_singleton \<Rightarrow> nat option" where
  "tls_pointer t s = tl_value s t"

text \<open>
  When a thread ends, the key of the thread is cleared and the destructor called with what it was.
  \<open>None\<close> is a failed assertion.
\<close>

definition tls_destructor :: "pid \<Rightarrow> nat \<Rightarrow> tls_singleton \<Rightarrow> tls_singleton option" where
  "tls_destructor t obj s =
     (if tl_value s t \<noteq> Some obj then None else Some (s\<lparr>tl_value := (tl_value s)(t := None)\<rparr>))"

definition thread_exit :: "pid \<Rightarrow> tls_singleton \<Rightarrow> tls_singleton option" where
  "thread_exit t s =
     (case tl_key s t of
        None \<Rightarrow> Some s
      | Some obj \<Rightarrow> tls_destructor t obj (s\<lparr>tl_key := (tl_key s)(t := None)\<rparr>))"

inductive tls_reach :: "tls_singleton \<Rightarrow> bool" where
  tr_new: "tls_reach tls_new"
| tr_instance: "tls_reach s \<Longrightarrow> tls_instance t s = Some (p, s') \<Longrightarrow> tls_reach s'"
| tr_exit: "tls_reach s \<Longrightarrow> thread_exit t s = Some s' \<Longrightarrow> tls_reach s'"

definition tls_inv :: "tls_singleton \<Rightarrow> bool" where
  "tls_inv s \<longleftrightarrow> tl_key s = tl_value s \<and> (\<forall>t p. tl_value s t = Some p \<longrightarrow> p < tl_next s)
     \<and> (\<forall>t u p. tl_value s t = Some p \<and> tl_value s u = Some p \<longrightarrow> t = u)"

lemma tls_next_unused: "tls_inv s \<Longrightarrow> tl_value s u \<noteq> Some (tl_next s)"
  by (auto simp: tls_inv_def)

lemma tls_reach_inv: "tls_reach s \<Longrightarrow> tls_inv s"
proof (induction rule: tls_reach.induct)
  case (tr_instance s t p s')
  then show ?case
    using tls_next_unused [of s]
    by (cases "tl_value s t")
      (auto simp: tls_inv_def tls_instance_def deleter_set_def Let_def less_Suc_eq dest: less_irrefl_nat split: if_splits)
next
  case (tr_exit s t s')
  then show ?case
    by (auto simp: tls_inv_def thread_exit_def tls_destructor_def split: option.splits if_splits)
qed (simp add: tls_inv_def tls_new_def)

text \<open>No assertion fails, each thread has its own object, and gets a new one only after its end.\<close>

lemma tls_singletons_apart:
  assumes "tls_reach s"
  shows "\<exists>p s'. tls_instance t s = Some (p, s') \<and> tls_instance t s' = Some (p, s')
    \<and> (\<forall>u. u \<noteq> t \<longrightarrow> tls_pointer u s' = tls_pointer u s \<and> tls_pointer u s' \<noteq> Some p)"
    and "\<exists>s'. thread_exit t s = Some s' \<and> tls_pointer t s' = None"
  using tls_reach_inv [OF assms] tls_next_unused [OF tls_reach_inv [OF assms]]
  by (cases "tl_value s t";
      auto simp: tls_inv_def tls_instance_def deleter_set_def Let_def tls_pointer_def thread_exit_def tls_destructor_def)+

section \<open>The command line\<close>

definition process_init :: "bytes list \<Rightarrow> bytes \<Rightarrow> bytes" where
  "process_init argv command_line = fold (\<lambda>arg line. (line @ arg) @ [32]) argv command_line"

lemma process_init_eq: "process_init argv line = line @ concat (map (\<lambda>arg. arg @ [32]) argv)"
  by (induction argv arbitrary: line) (simp_all add: process_init_def)

section \<open>Starting a process\<close>

text \<open>
  What \<^verbatim>\<open>LaunchProcess\<close> is in each of the two processes: the caller has a new \<^verbatim>\<open>Process\<close> object with an empty
  command line; the child has become another program or has ended. The result of \<^verbatim>\<open>fork\<close> and whether \<^verbatim>\<open>execvp\<close>
  succeeds are arguments.
\<close>

datatype launched = Launched bytes | Replaced bytes "bytes list" "bytes \<rightharpoonup> bytes" | Exited int

definition PATH :: bytes where
  "PATH = [80, 65, 84, 72]"

definition launch_process :: "int \<Rightarrow> bool \<Rightarrow> bytes \<Rightarrow> bytes list \<Rightarrow> (bytes \<rightharpoonup> bytes) \<Rightarrow> launched" where
  "launch_process pid execs dir argument_list env =
     (if pid = 0 then
        (let env1 = env(PATH \<mapsto> dir)
         in if execs then Replaced (hd argument_list) argument_list env1 else Exited 127)
      else Launched [])"

text \<open>A failed \<^verbatim>\<open>fork\<close> looks to the caller like a child that runs.\<close>

lemma launch_failure_unseen: "0 < pid \<Longrightarrow> launch_process (- 1) execs dir args env = launch_process pid execs' dir args env"
  by (simp add: launch_process_def)

section \<open>Values of arguments\<close>

text \<open>
  \<^verbatim>\<open>_ArgValueParser\<close> is not in the repository: \<open>parse\<close>. \<^verbatim>\<open>atoi\<close> skips white space, takes a sign and the digits that
  follow (the number is taken to fit an \<^verbatim>\<open>int\<close>). \<^verbatim>\<open>INTMAX_MAX\<close> is converted to \<^verbatim>\<open>int\<close>, modulo two to the 32.
\<close>

fun atoi_digits :: "int \<Rightarrow> bytes \<Rightarrow> int" where
  "atoi_digits n [] = n"
| "atoi_digits n (b # bs) = (if 48 \<le> b \<and> b \<le> 57 then atoi_digits (10 * n + (uint b - 48)) bs else n)"

fun atoi :: "bytes \<Rightarrow> int" where
  "atoi [] = 0"
| "atoi (b # bs) =
     (if b = 32 \<or> 9 \<le> b \<and> b \<le> 13 then atoi bs
      else if b = 45 then - atoi_digits 0 bs
      else if b = 43 then atoi_digits 0 bs
      else atoi_digits 0 (b # bs))"

definition INTMAX_MAX :: int where
  "INTMAX_MAX = 2 ^ 63 - 1"

definition arg_value_string :: "(bytes \<Rightarrow> bytes) \<Rightarrow> bytes \<Rightarrow> bytes" where
  "arg_value_string parse arg = (let v = parse arg in if v = [] then [] else v)"

definition arg_value_int :: "(bytes \<Rightarrow> bytes) \<Rightarrow> bytes \<Rightarrow> int" where
  "arg_value_int parse arg =
     (let v = parse arg in if v = [] then sint (of_int INTMAX_MAX :: u32) else atoi v)"

text \<open>A missing argument is read as \<open>- 1\<close>, as the argument \<^verbatim>\<open>-1\<close> is.\<close>

lemma missing_argument: "parse arg = [] \<Longrightarrow> parse arg' = [45, 49] \<Longrightarrow> arg_value_int parse arg = arg_value_int parse arg'"
  by (simp add: arg_value_int_def INTMAX_MAX_def)

section \<open>Limits\<close>

text \<open>The limits of \<^verbatim>\<open>def.h\<close>, at each width.\<close>

definition max_uint :: "'w::len word" where
  "max_uint = not 0"

definition max_int :: "'w::len word" where
  "max_int = drop_bit 1 max_uint"

definition min_int :: "'w::len word" where
  "min_int = not max_int"

lemma unsigned_limit: "x \<le> (max_uint :: 'w::len word)"
  by (simp add: max_uint_def)

lemma bit_max_int: "bit (max_int :: 'w::len word) n \<longleftrightarrow> Suc n < LENGTH('w)"
  by (auto simp: max_int_def max_uint_def bit_simps)

lemma signed_limits: "sint x \<le> sint (max_int :: 'w::len word)" "sint (min_int :: 'w word) \<le> sint (x :: 'w word)"
proof -
  have max: "sint (max_int :: 'w word) = 2 ^ (LENGTH('w) - 1) - 1"
  proof -
    have "sint (max_int :: 'w word) = mask (LENGTH('w) - 1)"
      by (rule bit_eqI) (auto simp: bit_max_int bit_simps)
    then show ?thesis by (simp add: mask_eq_exp_minus_1)
  qed
  moreover have "sint (min_int :: 'w word) = not (sint (max_int :: 'w word))"
    by (rule bit_eqI) (auto simp: min_int_def bit_sint_iff bit_max_int bit_not_iff dest: bit_imp_le_length)
  ultimately show "sint x \<le> sint (max_int :: 'w word)" "sint (min_int :: 'w word) \<le> sint (x :: 'w word)"
    using sint_greater_eq [of x] sint_less [of x] by (simp_all add: not_int_def)
qed

end
