(* ===== verification/Programs.thy ===== *)
theory Programs
  imports Wire_Pipe Descriptors Message_Text Base_Objects
begin

text \<open>
  The whole of both programs, as \<^verbatim>\<open>main\<close> of \<^verbatim>\<open>test/core.cc\<close> composes the library: the first process makes a pair of sockets and
  an invitation, starts a second process that finds its end of the pair on its command line, and the two
  meet and exchange one message. What \<^verbatim>\<open>_ArgValueParser\<close> returns is an input of each program: the repository declares
  the function and holds no source of it, and nothing is assumed of it. Logging and the input that ends a process are left
  out.
\<close>

section \<open>The program\<close>

definition channel_argument :: bytes where
  "channel_argument = ascii ''mojo-platform-channel-handle''"

definition hello :: bytes where
  "hello = ascii ''hello''"

definition heartbeat :: bytes where
  "heartbeat = ascii ''heartbeat''"

text \<open>\<^verbatim>\<open>std::to_string\<close>.\<close>

definition int_text :: "int \<Rightarrow> bytes" where
  "int_text n = ascii (if n < 0 then ''-'' @ dec_text (nat (- n)) else dec_text (nat n))"

definition handle_argument :: "int \<Rightarrow> bytes" where
  "handle_argument fd = ascii ''-'' @ channel_argument @ ascii ''='' @ int_text fd"

text \<open>
  Where \<^verbatim>\<open>main\<close> is when it starts the event loop, with the handle of its pipe; or what the copy that \<^verbatim>\<open>fork\<close> made of it
  becomes.
\<close>

datatype program =
    Parent u64 sock_pair_channel descriptors core
  | Child u64 core
  | Forked launched descriptors

text \<open>
  \<open>exec\<close> and \<open>dir\<close> are the name and the directory of the running program, \<open>given\<close> and \<open>pid\<close> what \<^verbatim>\<open>socketpair\<close> and \<^verbatim>\<open>fork\<close>
  return, \<open>old\<close> and \<open>old_pipe\<close> what is in the variables that \<^verbatim>\<open>main\<close> does not initialise.
\<close>

definition main_start :: "(nat \<Rightarrow> nat \<Rightarrow> byte) \<Rightarrow> (bytes \<Rightarrow> bytes) \<Rightarrow> bytes \<Rightarrow> bytes \<Rightarrow> (bytes \<rightharpoonup> bytes) \<Rightarrow> (int \<times> int) option
    \<Rightarrow> int \<times> int \<Rightarrow> int \<Rightarrow> bool \<Rightarrow> u64 \<Rightarrow> (nat \<Rightarrow> nat \<Rightarrow> name) \<Rightarrow> descriptors \<Rightarrow> program res" where
  "main_start fresh parse exec dir env given old pid execs old_pipe src t =
     (let co = core_set_io_task_runner (Some io_new) (core_new src);
          handler = arg_value_int parse channel_argument in
      if handler \<noteq> sint (of_int INTMAX_MAX :: u32) then
        rbind (core_accept_invitation handler co) (\<lambda>(_, h, co).
        rbind (extract_message_pipe_from_invitation fresh h hello old_pipe co) (\<lambda>(_, pipe, co). Inr (Child pipe co)))
      else
        let (sp, t1) = sock_pair_channel_new given old t;
            (h, co) = add_dispatcher invitation_create co in
        rbind (attach_message_pipe_to_invitation h hello old_pipe co) (\<lambda>(_, pipe, co).
          case launch_process pid execs dir [exec, handle_argument (sp_remote_endpoint sp)] env of
            Launched _ \<Rightarrow> rbind (core_send_invitation fresh h (sp_local_endpoint sp) co) (\<lambda>(_, co). Inr (Parent pipe sp t1 co))
          | child \<Rightarrow> Inr (Forked child t1)))"

text \<open>After its sleep: what \<^verbatim>\<open>main\<close> returns, what the child has read, and the state.\<close>

definition parent_finish :: "(nat \<Rightarrow> nat \<Rightarrow> byte) \<Rightarrow> u64 \<Rightarrow> core \<Rightarrow> (int \<times> core) res" where
  "parent_finish fresh pipe co = rbind (write_message fresh pipe heartbeat co) (\<lambda>(_, co). Inr (456, co))"

definition child_finish :: "u64 \<Rightarrow> core \<Rightarrow> (int \<times> event \<times> core) res" where
  "child_finish pipe co = rbind (read_message pipe event_create co) (\<lambda>(_, ev, co). Inr (123, ev, co))"

text \<open>The descriptors a program has after an exec: those not marked to be closed.\<close>

definition after_exec :: "descriptors \<Rightarrow> descriptors" where
  "after_exec t fd = (case t fd of None \<Rightarrow> None | Some d \<Rightarrow> if ds_flags d AND FD_CLOEXEC = 0 then Some d else None)"

text \<open>The messages of the two processes until the pipe is there, as bytes between the event loops of the two.\<close>

definition shake_hands :: "(nat \<Rightarrow> nat \<Rightarrow> byte) \<Rightarrow> (nat \<Rightarrow> byte) \<Rightarrow> (protocol \<Rightarrow> rx list \<times> rx list)
    \<Rightarrow> int \<Rightarrow> int \<Rightarrow> core \<Rightarrow> core \<Rightarrow> (core \<times> core) res option" where
  "shake_hands fresh junk pieces fda fdb A B =
     (case carry fresh junk pieces fda (co_controller A) fdb (co_controller B) of
        None \<Rightarrow> None | Some (Inl f) \<Rightarrow> Some (Inl f)
      | Some (Inr (a, b)) \<Rightarrow>
          (case carry fresh junk pieces fdb b fda a of
             None \<Rightarrow> None | Some (Inl f) \<Rightarrow> Some (Inl f)
           | Some (Inr (b, a)) \<Rightarrow>
               map_option (\<lambda>r. rbind r (\<lambda>(a, b). Inr (A\<lparr>co_controller := a\<rparr>, B\<lparr>co_controller := b\<rparr>)))
                 (carry fresh junk pieces fda a fdb b)))"

section \<open>The number on the command line\<close>

lemma atoi_digits_append:
  "(\<And>b. b \<in> set bs \<Longrightarrow> 48 \<le> b \<and> b \<le> 57) \<Longrightarrow> atoi_digits n (bs @ cs) = atoi_digits (atoi_digits n bs) cs"
  by (induction bs arbitrary: n) auto

lemma ascii_append [simp]: "ascii (s @ t) = ascii s @ ascii t"
  by (simp add: ascii_def)

lemma ascii_digit:
  "k < 10 \<Longrightarrow> \<exists>b. ascii [''0123456789'' ! k] = [b] \<and> 48 \<le> b \<and> b \<le> 57 \<and> uint b = int k + 48"
proof -
  assume "k < 10"
  then have "k = 0 \<or> k = 1 \<or> k = 2 \<or> k = 3 \<or> k = 4 \<or> k = 5 \<or> k = 6 \<or> k = 7 \<or> k = 8 \<or> k = 9" by presburger
  then show ?thesis by (elim disjE) (simp_all add: ascii_def)
qed

lemma dec_text_digits: "b \<in> set (ascii (dec_text n)) \<Longrightarrow> 48 \<le> b \<and> b \<le> 57"
  using digits_of_chars [of 10 "''0123456789''" n] by (fastforce simp: dec_text_def ascii_def)

lemma atoi_digits_dec_text: "atoi_digits 0 (ascii (dec_text n)) = int n"
proof (induction n rule: less_induct)
  case (less n)
  obtain b where b: "ascii [''0123456789'' ! (n mod 10)] = [b]" "48 \<le> b" "b \<le> 57" "uint b = int (n mod 10) + 48"
    using ascii_digit [of "n mod 10"] by auto
  show ?case
  proof (cases "n < 10")
    case True
    then show ?thesis using b by (simp add: dec_text_def digits_of.simps [of _ 10 n])
  next
    case False
    then have "dec_text n = dec_text (n div 10) @ [''0123456789'' ! (n mod 10)]"
      by (simp add: dec_text_def digits_of.simps [of _ 10 n])
    then have "atoi_digits 0 (ascii (dec_text n)) = atoi_digits (int (n div 10)) [b]"
      using less [of "n div 10"] False by (simp only: ascii_append b(1) atoi_digits_append [OF dec_text_digits])
    moreover have "10 * int (n div 10) + int (n mod 10) = int n" by (simp add: zdiv_int zmod_int)
    ultimately show ?thesis using b(2-4) by simp
  qed
qed

text \<open>A descriptor survives the way through the command line.\<close>

lemma atoi_int_text: "0 \<le> n \<Longrightarrow> atoi (int_text n) = n"
proof -
  assume n: "0 \<le> n"
  obtain b bs where t: "int_text n = b # bs"
    using n by (cases "int_text n") (auto simp: int_text_def ascii_def dec_text_def digits_of.simps [of _ 10 "nat n"] split: if_splits)
  then have "48 \<le> b \<and> b \<le> 57" using dec_text_digits [of b "nat n"] n by (simp add: int_text_def)
  then have "b \<noteq> 32" "\<not> b \<le> 13" "b \<noteq> 45" "b \<noteq> 43" by (auto simp: word_le_nat_alt)
  then have "atoi (int_text n) = atoi_digits 0 (int_text n)" by (simp add: t)
  then show ?thesis using n atoi_digits_dec_text [of "nat n"] by (simp add: int_text_def)
qed

section \<open>Starting the two programs\<close>

lemma sendable_sent: "length (message_bytes m) < 2 ^ 16 \<Longrightarrow> sendable (sent m)"
proof -
  have "message_bytes m \<noteq> []" by (cases m) (simp_all add: name_bytes_def str64_def)
  then show "length (message_bytes m) < 2 ^ 16 \<Longrightarrow> sendable (sent m)"
    by (simp add: sendable_def sent_def protocol_create_def)
qed

lemma handshake_over_wire:
  assumes "good_names srcA" and "good_names srcB" and "srcA 2 0 \<noteq> srcB 0 0" and "length nm < 104"
    and "\<And>p. sendable p \<Longrightarrow> arrives (pieces p) p"
    and con: "connect fresh nm fda fdb (started srcA) (started srcB) = Inr (2, 2, A2, B2)"
  obtains A B where "invite fresh nm fda (started srcA) = Inr (2, A)" and "join_invitation fresh nm fdb (started srcB) = Inr (2, B)"
    and "shake_hands fresh junk pieces fda fdb A B = Some (Inr (A2, B2))"
proof -
  obtain A B a1 b1 a2 where A: "invite fresh nm fda (started srcA) = Inr (2, A)" "inviting (co_controller A) (srcA 2 0) nm (srcA 1 0) 0 (srcA 1 1) 1"
    and B: "join_invitation fresh nm fdb (started srcB) = Inr (2, B)" "invited (co_controller B) nm (srcB 1 0) 0 (srcB 1 1) 1"
    and 1: "exchange fresh 0 (co_controller A) 0 (co_controller B) = Inr (a1, b1)"
      "only_channel b1 (ct_name (co_controller A)) [sent (AcceptInvitation (srcA 2 0) (ct_name (co_controller B))), sent (RequestPortMerge (srcB 1 0) nm)]"
    and 2: "exchange fresh 0 b1 0 a1 = Inr (b1\<lparr>ct_channels := [emptied (ct_channels b1 ! 0)]\<rparr>, a2)"
      "only_channel a2 (ct_name b1) [sent (ResponsePortMerge (srcB 1 0) (srcA 1 0))]"
    by (rule connect_stages [OF assms(1-4), where fresh = fresh and fda = fda and fdb = fdb]) blast
  let ?a = "co_controller A" and ?b = "co_controller B" and ?b2 = "b1\<lparr>ct_channels := [emptied (ct_channels b1 ! 0)]\<rparr>"
  have out: "outbox (ct_channels ?a ! 0) = [sent (AcceptInvitee (srcA 2 0) (ct_name ?a))]"
    "outbox (ct_channels b1 ! 0) = [sent (AcceptInvitation (srcA 2 0) (ct_name ?b)), sent (RequestPortMerge (srcB 1 0) nm)]"
    "outbox (ct_channels a2 ! 0) = [sent (ResponsePortMerge (srcB 1 0) (srcA 1 0))]"
    using A(2) 1(2) 2(2) by (simp_all add: inviting_def only_channel_def)
  have send: "sendable (sent (AcceptInvitee x y))" "sendable (sent (AcceptInvitation x y))" "sendable (sent (RequestPortMerge x nm))"
    "sendable (sent (ResponsePortMerge x y))" for x y
    using assms(4) by (auto intro!: sendable_sent simp: message_lengths(4) name_bytes_def simp del: message_bytes.simps(4))
  have "length (ct_channels ?a) = 1" "length (ct_channels ?b) = 1"
    using A(2) B(2) by (auto simp: inviting_def invited_def only_channel_def)
  then have len: "length (fst (wiring ?a)) = 1" "length (fst (wiring ?b)) = 1" by (simp_all add: wiring_def)
  have w: "wired_to fda ?a" "wired_to fdb ?b"
    using len invite_wiring [OF A(1)] join_invitation_wiring [OF B(1)] by (auto simp: started_wiring om_erase_def)
  have w1: "wired_to fda a1" "wired_to fdb b1" using exchange_wiring [OF 1(1)] w by simp_all
  have w2: "wired_to fda a2" "wired_to fdb ?b2" using exchange_wiring [OF 2(1)] w1 by simp_all
  have c: "carry fresh junk pieces fda ?a fdb ?b = Some (Inr (a1, b1))"
    "carry fresh junk pieces fdb b1 fda a1 = Some (Inr (?b2, a2))"
    "carry fresh junk pieces fda a2 fdb ?b2 = Some (exchange fresh 0 a2 0 ?b2)"
    using carry_is_exchange [OF out(1) w _ assms(5), where fresh = fresh and junk = junk]
      carry_is_exchange [OF out(2) w1(2,1) _ assms(5), where fresh = fresh and junk = junk]
      carry_is_exchange [OF out(3) w2 _ assms(5), where fresh = fresh and junk = junk] 1(1) 2(1) send
    by simp_all
  from con have "rbind (exchange fresh 0 a2 0 ?b2) (\<lambda>(a, b). Inr (A\<lparr>co_controller := a\<rparr>, B\<lparr>co_controller := b\<rparr>)) = Inr (A2, B2)"
    by (auto simp: connect_def A(1) B(1) 1(1) 2(1) rbind_eq_Inr_iff)
  then have "shake_hands fresh junk pieces fda fdb A B = Some (Inr (A2, B2))"
    by (simp add: shake_hands_def c)
  with A(1) B(1) show thesis by (rule that)
qed

text \<open>A handle that has been made does not depend on what was in its variable.\<close>

lemma attach_old:
  assumes "attach_message_pipe_to_invitation h nm MOJO_HANDLE_INVALID co = Inr (r, pipe, co')" and "pipe \<noteq> MOJO_HANDLE_INVALID"
  shows "attach_message_pipe_to_invitation h nm old co = Inr (r, pipe, co')"
proof -
  obtain i d where d: "get_dispatcher h co = Some (i, d)" "get_type d = kInvitation"
    using assms by (auto simp: attach_message_pipe_to_invitation_def split: option.splits if_splits)
  with assms(1) obtain x where "create_partial_message_pipe port_ref_default co = Inr x"
    by (auto simp: attach_message_pipe_to_invitation_def rbind_eq_Inr_iff)
  with d assms show ?thesis
    by (auto simp: attach_message_pipe_to_invitation_def Let_def split_beta split: if_splits)
qed

lemma extract_message_pipe_old:
  assumes "extract_message_pipe i nm MOJO_HANDLE_INVALID co = (r, h, co')"
  shows "\<exists>h'. extract_message_pipe i nm old co = (r, h', co') \<and> (r = MOJO_RESULT_OK \<longrightarrow> h' = h)"
  using assms by (auto simp: extract_message_pipe_def Let_def MOJO_RESULT_OK_def MOJO_RESULT_INVALID_ARGUMENT_def
      MOJO_RESULT_NOT_FOUND_def split: dispatcher.splits option.splits prod.splits if_splits)

lemma extract_old:
  assumes "extract_message_pipe_from_invitation fresh h nm MOJO_HANDLE_INVALID co = Inr (r, pipe, co')" and "pipe \<noteq> MOJO_HANDLE_INVALID"
  shows "extract_message_pipe_from_invitation fresh h nm old co = Inr (r, pipe, co')"
proof -
  obtain i d where d: "get_dispatcher h co = Some (i, d)" "get_type d = kInvitation"
    using assms by (auto simp: extract_message_pipe_from_invitation_def split: option.splits if_splits)
  obtain r1 h1 co1 where e: "extract_message_pipe i nm MOJO_HANDLE_INVALID co = (r1, h1, co1)" by (rule prod_cases3)
  then obtain h2 where "extract_message_pipe i nm old co = (r1, h2, co1)" "r1 = MOJO_RESULT_OK \<longrightarrow> h2 = h1"
    using extract_message_pipe_old by blast
  then show ?thesis using assms(1) d e by (cases "r1 = MOJO_RESULT_OK") (simp_all add: extract_message_pipe_from_invitation_def)
qed

lemma no_argument: "sint (of_int INTMAX_MAX :: u32) = - 1"
  by (simp add: INTMAX_MAX_def)

lemma parent_starts:
  assumes "invite fresh hello a (started src) = Inr (pipe, A)" and "pipe \<noteq> MOJO_HANDLE_INVALID"
    and "parse channel_argument = []" and "sock_pair_channel_new given old t = (sp, t')" and "sp_local_endpoint sp = a"
  shows "main_start fresh parse exec dir env given old pid execs old_pipe src t =
     (case launch_process pid execs dir [exec, handle_argument (sp_remote_endpoint sp)] env of
        Launched _ \<Rightarrow> Inr (Parent pipe sp t' A)
      | child \<Rightarrow> Inr (Forked child t'))"
proof -
  obtain h co1 where 1: "add_dispatcher invitation_create (started src) = (h, co1)" by fastforce
  then have "snd (create_invitation (started src)) = (h, co1)" by (simp add: create_invitation_def)
  then obtain r co2 r3 where 2: "attach_message_pipe_to_invitation h hello MOJO_HANDLE_INVALID co1 = Inr (r, pipe, co2)"
    and 3: "core_send_invitation fresh h a co2 = Inr (r3, A)"
    using assms(1) by (auto simp: invite_def rbind_eq_Inr_iff split: prod.splits)
  note started = 1 [unfolded started_def]
  show ?thesis
    using assms(3-5) attach_old [OF 2 assms(2)] 3
    by (simp add: main_start_def arg_value_int_def Let_def started split: launched.splits)
qed

lemma child_starts:
  assumes "join_invitation fresh hello fd (started src) = Inr (pipe, B)" and "pipe \<noteq> MOJO_HANDLE_INVALID"
    and "parse channel_argument = int_text fd" and "0 \<le> fd"
  shows "main_start fresh parse exec dir env given old pid execs old_pipe src t = Inr (Child pipe B)"
proof -
  have "int_text fd \<noteq> []" using atoi_int_text [OF assms(4)]
    by (auto simp: int_text_def ascii_def dec_text_def digits_of.simps [of _ 10 "nat fd"])
  then have handler: "arg_value_int parse channel_argument = fd" using assms(3,4) by (simp add: arg_value_int_def atoi_int_text)
  obtain r h co1 r2 where 1: "core_accept_invitation fd (started src) = Inr (r, h, co1)"
    and 2: "extract_message_pipe_from_invitation fresh h hello MOJO_HANDLE_INVALID co1 = Inr (r2, pipe, B)"
    using assms(1) by (auto simp: join_invitation_def rbind_eq_Inr_iff)
  have "fd \<noteq> - 1" using assms(4) by simp
  then show ?thesis
    using extract_old [OF 2 assms(2)] 1 [unfolded started_def] by (simp add: main_start_def handler no_argument Let_def)
qed

lemma pair_survives_exec:
  assumes "a \<noteq> b"
  shows "nonblocking b (after_exec (snd (sock_pair_channel_new (Some (a, b)) old t)))"
  using assms by (simp add: sock_pair_made nonblocking_def after_exec_def O_RDWR_def O_NONBLOCK_def)

text \<open>What is written at one end, carried over and read at the other end, call by call.\<close>

lemma one_message:
  assumes "simulates (\<lambda>_. 2) node own slot pipe_new (\<lambda>s. case s of Inviter \<Rightarrow> A | Invitee \<Rightarrow> B)" and "node Inviter \<noteq> node Invitee"
    and "\<forall>s. wired_to (case s of Inviter \<Rightarrow> a | Invitee \<Rightarrow> b) (co_controller (case s of Inviter \<Rightarrow> A | Invitee \<Rightarrow> B))"
    and "\<And>p. sendable p \<Longrightarrow> arrives (pieces p) p"
  shows "\<exists>A1 a2 b1 ev B2. parent_finish fresh 2 A = Inr (456, A1)
    \<and> carry fresh junk pieces a (co_controller A1) b (co_controller B) = Some (Inr (a2, b1))
    \<and> child_finish 2 (B\<lparr>co_controller := b1\<rparr>) = Inr (123, ev, B2) \<and> map_option um_data (get_user_message ev) = Some heartbeat"
proof -
  let ?cs = "\<lambda>s. case s of Inviter \<Rightarrow> A | Invitee \<Rightarrow> B" and ?fd = "\<lambda>s. case s of Inviter \<Rightarrow> a | Invitee \<Rightarrow> b"
  have len: "length heartbeat < 92" by (simp add: heartbeat_def ascii_def)
  obtain cs where "wire_run fresh junk ?fd (\<lambda>_. 2) [(Write Inviter heartbeat, pieces), (Carry Inviter, pieces), (Read Invitee, pieces)] ?cs
      = Some (Inr ([Silent, Silent, Got MOJO_RESULT_OK (Some heartbeat)], cs))"
    using wire_run_simulates [OF assms(1-3), of "[(Write Inviter heartbeat, pieces), (Carry Inviter, pieces), (Read Invitee, pieces)]"
        fresh junk] assms(4) len
    by (auto simp: pipe_new_def)
  then obtain r A1 a2 b1 r' ev B2 where "write_message fresh 2 heartbeat A = Inr (r, A1)"
    and "carry fresh junk pieces a (co_controller A1) b (co_controller B) = Some (Inr (a2, b1))"
    and "read_message 2 event_create (B\<lparr>co_controller := b1\<rparr>) = Inr (r', ev, B2)"
    and "map_option um_data (get_user_message ev) = Some heartbeat"
    by (auto simp: rbind_def split: option.splits sum.splits prod.splits)
  then show ?thesis by (auto simp: parent_finish_def child_finish_def)
qed

text \<open>Read too early, before the message has been carried over.\<close>

lemma no_message:
  assumes "simulates (\<lambda>_. 2) node own slot pipe_new (\<lambda>s. case s of Inviter \<Rightarrow> A | Invitee \<Rightarrow> B)" and "node Inviter \<noteq> node Invitee"
  shows "\<exists>ev B1. child_finish 2 B = Inr (123, ev, B1) \<and> map_option um_data (get_user_message ev) = Some []"
  using core_step_simulates [OF assms, of "Read Invitee"]
  by (auto simp: child_finish_def rbind_eq_Inr_iff pipe_new_def)

text \<open>
  C2: The two programs of \<^verbatim>\<open>test/core.cc\<close> meet. A process for which the parser of the command line returns nothing
  makes a pair of sockets and starts a second process with the number of its end on the command line, where that end is
  open; a process for which the parser returns that number answers the invitation on it. Their event loops then
  carry the messages of the handshake, as bytes in whatever pieces the socket delivers, and the two have a pipe; what the
  first then writes is what the second reads, once it has been carried over, while reading before that is answered
  with an empty message. Each returns its own number, and nothing depends on the uninitialised variables.
\<close>

theorem programs_meet:
  assumes "good_names srcA" and "good_names srcB" and "srcA 2 0 \<noteq> srcB 0 0" and "srcA 0 0 \<noteq> srcB 0 0"
    and "a \<noteq> b" and "0 \<le> b" and "0 < pid"
    and "parseA channel_argument = []" and "parseB channel_argument = int_text b"
    and "\<forall>p. sendable p \<longrightarrow> arrives (pieces p) p"
  shows "\<exists>sp t' A B A1 B1 A2 a3 b2 ev B3 early B4.
    main_start fresh parseA exec dir env (Some (a, b)) old pid execs old_pipe srcA t = Inr (Parent 2 sp t' A)
    \<and> main_start fresh parseA exec dir env (Some (a, b)) old 0 True old_pipe srcA t
        = Inr (Forked (Replaced exec [exec, ascii ''-'' @ channel_argument @ ascii ''='' @ int_text b] (env(PATH \<mapsto> dir))) t')
    \<and> nonblocking b (after_exec t')
    \<and> main_start fresh parseB exec dir' env' given old' pid' execs' old_pipe' srcB (after_exec t') = Inr (Child 2 B)
    \<and> shake_hands fresh junk pieces a b A B = Some (Inr (A1, B1))
    \<and> parent_finish fresh 2 A1 = Inr (456, A2)
    \<and> carry fresh junk pieces a (co_controller A2) b (co_controller B1) = Some (Inr (a3, b2))
    \<and> child_finish 2 (B1\<lparr>co_controller := b2\<rparr>) = Inr (123, ev, B3) \<and> map_option um_data (get_user_message ev) = Some heartbeat
    \<and> child_finish 2 B1 = Inr (123, early, B4) \<and> map_option um_data (get_user_message early) = Some []"
proof -
  have "length hello < 104" by (simp add: hello_def ascii_def)
  from connect_ready [OF assms(1-3) this] obtain A1 B1
    where con: "connect fresh hello a b (started srcA) (started srcB) = Inr (2, 2, A1, B1)"
      and sim: "simulates (\<lambda>_. 2) (\<lambda>s. case s of Inviter \<Rightarrow> srcA 0 0 | Invitee \<Rightarrow> srcB 0 0)
        (\<lambda>s. case s of Inviter \<Rightarrow> srcA 1 0 | Invitee \<Rightarrow> srcB 1 0) (\<lambda>_. 0) pipe_new (\<lambda>s. case s of Inviter \<Rightarrow> A1 | Invitee \<Rightarrow> B1)"
      and wired: "\<forall>s. wired_to (case s of Inviter \<Rightarrow> a | Invitee \<Rightarrow> b) (co_controller (case s of Inviter \<Rightarrow> A1 | Invitee \<Rightarrow> B1))"
    by blast
  obtain A B where calls: "invite fresh hello a (started srcA) = Inr (2, A)" "join_invitation fresh hello b (started srcB) = Inr (2, B)"
    and hands: "shake_hands fresh junk pieces a b A B = Some (Inr (A1, B1))"
    using handshake_over_wire [OF assms(1-3) \<open>length hello < 104\<close> _ con, of pieces junk] assms(10) by blast
  obtain sp t' where sp: "sock_pair_channel_new (Some (a, b)) old t = (sp, t')" by fastforce
  then have ends: "sp_local_endpoint sp = a" "sp_remote_endpoint sp = b" by (auto simp: sock_pair_made [OF assms(5)])
  have handle: "(2 :: u64) \<noteq> MOJO_HANDLE_INVALID" by (simp add: MOJO_HANDLE_INVALID_def)
  have started: "main_start fresh parseA exec dir env (Some (a, b)) old pid' execs' old_pipe srcA t =
      (case launch_process pid' execs' dir [exec, handle_argument b] env of
         Launched _ \<Rightarrow> Inr (Parent 2 sp t' A) | child \<Rightarrow> Inr (Forked child t'))" for pid' execs'
    using parent_starts [OF calls(1) handle, where parse = parseA] assms(8) sp ends by simp
  have parent: "main_start fresh parseA exec dir env (Some (a, b)) old pid execs old_pipe srcA t = Inr (Parent 2 sp t' A)"
    and copy: "main_start fresh parseA exec dir env (Some (a, b)) old 0 True old_pipe srcA t
      = Inr (Forked (Replaced exec [exec, ascii ''-'' @ channel_argument @ ascii ''='' @ int_text b] (env(PATH \<mapsto> dir))) t')"
    using assms(7) by (simp_all add: started launch_process_def handle_argument_def)
  have open_b: "nonblocking b (after_exec t')" using pair_survives_exec [OF assms(5), of old t] sp by simp
  have child: "main_start fresh parseB exec dir' env' given old' pid' execs' old_pipe' srcB (after_exec t') = Inr (Child 2 B)"
    using child_starts [OF calls(2) handle, where parse = parseB] assms(9,6) by blast
  have names: "(case Inviter of Inviter \<Rightarrow> srcA 0 0 | Invitee \<Rightarrow> srcB 0 0) \<noteq> (case Invitee of Inviter \<Rightarrow> srcA 0 0 | Invitee \<Rightarrow> srcB 0 0)"
    using assms(4) by simp
  obtain A2 a3 b2 ev B3 where talk: "parent_finish fresh 2 A1 = Inr (456, A2)"
    "carry fresh junk pieces a (co_controller A2) b (co_controller B1) = Some (Inr (a3, b2))"
    "child_finish 2 (B1\<lparr>co_controller := b2\<rparr>) = Inr (123, ev, B3)" "map_option um_data (get_user_message ev) = Some heartbeat"
    using one_message [OF sim names wired, of pieces fresh junk] assms(10) by blast
  obtain early B4 where "child_finish 2 B1 = Inr (123, early, B4)" "map_option um_data (get_user_message early) = Some []"
    using no_message [OF sim names] by blast
  with parent copy open_b child hands talk show ?thesis by blast
qed

text \<open>The parser, where it has the value \<open>v\<close> for the argument.\<close>

definition answers :: "bytes \<Rightarrow> bytes \<Rightarrow> bytes" where
  "answers v arg = (if arg = channel_argument then v else [])"

theorem programs_meet_witness:
  "\<exists>sp t' A B A1 B1 A2 a3 b2 ev B3.
    main_start (\<lambda>_ _. 0) (answers []) [112] [] Map.empty (Some (3, 4)) (0, 0) 17 True 0 (sample_names 1) Map.empty = Inr (Parent 2 sp t' A)
    \<and> main_start (\<lambda>_ _. 0) (answers (ascii ''4'')) [112] [] Map.empty None (0, 0) 0 False 0 (sample_names 2) (after_exec t') = Inr (Child 2 B)
    \<and> shake_hands (\<lambda>_ _. 0) (\<lambda>_. 0) in_two 3 4 A B = Some (Inr (A1, B1)) \<and> parent_finish (\<lambda>_ _. 0) 2 A1 = Inr (456, A2)
    \<and> carry (\<lambda>_ _. 0) (\<lambda>_. 0) in_two 3 (co_controller A2) 4 (co_controller B1) = Some (Inr (a3, b2))
    \<and> child_finish 2 (B1\<lparr>co_controller := b2\<rparr>) = Inr (123, ev, B3) \<and> map_option um_data (get_user_message ev) = Some heartbeat"
proof -
  have "answers [] channel_argument = []" "answers (ascii ''4'') channel_argument = int_text 4"
    by (simp_all add: answers_def int_text_def dec_text_def digits_of.simps)
  from programs_meet [where srcA = "sample_names 1" and srcB = "sample_names 2" and a = 3 and b = 4 and pid = 17 and pieces = in_two
      and parseA = "answers []" and parseB = "answers (ascii ''4'')" and fresh = "\<lambda>_ _. 0" and junk = "\<lambda>_. 0"
      and exec = "[112]" and dir = "[]" and env = Map.empty and old = "(0, 0)" and execs = True and old_pipe = 0 and t = Map.empty
      and dir' = "[]" and env' = Map.empty and given = None and old' = "(0, 0)" and pid' = 0 and execs' = False and old_pipe' = 0]
    this
  show ?thesis using in_two_arrives sample_names_good by (auto 0 0)
qed

end
