(* ===== verification/Lock_Order.thy ===== *)
theory Lock_Order
  imports Locks
begin

text \<open>
  Threads that take several mutexes. The locking of a function is the guards it opens, with their extent, in the order of its code;
  a thread is what it has still to do, with the guards still open. When every function takes its locks in the order
  of a rank, threads never wait for each other in a circle.
\<close>

section \<open>Locking\<close>

text \<open>
  \<^verbatim>\<open>MutexLockGuard\<close> locks at its declaration and unlocks at the end of its block, also when the block is left early.
  Loops are unrolled by whoever knows how often they run.
\<close>

datatype 'l locking =
    Lockfree
  | Guarded 'l "'l locking"
  | Then "'l locking" "'l locking"
  | Either "'l locking" "'l locking"

fun guarded_loop :: "'l locking list \<Rightarrow> 'l locking" where
  "guarded_loop [] = Lockfree"
| "guarded_loop (p # ps) = Then p (guarded_loop ps)"

datatype 'l task = Do "'l locking" | Unlock 'l

record 'l lock_threads =
  lt_mutex :: "'l \<Rightarrow> mutex_lock"
  lt_tasks :: "pid \<Rightarrow> 'l task list"

definition threads_start :: "(pid \<Rightarrow> 'l locking list) \<Rightarrow> 'l lock_threads" where
  "threads_start calls = \<lparr>lt_mutex = \<lambda>_. mutex_new, lt_tasks = \<lambda>t. map Do (calls t)\<rparr>"

text \<open>The next step of a thread; \<open>left\<close> says which way it goes. \<open>None\<close>: it is blocked, has failed or has finished.\<close>

definition task_step :: "pid \<Rightarrow> bool \<Rightarrow> 'l lock_threads \<Rightarrow> 'l lock_threads option" where
  "task_step t left s =
     (case lt_tasks s t of
        [] \<Rightarrow> None
      | Do Lockfree # ks \<Rightarrow> Some (s\<lparr>lt_tasks := (lt_tasks s)(t := ks)\<rparr>)
      | Do (Guarded l p) # ks \<Rightarrow>
          map_option (\<lambda>m. s\<lparr>lt_mutex := (lt_mutex s)(l := m), lt_tasks := (lt_tasks s)(t := Do p # Unlock l # ks)\<rparr>)
            (pthread_mutex_lock t (lt_mutex s l))
      | Do (Then p q) # ks \<Rightarrow> Some (s\<lparr>lt_tasks := (lt_tasks s)(t := Do p # Do q # ks)\<rparr>)
      | Do (Either p q) # ks \<Rightarrow> Some (s\<lparr>lt_tasks := (lt_tasks s)(t := Do (if left then p else q) # ks)\<rparr>)
      | Unlock l # ks \<Rightarrow>
          map_option (\<lambda>m. s\<lparr>lt_mutex := (lt_mutex s)(l := m), lt_tasks := (lt_tasks s)(t := ks)\<rparr>)
            (pthread_mutex_unlock t (lt_mutex s l)))"

inductive lock_run :: "nat \<Rightarrow> 'l lock_threads \<Rightarrow> 'l lock_threads \<Rightarrow> bool" where
  lr_none: "lock_run 0 s s"
| lr_step: "lock_run n s s1 \<Longrightarrow> task_step t left s1 = Some s2 \<Longrightarrow> lock_run (Suc n) s s2"

definition all_finished :: "'l lock_threads \<Rightarrow> bool" where
  "all_finished s \<longleftrightarrow> (\<forall>t. lt_tasks s t = []) \<and> (\<forall>l. mx_owner (lt_mutex s l) = None)"

section \<open>Every step is progress\<close>

fun steps_of :: "'l locking \<Rightarrow> nat" where
  "steps_of Lockfree = 1"
| "steps_of (Guarded l p) = steps_of p + 2"
| "steps_of (Then p q) = Suc (steps_of p + steps_of q)"
| "steps_of (Either p q) = Suc (max (steps_of p) (steps_of q))"

fun task_steps :: "'l task \<Rightarrow> nat" where
  "task_steps (Do p) = steps_of p"
| "task_steps (Unlock l) = 1"

definition steps_left :: "'l lock_threads \<Rightarrow> pid \<Rightarrow> nat" where
  "steps_left s t = sum_list (map task_steps (lt_tasks s t))"

lemma task_step_elim:
  assumes "task_step t left s = Some s'"
  obtains (free) ks where "lt_tasks s t = Do Lockfree # ks" and "s' = s\<lparr>lt_tasks := (lt_tasks s)(t := ks)\<rparr>"
  | (lock) l p ks m where "lt_tasks s t = Do (Guarded l p) # ks" and "pthread_mutex_lock t (lt_mutex s l) = Some m"
      and "s' = s\<lparr>lt_mutex := (lt_mutex s)(l := m), lt_tasks := (lt_tasks s)(t := Do p # Unlock l # ks)\<rparr>"
  | (then_) p q ks where "lt_tasks s t = Do (Then p q) # ks" and "s' = s\<lparr>lt_tasks := (lt_tasks s)(t := Do p # Do q # ks)\<rparr>"
  | (either) p q ks where "lt_tasks s t = Do (Either p q) # ks"
      and "s' = s\<lparr>lt_tasks := (lt_tasks s)(t := Do (if left then p else q) # ks)\<rparr>"
  | (unlock) l ks m where "lt_tasks s t = Unlock l # ks" and "pthread_mutex_unlock t (lt_mutex s l) = Some m"
      and "s' = s\<lparr>lt_mutex := (lt_mutex s)(l := m), lt_tasks := (lt_tasks s)(t := ks)\<rparr>"
  using assms unfolding task_step_def
  by (auto split: list.splits task.splits locking.splits)

lemma task_step_left:
  assumes "task_step t left s = Some s'"
  shows "steps_left s' t < steps_left s t" and "u \<noteq> t \<Longrightarrow> lt_tasks s' u = lt_tasks s u"
  by (rule task_step_elim [OF assms]; simp add: steps_left_def less_Suc_eq_le max_def)+

lemma lock_run_bounded:
  assumes "lock_run n s s'" and "finite T" and "\<And>t. lt_tasks s t \<noteq> [] \<Longrightarrow> t \<in> T"
  shows "n + sum (steps_left s') T \<le> sum (steps_left s) T" and "\<And>t. lt_tasks s' t \<noteq> [] \<Longrightarrow> t \<in> T"
proof -
  have "n + sum (steps_left s') T \<le> sum (steps_left s) T \<and> (\<forall>t. lt_tasks s' t \<noteq> [] \<longrightarrow> t \<in> T)"
    using assms
  proof (induction rule: lock_run.induct)
    case (lr_step n s s1 t left s2)
    have t: "t \<in> T" using lr_step by (auto simp: task_step_def split: list.splits)
    have "steps_left s2 u = steps_left s1 u" if "u \<noteq> t" for u
      using task_step_left(2) [OF lr_step(2) that] by (simp add: steps_left_def)
    then have "sum (steps_left s2) (T - {t}) = sum (steps_left s1) (T - {t})" by (intro sum.cong) auto
    then have "sum (steps_left s2) T < sum (steps_left s1) T"
      using task_step_left(1) [OF lr_step(2)]
      unfolding sum.remove [OF lr_step(4) t, of "steps_left s1"] sum.remove [OF lr_step(4) t, of "steps_left s2"] by simp
    moreover have "lt_tasks s2 u \<noteq> [] \<longrightarrow> u \<in> T" for u
      using task_step_left(2) [OF lr_step(2)] lr_step t by (cases "u = t") auto
    ultimately show ?case using lr_step by auto
  qed simp
  then show "n + sum (steps_left s') T \<le> sum (steps_left s) T" and "\<And>t. lt_tasks s' t \<noteq> [] \<Longrightarrow> t \<in> T" by blast+
qed

section \<open>Locks in the order of a rank\<close>

fun ordered_locking :: "('l \<Rightarrow> nat) \<Rightarrow> nat \<Rightarrow> 'l locking \<Rightarrow> bool" where
  "ordered_locking rank n Lockfree \<longleftrightarrow> True"
| "ordered_locking rank n (Guarded l p) \<longleftrightarrow> n \<le> rank l \<and> ordered_locking rank (Suc (rank l)) p"
| "ordered_locking rank n (Then p q) \<longleftrightarrow> ordered_locking rank n p \<and> ordered_locking rank n q"
| "ordered_locking rank n (Either p q) \<longleftrightarrow> ordered_locking rank n p \<and> ordered_locking rank n q"

lemma ordered_locking_loop:
  "ordered_locking rank n (guarded_loop ps) \<longleftrightarrow> list_all (ordered_locking rank n) ps"
  by (induction ps) auto

text \<open>The least rank that may be locked under the guards that are open.\<close>

fun open_level :: "('l \<Rightarrow> nat) \<Rightarrow> 'l task list \<Rightarrow> nat" where
  "open_level rank [] = 0"
| "open_level rank (Do p # ks) = open_level rank ks"
| "open_level rank (Unlock l # ks) = Suc (rank l)"

fun ordered_tasks :: "('l \<Rightarrow> nat) \<Rightarrow> 'l task list \<Rightarrow> bool" where
  "ordered_tasks rank [] \<longleftrightarrow> True"
| "ordered_tasks rank (Do p # ks) \<longleftrightarrow> ordered_locking rank (open_level rank ks) p \<and> ordered_tasks rank ks"
| "ordered_tasks rank (Unlock l # ks) \<longleftrightarrow> open_level rank ks \<le> rank l \<and> ordered_tasks rank ks"

lemma open_below: "ordered_tasks rank ks \<Longrightarrow> Unlock l \<in> set ks \<Longrightarrow> rank l < open_level rank ks"
  by (induction rank ks rule: ordered_tasks.induct) auto

lemma ordered_calls: "list_all (ordered_locking rank 0) ps \<Longrightarrow> ordered_tasks rank (map Do ps)"
proof (induction ps)
  case (Cons p ps)
  have "open_level rank (map Do ps) = 0" by (induction ps) simp_all
  with Cons show ?case by simp
qed simp

text \<open>A mutex is locked by the thread with an open guard, once.\<close>

definition order_inv :: "('l \<Rightarrow> nat) \<Rightarrow> 'l lock_threads \<Rightarrow> bool" where
  "order_inv rank s \<longleftrightarrow>
     (\<forall>t. ordered_tasks rank (lt_tasks s t))
   \<and> (\<forall>l t. mx_owner (lt_mutex s l) = Some t \<longleftrightarrow> Unlock l \<in> set (lt_tasks s t))
   \<and> (\<forall>l. mx_owner (lt_mutex s l) \<noteq> None \<longrightarrow> mx_count (lt_mutex s l) = 1)"

lemma order_inv_start:
  "(\<And>t. list_all (ordered_locking rank 0) (calls t)) \<Longrightarrow> order_inv rank (threads_start calls)"
  by (auto simp: order_inv_def threads_start_def mutex_new_def intro: ordered_calls)

lemma order_inv_tasks:
  assumes "order_inv rank s" and "ordered_tasks rank ks" and "\<And>l. Unlock l \<in> set ks \<longleftrightarrow> Unlock l \<in> set (lt_tasks s t)"
  shows "order_inv rank (s\<lparr>lt_tasks := (lt_tasks s)(t := ks)\<rparr>)"
  using assms by (simp add: order_inv_def)

lemma order_inv_step:
  assumes inv: "order_inv rank s" and step: "task_step t left s = Some s'"
  shows "order_inv rank s'"
proof -
  have tasks: "ordered_tasks rank (lt_tasks s t)" and own: "mx_owner (lt_mutex s l) = Some u \<longleftrightarrow> Unlock l \<in> set (lt_tasks s u)"
    and once: "mx_owner (lt_mutex s l) \<noteq> None \<Longrightarrow> mx_count (lt_mutex s l) = 1" for l u
    using inv by (auto simp: order_inv_def)
  from step show ?thesis
  proof (cases rule: task_step_elim)
    case (free ks)
    then show ?thesis using tasks by (simp add: order_inv_tasks [OF inv])
  next
    case (then_ p q ks)
    then show ?thesis using tasks by (simp add: order_inv_tasks [OF inv])
  next
    case (either p q ks)
    then show ?thesis using tasks by (simp add: order_inv_tasks [OF inv])
  next
    case (lock l p ks m)
    then have l: "open_level rank ks \<le> rank l" "ordered_tasks rank ks" using tasks by simp_all
    then have "mx_owner (lt_mutex s l) \<noteq> Some t" using open_below [OF l(2)] lock(1) by (fastforce simp: own)
    then have m: "m = (lt_mutex s l)\<lparr>mx_owner := Some t, mx_count := 1\<rparr>" and none: "mx_owner (lt_mutex s l) = None"
      using lock(2) by (auto simp: pthread_mutex_lock_def split: option.splits if_splits)
    have nobody: "Unlock l \<notin> set (lt_tasks s u)" for u using own [of l u] none by simp
    show ?thesis
      using inv tasks nobody lock(1) unfolding order_inv_def lock(3) by (auto simp: m)
  next
    case (unlock l ks m)
    then have l: "open_level rank ks \<le> rank l" "ordered_tasks rank ks" using tasks by simp_all
    then have gone: "Unlock l \<notin> set ks" using open_below [OF l(2)] by fastforce
    have o: "mx_owner (lt_mutex s l) = Some t" using unlock(1) by (simp add: own)
    then have m: "m = (lt_mutex s l)\<lparr>mx_owner := None, mx_count := 0\<rparr>" using unlock(2) once [of l] by (simp add: pthread_mutex_unlock_def split: if_splits)
    have others: "Unlock l \<notin> set (lt_tasks s u)" if "u \<noteq> t" for u using own [of l u] o that by simp
    show ?thesis
      using inv tasks gone others unlock(1) unfolding order_inv_def unlock(3) by (auto simp: m)
  qed
qed

lemma order_inv_run: "lock_run n s s' \<Longrightarrow> order_inv rank s \<Longrightarrow> order_inv rank s'"
  by (induction rule: lock_run.induct) (auto intro: order_inv_step)

text \<open>A thread that cannot step waits for a mutex of another thread.\<close>

lemma blocked_on:
  assumes "order_inv rank s" and "lt_tasks s t \<noteq> []" and "\<forall>left. task_step t left s = None"
  obtains l p ks u where "lt_tasks s t = Do (Guarded l p) # ks" and "mx_owner (lt_mutex s l) = Some u"
proof -
  obtain k ks where k: "lt_tasks s t = k # ks" using assms(2) by (cases "lt_tasks s t") auto
  show thesis
  proof (cases k)
    case (Do q)
    then obtain l p where "q = Guarded l p" "pthread_mutex_lock t (lt_mutex s l) = None"
      using assms(3) k by (cases q) (auto simp: task_step_def)
    then show thesis using that k Do by (auto simp: pthread_mutex_lock_def split: option.splits)
  next
    case (Unlock l)
    then have "mx_owner (lt_mutex s l) = Some t" using assms(1) k by (auto simp: order_inv_def)
    then have False using assms(3) k Unlock by (simp add: task_step_def pthread_mutex_unlock_def split: if_splits)
    then show thesis ..
  qed
qed

section \<open>The interface\<close>

text \<open>Any kind of lock with a rank that is bounded.\<close>

locale lock_order =
  fixes rank :: "'l \<Rightarrow> nat" and bound :: nat
  assumes bounded: "rank l \<le> bound"
begin

lemma owner_steps:
  "order_inv rank s \<Longrightarrow> mx_owner (lt_mutex s l) = Some u \<Longrightarrow> \<exists>t left s'. task_step t left s = Some s'"
proof (induction "bound - rank l" arbitrary: l u rule: less_induct)
  case less
  have held: "Unlock l \<in> set (lt_tasks s u)" using less.prems by (simp add: order_inv_def)
  show ?case
  proof (cases "\<exists>left s'. task_step u left s = Some s'")
    case False
    then have "\<forall>left. task_step u left s = None" by auto
    moreover have "lt_tasks s u \<noteq> []" using held by auto
    ultimately obtain l' p ks v where l': "lt_tasks s u = Do (Guarded l' p) # ks" "mx_owner (lt_mutex s l') = Some v"
      using blocked_on [OF less.prems(1)] by metis
    have "ordered_tasks rank (lt_tasks s u)" using less.prems(1) by (simp add: order_inv_def)
    then have "rank l < rank l'" using open_below [of rank ks l] held l'(1) by auto
    then have "bound - rank l' < bound - rank l" using bounded [of l'] by simp
    from less.hyps [OF this less.prems(1) l'(2)] show ?thesis .
  qed blast
qed

lemma unfinished_steps:
  assumes "order_inv rank s" and "lt_tasks s t \<noteq> []"
  shows "\<exists>t left s'. task_step t left s = Some s'"
proof (cases "\<exists>left s'. task_step t left s = Some s'")
  case False
  then have "\<forall>left. task_step t left s = None" by auto
  from blocked_on [OF assms this] owner_steps [OF assms(1)] show ?thesis by metis
qed blast

text \<open>No run gets stuck before all threads have finished, and none is longer than what the threads have to do.\<close>

lemma no_deadlock:
  assumes "\<And>t. list_all (ordered_locking rank 0) (calls t)" and "lock_run n (threads_start calls) s"
    and "\<forall>t left. task_step t left s = None"
  shows "all_finished s"
proof -
  have inv: "order_inv rank s" by (rule order_inv_run [OF assms(2) order_inv_start]) (rule assms(1))
  then have "lt_tasks s t = []" for t using unfinished_steps [OF inv, of t] assms(3) by auto
  then show ?thesis using inv by (auto simp: all_finished_def order_inv_def)
qed

lemma one_owner:
  assumes "\<And>t. list_all (ordered_locking rank 0) (calls t)" and "lock_run n (threads_start calls) s"
    and "Unlock l \<in> set (lt_tasks s t)" and "Unlock l \<in> set (lt_tasks s u)"
  shows "t = u"
proof -
  have "order_inv rank s" by (rule order_inv_run [OF assms(2) order_inv_start]) (rule assms(1))
  then have "mx_owner (lt_mutex s l) = Some t" "mx_owner (lt_mutex s l) = Some u"
    using assms(3,4) by (simp_all add: order_inv_def)
  then show ?thesis by simp
qed

end

text \<open>Every run ends: the length of a run and what is left of it.\<close>

lemma run_length:
  assumes "finite {t. calls t \<noteq> []}" and "lock_run n (threads_start calls) s"
  shows "n \<le> (\<Sum>t | calls t \<noteq> []. sum_list (map steps_of (calls t)))"
proof -
  have "n + sum (steps_left s) {t. calls t \<noteq> []} \<le> sum (steps_left (threads_start calls)) {t. calls t \<noteq> []}"
    by (rule lock_run_bounded(1) [OF assms(2,1)]) (simp add: threads_start_def)
  then show ?thesis by (simp add: steps_left_def threads_start_def comp_def)
qed

end
