(* ===== verification/Process_Locks.thy ===== *)
theory Process_Locks
  imports Lock_Order
begin

text \<open>
  The mutexes of a process and the order in which every function takes them: the controller (\<^verbatim>\<open>core/node_controller.cc\<close>), its
  node (\<^verbatim>\<open>core/ports/node.cc\<close>), the channels (\<^verbatim>\<open>core/node_channel.cc\<close>, \<^verbatim>\<open>core/channel_posix.cc\<close>), the core, its handle
  table and its dispatchers. The arguments are what decides which mutexes are taken: the channel a message goes to, the invitation, how often
  a loop runs; \<open>Either\<close> is any other branch. Logging is taken not to call back into the process.
\<close>

section \<open>The mutexes\<close>

datatype process_lock =
    InviterLock | PeersLock | ReservedPortsLock | PendingPortMergesLock  \<comment> \<open>of the controller\<close>
  | ChannelLock nat            \<comment> \<open>\<^verbatim>\<open>channel_lock_\<close> of a node channel\<close>
  | WritingProtocolLock nat    \<comment> \<open>\<^verbatim>\<open>writing_protocol_lock_\<close> of its channel\<close>
  | PortsLock                  \<comment> \<open>of the node\<close>
  | NameGeneratorLock
  | NodeControllerLock         \<comment> \<open>of the core\<close>
  | HandleTableLock
  | InvitationLock nat         \<comment> \<open>of an invitation dispatcher\<close>

section \<open>Channels\<close>

definition channel_write_locks :: "nat \<Rightarrow> process_lock locking" where
  "channel_write_locks c = Guarded (WritingProtocolLock c) Lockfree"

definition on_fd_writeable_locks :: "nat \<Rightarrow> process_lock locking" where
  "on_fd_writeable_locks c = Guarded (WritingProtocolLock c) Lockfree"

definition nc_start_locks :: "nat \<Rightarrow> process_lock locking" where
  "nc_start_locks c = Guarded (ChannelLock c) Lockfree"

definition nc_shutdown_locks :: "nat \<Rightarrow> process_lock locking" where
  "nc_shutdown_locks c = Guarded (ChannelLock c) Lockfree"

definition send_channel_message_locks :: "nat \<Rightarrow> process_lock locking" where
  "send_channel_message_locks c = Guarded (ChannelLock c) (Either Lockfree (channel_write_locks c))"

section \<open>The node\<close>

definition generate_port_name_locks :: "process_lock locking" where
  "generate_port_name_locks = Guarded NameGeneratorLock Lockfree"

definition add_port_with_name_locks :: "process_lock locking" where
  "add_port_with_name_locks = Guarded PortsLock Lockfree"

definition create_uninitialized_port_locks :: "process_lock locking" where
  "create_uninitialized_port_locks = Then generate_port_name_locks add_port_with_name_locks"

definition initialize_port_locks :: "process_lock locking" where
  "initialize_port_locks = Guarded PortsLock Lockfree"

definition create_port_pair_locks :: "process_lock locking" where
  "create_port_pair_locks =
     Then create_uninitialized_port_locks (Either Lockfree
    (Then create_uninitialized_port_locks (Either Lockfree
    (Then initialize_port_locks (Either Lockfree initialize_port_locks)))))"

definition erase_port_locks :: "process_lock locking" where
  "erase_port_locks = Guarded PortsLock Lockfree"

definition close_port_locks :: "process_lock locking" where
  "close_port_locks = erase_port_locks"

definition merge_ports_locks :: "process_lock locking" where
  "merge_ports_locks = Then erase_port_locks (Guarded PortsLock Lockfree)"

definition merge_ports_response_locks :: "process_lock locking" where
  "merge_ports_response_locks = Then (Guarded PortsLock Lockfree) (Either Lockfree merge_ports_locks)"

section \<open>The controller\<close>

definition get_peer_channel_locks :: "process_lock locking" where
  "get_peer_channel_locks = Guarded PeersLock Lockfree"

definition get_inviter_channel_locks :: "process_lock locking" where
  "get_inviter_channel_locks = Then (Guarded InviterLock Lockfree) get_peer_channel_locks"

definition send_peer_event_locks :: "nat \<Rightarrow> process_lock locking" where
  "send_peer_event_locks c =
     Either Lockfree
    (Then get_peer_channel_locks
    (Either (send_channel_message_locks c)
            (Guarded PeersLock (Either Lockfree (send_channel_message_locks c)))))"

definition forward_event_locks :: "nat \<Rightarrow> process_lock locking" where
  "forward_event_locks c = Either Lockfree (send_peer_event_locks c)"

definition merge_port_into_inviter_locks :: "nat \<Rightarrow> process_lock locking" where
  "merge_port_into_inviter_locks c =
     Then (Guarded PendingPortMergesLock get_inviter_channel_locks) (Either Lockfree (send_channel_message_locks c))"

text \<open>\<open>n\<close> messages are waiting for the peer.\<close>

definition add_peer_locks :: "nat \<Rightarrow> bool \<Rightarrow> nat \<Rightarrow> process_lock locking" where
  "add_peer_locks c start n =
     Then (Guarded PeersLock Lockfree) (Either Lockfree
    (Then (if start then nc_start_locks c else Lockfree) (guarded_loop (replicate n (send_channel_message_locks c)))))"

text \<open>\<open>n\<close> ports are reserved for the peer.\<close>

definition drop_peer_locks :: "nat \<Rightarrow> process_lock locking" where
  "drop_peer_locks n =
     Then (Guarded PeersLock Lockfree) (Then (Guarded ReservedPortsLock Lockfree) (guarded_loop (replicate n close_port_locks)))"

text \<open>\<open>cs\<close> are the channels of the inviter that the requests go to.\<close>

definition handle_pending_merge_port_locks :: "nat list \<Rightarrow> process_lock locking" where
  "handle_pending_merge_port_locks cs =
     Then (Guarded PendingPortMergesLock Lockfree)
       (guarded_loop (map (\<lambda>c. Then get_inviter_channel_locks (send_channel_message_locks c)) cs))"

definition send_invitation_locks :: "nat \<Rightarrow> process_lock locking" where
  "send_invitation_locks c =
     Then (Guarded ReservedPortsLock Lockfree) (Then (nc_start_locks c) (send_channel_message_locks c))"

definition accept_invitation_locks :: "nat \<Rightarrow> process_lock locking" where
  "accept_invitation_locks c = Then (Guarded InviterLock Lockfree) (nc_start_locks c)"

definition on_request_port_merge_locks :: "nat \<Rightarrow> process_lock locking" where
  "on_request_port_merge_locks c =
     Then (Guarded ReservedPortsLock Lockfree) (Either Lockfree
    (Then merge_ports_locks (Then get_peer_channel_locks (send_channel_message_locks c))))"

definition on_accept_invitee_locks :: "nat \<Rightarrow> nat \<Rightarrow> nat list \<Rightarrow> process_lock locking" where
  "on_accept_invitee_locks c n cs =
     Then (Guarded InviterLock Lockfree)
    (Then (send_channel_message_locks c)
    (Then (add_peer_locks c False n) (handle_pending_merge_port_locks cs)))"

definition on_accept_invitation_locks :: "nat \<Rightarrow> nat \<Rightarrow> process_lock locking" where
  "on_accept_invitation_locks c n =
     Either (drop_peer_locks n) (Then (Guarded ReservedPortsLock Lockfree) (add_peer_locks c False n))"

definition on_response_port_merge_locks :: "process_lock locking" where
  "on_response_port_merge_locks = merge_ports_response_locks"

section \<open>The core\<close>

definition get_node_controller_locks :: "process_lock locking" where
  "get_node_controller_locks = Guarded NodeControllerLock Lockfree"

definition ht_add_dispatcher_locks :: "process_lock locking" where
  "ht_add_dispatcher_locks = Guarded HandleTableLock Lockfree"

definition ht_get_dispatcher_locks :: "process_lock locking" where
  "ht_get_dispatcher_locks = Guarded HandleTableLock Lockfree"

definition attach_message_pipe_locks :: "nat \<Rightarrow> process_lock locking" where
  "attach_message_pipe_locks i = Guarded (InvitationLock i) Lockfree"

definition take_attach_ports_locks :: "nat \<Rightarrow> process_lock locking" where
  "take_attach_ports_locks i = Guarded (InvitationLock i) Lockfree"

definition create_partial_message_pipe_for_locks :: "process_lock locking" where
  "create_partial_message_pipe_for_locks = Then get_node_controller_locks ht_add_dispatcher_locks"

definition create_partial_message_pipe_locks :: "process_lock locking" where
  "create_partial_message_pipe_locks =
     Then get_node_controller_locks (Then create_port_pair_locks create_partial_message_pipe_for_locks)"

definition extract_message_pipe_locks :: "nat \<Rightarrow> process_lock locking" where
  "extract_message_pipe_locks i =
     Then (Guarded (InvitationLock i) Lockfree) (Either Lockfree create_partial_message_pipe_for_locks)"

definition extract_from_inviter_locks :: "nat \<Rightarrow> process_lock locking" where
  "extract_from_inviter_locks c =
     Then create_partial_message_pipe_locks (Then get_node_controller_locks (merge_port_into_inviter_locks c))"

section \<open>What the threads of a process call\<close>

text \<open>
  The public calls, and what the event loop calls when a descriptor is ready: a flush, or the handler of a message.
\<close>

datatype process_call =
    CreateInvitation
  | AttachMessagePipeToInvitation nat
  | ExtractMessagePipeFromInvitation nat nat
  | SendInvitation nat nat
  | AcceptInvitation nat
  | WriteMessage nat
  | ReadMessage
  | FdWriteable nat
  | ReadAcceptInvitee nat nat "nat list"
  | ReadAcceptInvitation nat nat
  | ReadRequestPortMerge nat
  | ReadResponsePortMerge
  | ReadUserMessage
  | ChannelError nat

fun call_locks :: "process_call \<Rightarrow> process_lock locking" where
  "call_locks CreateInvitation = ht_add_dispatcher_locks"
| "call_locks (AttachMessagePipeToInvitation i) =
     Then ht_get_dispatcher_locks (Either Lockfree
    (Then create_partial_message_pipe_locks (Either Lockfree (attach_message_pipe_locks i))))"
| "call_locks (ExtractMessagePipeFromInvitation i c) =
     Then ht_get_dispatcher_locks (Either Lockfree
    (Then (extract_message_pipe_locks i) (Either Lockfree (extract_from_inviter_locks c))))"
| "call_locks (SendInvitation i c) =
     Then ht_get_dispatcher_locks (Either Lockfree
    (Then (take_attach_ports_locks i) (Then (take_attach_ports_locks i)
    (Then get_node_controller_locks (send_invitation_locks c)))))"
| "call_locks (AcceptInvitation c) =
     Then ht_add_dispatcher_locks (Either Lockfree (Then get_node_controller_locks (accept_invitation_locks c)))"
| "call_locks (WriteMessage c) = Then ht_get_dispatcher_locks (Either Lockfree (forward_event_locks c))"
| "call_locks ReadMessage = ht_get_dispatcher_locks"
| "call_locks (FdWriteable c) = on_fd_writeable_locks c"
| "call_locks (ReadAcceptInvitee c n cs) = on_accept_invitee_locks c n cs"
| "call_locks (ReadAcceptInvitation c n) = on_accept_invitation_locks c n"
| "call_locks (ReadRequestPortMerge c) = on_request_port_merge_locks c"
| "call_locks ReadResponsePortMerge = on_response_port_merge_locks"
| "call_locks ReadUserMessage = Lockfree"
| "call_locks (ChannelError c) = nc_shutdown_locks c"

section \<open>Their order\<close>

fun lock_rank :: "process_lock \<Rightarrow> nat" where
  "lock_rank PendingPortMergesLock = 0"
| "lock_rank InviterLock = 1"
| "lock_rank PeersLock = 2"
| "lock_rank (ChannelLock c) = 3"
| "lock_rank (WritingProtocolLock c) = 4"
| "lock_rank _ = 0"

interpretation process: lock_order lock_rank 4
proof
  show "lock_rank l \<le> 4" for l by (cases l) simp_all
qed

lemmas channel_locks = channel_write_locks_def on_fd_writeable_locks_def nc_start_locks_def nc_shutdown_locks_def
  send_channel_message_locks_def

lemmas node_locks = generate_port_name_locks_def add_port_with_name_locks_def create_uninitialized_port_locks_def
  initialize_port_locks_def create_port_pair_locks_def erase_port_locks_def close_port_locks_def merge_ports_locks_def
  merge_ports_response_locks_def

lemmas controller_locks = get_peer_channel_locks_def get_inviter_channel_locks_def send_peer_event_locks_def
  forward_event_locks_def merge_port_into_inviter_locks_def add_peer_locks_def drop_peer_locks_def
  handle_pending_merge_port_locks_def send_invitation_locks_def accept_invitation_locks_def on_request_port_merge_locks_def
  on_accept_invitee_locks_def on_accept_invitation_locks_def on_response_port_merge_locks_def

lemmas core_locks = get_node_controller_locks_def ht_add_dispatcher_locks_def ht_get_dispatcher_locks_def
  attach_message_pipe_locks_def take_attach_ports_locks_def create_partial_message_pipe_for_locks_def
  create_partial_message_pipe_locks_def extract_message_pipe_locks_def extract_from_inviter_locks_def

lemma calls_ordered: "ordered_locking lock_rank 0 (call_locks x)"
  by (cases x) (simp_all add: channel_locks node_locks controller_locks core_locks ordered_locking_loop list.pred_map
      list_all_iff)

text \<open>
  C3: The threads of a process never deadlock. Whatever public calls and handlers they run, in whatever
  interleaving and on whatever branches: no mutex is ever held by two of them, no unlocking fails, a run takes at
  most as many steps as the calls have, and when none of them can take another step, all have finished and every mutex is free.
\<close>

theorem process_never_deadlocks:
  assumes "finite {t. calls t \<noteq> []}"
    and "lock_run n (threads_start (\<lambda>t. map call_locks (calls t))) s"
  shows "n \<le> (\<Sum>t | calls t \<noteq> []. sum_list (map (\<lambda>x. steps_of (call_locks x)) (calls t)))
    \<and> (\<forall>l t u. Unlock l \<in> set (lt_tasks s t) \<and> Unlock l \<in> set (lt_tasks s u) \<longrightarrow> t = u)
    \<and> (\<forall>l t ks. lt_tasks s t = Unlock l # ks \<longrightarrow> pthread_mutex_unlock t (lt_mutex s l) \<noteq> None)
    \<and> ((\<forall>t left. task_step t left s = None) \<longrightarrow> all_finished s)"
proof -
  have ord: "list_all (ordered_locking lock_rank 0) (map call_locks (calls t))" for t
    by (simp add: list.pred_map list_all_iff calls_ordered)
  have "order_inv lock_rank s" by (rule order_inv_run [OF assms(2) order_inv_start]) (rule ord)
  then have "mx_owner (lt_mutex s l) = Some t" if "lt_tasks s t = Unlock l # ks" for l t ks
    using that by (auto simp: order_inv_def)
  then have "pthread_mutex_unlock t (lt_mutex s l) \<noteq> None" if "lt_tasks s t = Unlock l # ks" for l t ks
    using that by (simp add: pthread_mutex_unlock_def)
  moreover have "n \<le> (\<Sum>t | calls t \<noteq> []. sum_list (map (\<lambda>x. steps_of (call_locks x)) (calls t)))"
    using run_length [OF _ assms(2)] assms(1) by (simp add: comp_def)
  ultimately show ?thesis
    using process.no_deadlock [OF ord assms(2)] process.one_owner [OF ord assms(2)] by blast
qed

text \<open>Two threads that write: the first has entered the handle table, and the second must wait.\<close>

lemma run_prepend: "task_step t left s = Some s1 \<Longrightarrow> lock_run n s1 s2 \<Longrightarrow> lock_run (Suc n) s s2"
  by (rotate_tac 1, induction n s1 s2 rule: lock_run.induct) (auto intro: lock_run.intros)

theorem process_never_deadlocks_witness:
  "\<exists>s. lock_run 3 (threads_start (\<lambda>t. map call_locks (if t = 1 \<or> t = 2 then [WriteMessage 0] else []))) s
     \<and> Unlock HandleTableLock \<in> set (lt_tasks s 1) \<and> Unlock HandleTableLock \<notin> set (lt_tasks s 2)
     \<and> (\<forall>left. task_step 2 left s = None) \<and> \<not> (\<forall>t left. task_step t left s = None)"
proof -
  let ?calls = "\<lambda>t :: pid. if t = 1 \<or> t = 2 then [WriteMessage 0] else []"
  obtain s where run: "lock_run 3 (threads_start (\<lambda>t. map call_locks (?calls t))) s"
    and s: "Unlock HandleTableLock \<in> set (lt_tasks s 1)" "\<forall>left. task_step 2 left s = None"
    by (rule that, unfold numeral_3_eq_3, (rule run_prepend [of 1 True] run_prepend [of 2 True] lr_none
        | simp add: task_step_def threads_start_def core_locks pthread_mutex_lock_def mutex_new_def)+)
  have fin: "finite {t. ?calls t \<noteq> []}" by simp
  note claim = process_never_deadlocks [OF fin run]
  have "Unlock HandleTableLock \<notin> set (lt_tasks s 2)" using claim s(1) by force
  moreover have "lt_tasks s 1 \<noteq> []" using s(1) by auto
  then have "\<not> (\<forall>t left. task_step t left s = None)" using claim unfolding all_finished_def by blast
  ultimately show ?thesis using run s by blast
qed

end
