(* ===== verification/Block_Chain.thy ===== *)
theory Block_Chain
  imports Byte_Array
begin

text \<open>
  The blocks of a byte array as \<^verbatim>\<open>src/core/byte_array.cc\<close> has them: nodes in memory, each with a pointer to
  its bytes and one to the next node. The constructor, \<^verbatim>\<open>addCapacity\<close>, \<^verbatim>\<open>write\<close>, \<^verbatim>\<open>read\<close>, \<^verbatim>\<open>setPosition\<close>,
  \<^verbatim>\<open>clear\<close> and the destructor run on this memory; \<open>Byte_Array\<close>, where the chain is a list, is
  their abstraction. An access to memory that is not allocated, or not any more, is \<open>MemoryOverrun\<close>, and so is a second
  \<^verbatim>\<open>delete\<close>. A loop over the chain that does not end is \<open>None\<close>.
\<close>

section \<open>Memory\<close>

record block =
  bk_ptr :: "nat option"
  bk_next :: "nat option"
  bk_size :: nat

text \<open>
  The nodes and the arrays, by their address; \<open>hp_fresh k\<close> is in the \<open>k\<close>-th array that is allocated. Addresses are not given out
  twice, so that no access to freed memory goes unnoticed.
\<close>

record heap =
  hp_blocks :: "nat \<Rightarrow> block option"
  hp_arrays :: "nat \<Rightarrow> bytes option"
  hp_fresh :: "nat \<Rightarrow> nat \<Rightarrow> byte"
  hp_news :: nat

definition block_at :: "heap \<Rightarrow> nat option \<Rightarrow> block res" where
  "block_at h p = (case p of None \<Rightarrow> Inl NullDeref
     | Some a \<Rightarrow> (case hp_blocks h a of None \<Rightarrow> Inl MemoryOverrun | Some b \<Rightarrow> Inr b))"

definition array_at :: "heap \<Rightarrow> nat option \<Rightarrow> bytes res" where
  "array_at h p = (case p of None \<Rightarrow> Inl NullDeref
     | Some a \<Rightarrow> (case hp_arrays h a of None \<Rightarrow> Inl MemoryOverrun | Some bs \<Rightarrow> Inr bs))"

text \<open>\<^verbatim>\<open>new Node(s)\<close> and \<^verbatim>\<open>delete\<close> of a node.\<close>

definition new_block :: "nat \<Rightarrow> heap \<Rightarrow> nat \<times> heap" where
  "new_block s h =
     (let a = hp_news h in
      (a, h\<lparr>hp_blocks := (hp_blocks h)(a \<mapsto> \<lparr>bk_ptr = Some a, bk_next = None, bk_size = s\<rparr>),
             hp_arrays := (hp_arrays h)(a \<mapsto> map (hp_fresh h a) [0..<s]), hp_news := Suc a\<rparr>))"

definition delete_block :: "nat option \<Rightarrow> heap \<Rightarrow> heap res" where
  "delete_block p h =
     rbind (block_at h p) (\<lambda>b.
     rbind (case bk_ptr b of None \<Rightarrow> Inr h
            | Some x \<Rightarrow> rbind (array_at h (Some x)) (\<lambda>_. Inr (h\<lparr>hp_arrays := (hp_arrays h)(x := None)\<rparr>))) (\<lambda>h1.
       Inr (h1\<lparr>hp_blocks := (hp_blocks h1)(the p := None)\<rparr>)))"

definition set_next :: "nat option \<Rightarrow> nat option \<Rightarrow> heap \<Rightarrow> heap res" where
  "set_next p q h = rbind (block_at h p) (\<lambda>b. Inr (h\<lparr>hp_blocks := (hp_blocks h)(the p \<mapsto> b\<lparr>bk_next := q\<rparr>)\<rparr>))"

text \<open>\<^verbatim>\<open>memcpy\<close> to and from the bytes of a node.\<close>

definition block_store :: "nat option \<Rightarrow> nat \<Rightarrow> bytes \<Rightarrow> heap \<Rightarrow> heap res" where
  "block_store p npos bs h =
     rbind (block_at h p) (\<lambda>b.
     rbind (array_at h (bk_ptr b)) (\<lambda>xs.
       if npos + length bs \<le> length xs
       then Inr (h\<lparr>hp_arrays := (hp_arrays h)(the (bk_ptr b) \<mapsto> overlay npos bs xs)\<rparr>)
       else Inl MemoryOverrun))"

definition block_load :: "nat option \<Rightarrow> nat \<Rightarrow> nat \<Rightarrow> heap \<Rightarrow> bytes res" where
  "block_load p npos n h =
     rbind (block_at h p) (\<lambda>b.
     rbind (array_at h (bk_ptr b)) (\<lambda>xs.
       if npos + n \<le> length xs then Inr (take n (drop npos xs)) else Inl MemoryOverrun))"

section \<open>The operations\<close>

record pointer_array =
  pa_baseSize :: nat
  pa_position :: nat
  pa_capacity :: nat
  pa_size :: nat
  pa_root :: "nat option"
  pa_cur :: "nat option"
  pa_heap :: heap

definition pointer_new :: "nat \<Rightarrow> heap \<Rightarrow> pointer_array" where
  "pointer_new base h =
     (let (a, h1) = new_block base h in
      \<lparr>pa_baseSize = base, pa_position = 0, pa_capacity = base, pa_size = 0, pa_root = Some a, pa_cur = Some a, pa_heap = h1\<rparr>)"

text \<open>The loop of the destructor and of \<^verbatim>\<open>clear\<close>; \<^verbatim>\<open>m_cur\<close>, which it uses, is set or dead afterwards.\<close>

partial_function (option) delete_chain :: "nat option \<Rightarrow> heap \<Rightarrow> heap res option" where
  "delete_chain tmp h =
     (if tmp = None then Some (Inr h)
      else case block_at h tmp of
        Inl f \<Rightarrow> Some (Inl f)
      | Inr b \<Rightarrow> (case delete_block tmp h of Inl f \<Rightarrow> Some (Inl f) | Inr h1 \<Rightarrow> delete_chain (bk_next b) h1))"

definition pointer_destroy :: "pointer_array \<Rightarrow> heap res option" where
  "pointer_destroy pa = delete_chain (pa_root pa) (pa_heap pa)"

definition pointer_clear :: "pointer_array \<Rightarrow> pointer_array res option" where
  "pointer_clear pa =
     (case block_at (pa_heap pa) (pa_root pa) of
        Inl f \<Rightarrow> Some (Inl f)
      | Inr b \<Rightarrow>
          map_option (\<lambda>r. rbind r (\<lambda>h. rbind (set_next (pa_root pa) None h) (\<lambda>h1.
              Inr (pa\<lparr>pa_position := 0, pa_size := 0, pa_capacity := pa_baseSize pa, pa_cur := pa_root pa, pa_heap := h1\<rparr>))))
            (delete_chain (bk_next b) (pa_heap pa)))"

partial_function (option) last_block :: "heap \<Rightarrow> nat option \<Rightarrow> nat option res option" where
  "last_block h tmp =
     (case block_at h tmp of
        Inl f \<Rightarrow> Some (Inl f)
      | Inr b \<Rightarrow> if bk_next b = None then Some (Inr tmp) else last_block h (bk_next b))"

fun append_blocks :: "nat \<Rightarrow> nat option \<Rightarrow> nat option \<Rightarrow> pointer_array \<Rightarrow> (nat option \<times> pointer_array) res" where
  "append_blocks 0 tmp first pa = Inr (first, pa)"
| "append_blocks (Suc n) tmp first pa =
     (let (a, h1) = new_block (pa_baseSize pa) (pa_heap pa) in
      rbind (set_next tmp (Some a) h1) (\<lambda>h2.
        append_blocks n (Some a) (if first = None then Some a else first)
          (pa\<lparr>pa_heap := h2, pa_capacity := pa_capacity pa + pa_baseSize pa\<rparr>)))"

definition pointer_add_capacity :: "nat \<Rightarrow> pointer_array \<Rightarrow> pointer_array res option" where
  "pointer_add_capacity sz pa =
     (if sz = 0 then Some (Inr pa)
      else let old_cap = usub (pa_capacity pa) (pa_position pa) in
        if sz \<le> old_cap then Some (Inr pa)
        else if pa_baseSize pa = 0 then Some (Inl DivideByZero)
        else let count = (sz - old_cap + pa_baseSize pa - 1) div pa_baseSize pa in
          map_option (\<lambda>r. rbind r (\<lambda>tmp. rbind (append_blocks count tmp None pa) (\<lambda>(first, pa1).
              Inr (if old_cap = 0 then pa1\<lparr>pa_cur := first\<rparr> else pa1))))
            (last_block (pa_heap pa) (pa_root pa)))"

partial_function (option) pointer_write_loop :: "nat \<Rightarrow> nat \<Rightarrow> bytes \<Rightarrow> pointer_array \<Rightarrow> pointer_array res option" where
  "pointer_write_loop npos ncap bs pa =
     (if bs = [] then Some (Inr pa)
      else case block_at (pa_heap pa) (pa_cur pa) of
        Inl f \<Rightarrow> Some (Inl f)
      | Inr b \<Rightarrow>
          if length bs \<le> ncap then
            Some (rbind (block_store (pa_cur pa) npos bs (pa_heap pa)) (\<lambda>h.
              Inr (pa\<lparr>pa_heap := h, pa_cur := (if bk_size b = npos + length bs then bk_next b else pa_cur pa),
                      pa_position := pa_position pa + length bs\<rparr>)))
          else (case block_store (pa_cur pa) npos (take ncap bs) (pa_heap pa) of
              Inl f \<Rightarrow> Some (Inl f)
            | Inr h \<Rightarrow> (case block_at h (bk_next b) of
                Inl f \<Rightarrow> Some (Inl f)
              | Inr b1 \<Rightarrow> pointer_write_loop 0 (bk_size b1) (drop ncap bs)
                  (pa\<lparr>pa_heap := h, pa_cur := bk_next b, pa_position := pa_position pa + ncap\<rparr>))))"

definition pointer_write :: "bytes \<Rightarrow> pointer_array \<Rightarrow> pointer_array res option" where
  "pointer_write buf pa =
     (if buf = [] then Some (Inr pa)
      else case pointer_add_capacity (length buf) pa of
        None \<Rightarrow> None
      | Some (Inl f) \<Rightarrow> Some (Inl f)
      | Some (Inr pa1) \<Rightarrow>
          if pa_baseSize pa1 = 0 then Some (Inl DivideByZero)
          else let npos = pa_position pa1 mod pa_baseSize pa1 in
            case block_at (pa_heap pa1) (pa_cur pa1) of
              Inl f \<Rightarrow> Some (Inl f)
            | Inr b \<Rightarrow> map_option (\<lambda>r. rbind r (\<lambda>pa2.
                  Inr (if pa_size pa2 < pa_position pa2 then pa2\<lparr>pa_size := pa_position pa2\<rparr> else pa2)))
                (pointer_write_loop npos (usub (bk_size b) npos) buf pa1))"

text \<open>\<open>acc\<close> is what is in the buffer already.\<close>

partial_function (option) pointer_read_loop :: "nat \<Rightarrow> nat \<Rightarrow> nat \<Rightarrow> bytes \<Rightarrow> pointer_array \<Rightarrow> (bytes \<times> pointer_array) res option" where
  "pointer_read_loop npos ncap sz acc pa =
     (if sz = 0 then Some (Inr (acc, pa))
      else case block_at (pa_heap pa) (pa_cur pa) of
        Inl f \<Rightarrow> Some (Inl f)
      | Inr b \<Rightarrow>
          if sz \<le> ncap then
            Some (rbind (block_load (pa_cur pa) npos sz (pa_heap pa)) (\<lambda>bs.
              Inr (acc @ bs, pa\<lparr>pa_cur := (if bk_size b = npos + sz then bk_next b else pa_cur pa),
                                pa_position := pa_position pa + sz\<rparr>)))
          else (case block_load (pa_cur pa) npos ncap (pa_heap pa) of
              Inl f \<Rightarrow> Some (Inl f)
            | Inr bs \<Rightarrow> (case block_at (pa_heap pa) (bk_next b) of
                Inl f \<Rightarrow> Some (Inl f)
              | Inr b1 \<Rightarrow> pointer_read_loop 0 (bk_size b1) (sz - ncap) (acc @ bs)
                  (pa\<lparr>pa_cur := bk_next b, pa_position := pa_position pa + ncap\<rparr>))))"

definition pointer_read :: "nat \<Rightarrow> pointer_array \<Rightarrow> (bytes \<times> pointer_array) res option" where
  "pointer_read sz pa =
     (if usub (pa_size pa) (pa_position pa) < sz then Some (Inl OutOfRange)
      else if pa_baseSize pa = 0 then Some (Inl DivideByZero)
      else let npos = pa_position pa mod pa_baseSize pa in
        case block_at (pa_heap pa) (pa_cur pa) of
          Inl f \<Rightarrow> Some (Inl f)
        | Inr b \<Rightarrow> pointer_read_loop npos (usub (bk_size b) npos) sz [] pa)"

partial_function (option) pointer_seek_loop :: "nat \<Rightarrow> nat option \<Rightarrow> heap \<Rightarrow> nat option res option" where
  "pointer_seek_loop v cur h =
     (case block_at h cur of
        Inl f \<Rightarrow> Some (Inl f)
      | Inr b \<Rightarrow> if bk_size b < v then pointer_seek_loop (v - bk_size b) (bk_next b) h
                else Some (Inr (if v = bk_size b then bk_next b else cur)))"

definition pointer_set_position :: "nat \<Rightarrow> pointer_array \<Rightarrow> pointer_array res option" where
  "pointer_set_position v pa =
     (if pa_capacity pa < v then Some (Inl OutOfRange)
      else map_option (\<lambda>r. rbind r (\<lambda>cur.
          Inr (pa\<lparr>pa_position := v, pa_size := (if pa_size pa < v then v else pa_size pa), pa_cur := cur\<rparr>)))
        (pointer_seek_loop v (pa_root pa) (pa_heap pa)))"

section \<open>The chain is the list\<close>

text \<open>
  \<open>as\<close> are the addresses of the nodes; \<open>h0\<close> is the memory before the byte array was made, in which everything else still is.
\<close>

definition chain_node :: "nat list \<Rightarrow> heap \<Rightarrow> node list \<Rightarrow> nat \<Rightarrow> bool" where
  "chain_node as h ns i \<longleftrightarrow>
     hp_blocks h (as ! i) = Some \<lparr>bk_ptr = Some (as ! i), bk_next = (if Suc i < length as then Some (as ! Suc i) else None), bk_size = n_size (ns ! i)\<rparr>
   \<and> hp_arrays h (as ! i) = Some (n_ptr (ns ! i))"

definition chain_repr :: "heap \<Rightarrow> nat list \<Rightarrow> heap \<Rightarrow> node list \<Rightarrow> bool" where
  "chain_repr h0 as h ns \<longleftrightarrow>
     as \<noteq> [] \<and> length ns = length as \<and> distinct as \<and> (\<forall>i < length as. chain_node as h ns i)
   \<and> (\<forall>a. a \<notin> set as \<longrightarrow> hp_blocks h a = hp_blocks h0 a \<and> hp_arrays h a = hp_arrays h0 a)
   \<and> (\<forall>a \<in> set as. hp_news h0 \<le> a \<and> a < hp_news h) \<and> hp_fresh h = hp_fresh h0"

definition ba_repr :: "heap \<Rightarrow> nat list \<Rightarrow> pointer_array \<Rightarrow> byte_array \<Rightarrow> bool" where
  "ba_repr h0 as pa ba \<longleftrightarrow>
     chain_repr h0 as (pa_heap pa) (m_nodes ba)
   \<and> hp_news (pa_heap pa) = m_news ba + hp_news h0 \<and> m_fresh ba = (\<lambda>k. hp_fresh h0 (k + hp_news h0))
   \<and> pa_root pa = Some (hd as) \<and> pa_cur pa = map_option ((!) as) (m_cur ba) \<and> (\<forall>c. m_cur ba = Some c \<longrightarrow> c < length as)
   \<and> pa_baseSize pa = m_baseSize ba \<and> pa_position pa = m_position ba \<and> pa_capacity pa = m_capacity ba \<and> pa_size pa = m_size ba"

text \<open>Memory in which no address is used that is still to be given out.\<close>

definition heap_ok :: "heap \<Rightarrow> bool" where
  "heap_ok h \<longleftrightarrow> (\<forall>a \<ge> hp_news h. hp_blocks h a = None \<and> hp_arrays h a = None)"

text \<open>A result of the pointers and one of the list that agree.\<close>

definition agree :: "('a \<Rightarrow> 'b \<Rightarrow> bool) \<Rightarrow> 'a res option \<Rightarrow> 'b res \<Rightarrow> bool" where
  "agree R m r \<longleftrightarrow> (case r of Inl f \<Rightarrow> m = Some (Inl f) | Inr y \<Rightarrow> \<exists>x. m = Some (Inr x) \<and> R x y)"

lemma agreeI [intro]: "R x y \<Longrightarrow> agree R (Some (Inr x)) (Inr y)" "agree R (Some (Inl f)) (Inl f)"
  by (simp_all add: agree_def)

lemma agree_simps [simp]:
  "agree R (Some (Inr x)) (Inr y) \<longleftrightarrow> R x y" "agree R (Some (Inl f)) (Inl g) \<longleftrightarrow> f = g"
  "\<not> agree R None r" "\<not> agree R (Some (Inl f)) (Inr y)" "\<not> agree R (Some (Inr x)) (Inl f)"
  by (auto simp: agree_def split: sum.splits)

lemma agree_cases:
  assumes "agree R m r"
  obtains (fault) f where "m = Some (Inl f)" and "r = Inl f" | (result) x y where "m = Some (Inr x)" and "r = Inr y" and "R x y"
  using assms by (cases r) (auto simp: agree_def)

lemma agree_bind:
  assumes "agree R m r" and "\<And>x y. R x y \<Longrightarrow> agree S (f x) (g y)"
  shows "agree S (case m of None \<Rightarrow> None | Some (Inl e) \<Rightarrow> Some (Inl e) | Some (Inr x) \<Rightarrow> f x) (rbind r g)"
  using assms(1) by (cases rule: agree_cases) (simp_all add: assms(2))

lemma agree_map:
  assumes "agree R m r" and "\<And>x y. R x y \<Longrightarrow> agree S (Some (f x)) (g y)"
  shows "agree S (map_option (\<lambda>r. rbind r f) m) (rbind r g)"
  using assms(1) by (cases rule: agree_cases) (simp_all add: assms(2))

subsection \<open>Following pointers\<close>

lemma block_at_null [simp]: "block_at h None = Inl NullDeref"
  by (simp add: block_at_def)

lemma chain_block:
  assumes "chain_repr h0 as h ns" and "i < length as"
  shows "block_at h (Some (as ! i)) = Inr \<lparr>bk_ptr = Some (as ! i),
      bk_next = (if Suc i < length as then Some (as ! Suc i) else None), bk_size = n_size (ns ! i)\<rparr>"
    and "array_at h (Some (as ! i)) = Inr (n_ptr (ns ! i))"
  using assms by (simp_all add: chain_repr_def chain_node_def block_at_def array_at_def)

lemma chain_next:
  assumes "chain_repr h0 as h (m_nodes ba)"
  shows "(if Suc i < length as then Some (as ! Suc i) else None) = map_option ((!) as) (next_node ba i)"
    and "next_node ba i = Some c \<Longrightarrow> c < length as"
  using assms by (auto simp: chain_repr_def next_node_def split: if_splits)

lemma ba_repr_cur:
  assumes "ba_repr h0 as pa ba"
  shows "block_at (pa_heap pa) (pa_cur pa) = (case m_cur ba of None \<Rightarrow> Inl NullDeref
      | Some c \<Rightarrow> Inr \<lparr>bk_ptr = Some (as ! c), bk_next = map_option ((!) as) (next_node ba c), bk_size = n_size (m_nodes ba ! c)\<rparr>)"
    and "deref_node ba (m_cur ba) = (case m_cur ba of None \<Rightarrow> Inl NullDeref | Some c \<Rightarrow> Inr (m_nodes ba ! c))"
proof -
  have chain: "chain_repr h0 as (pa_heap pa) (m_nodes ba)" and cur: "pa_cur pa = map_option ((!) as) (m_cur ba)"
    "\<And>c. m_cur ba = Some c \<Longrightarrow> c < length as" and len: "length (m_nodes ba) = length as"
    using assms by (auto simp: ba_repr_def chain_repr_def)
  show "block_at (pa_heap pa) (pa_cur pa) = (case m_cur ba of None \<Rightarrow> Inl NullDeref
      | Some c \<Rightarrow> Inr \<lparr>bk_ptr = Some (as ! c), bk_next = map_option ((!) as) (next_node ba c), bk_size = n_size (m_nodes ba ! c)\<rparr>)"
    using chain_block(1) [OF chain cur(2)] by (auto simp: cur(1) block_at_def chain_next [OF chain] split: option.splits)
  show "deref_node ba (m_cur ba) = (case m_cur ba of None \<Rightarrow> Inl NullDeref | Some c \<Rightarrow> Inr (m_nodes ba ! c))"
    using cur(2) by (simp add: deref_node_def len split: option.splits)
qed

text \<open>Storing in a node.\<close>

lemma chain_store:
  assumes "chain_repr h0 as h ns" and "i < length as"
  shows "chain_repr h0 as (h\<lparr>hp_arrays := (hp_arrays h)(as ! i \<mapsto> bs)\<rparr>) (ns[i := (ns ! i)\<lparr>n_ptr := bs\<rparr>])"
  using assms by (auto simp: chain_repr_def chain_node_def nth_list_update nth_eq_iff_index_eq)

lemma ba_repr_move:
  assumes "ba_repr h0 as pa ba" and "\<And>c. cur = Some c \<Longrightarrow> c < length as"
  shows "ba_repr h0 as (pa\<lparr>pa_cur := map_option ((!) as) cur, pa_position := n\<rparr>) (ba\<lparr>m_cur := cur, m_position := n\<rparr>)"
  using assms by (simp add: ba_repr_def)

lemma store_agree:
  assumes r: "ba_repr h0 as pa ba" and c: "c < length as"
  shows "(\<exists>f. block_store (Some (as ! c)) npos bs (pa_heap pa) = Inl f \<and> memcpy_to c npos bs ba = Inl f)
    \<or> (\<exists>h ba1. block_store (Some (as ! c)) npos bs (pa_heap pa) = Inr h \<and> memcpy_to c npos bs ba = Inr ba1
        \<and> ba_repr h0 as (pa\<lparr>pa_heap := h\<rparr>) ba1 \<and> next_node ba1 = next_node ba
        \<and> (\<forall>i. n_size (m_nodes ba1 ! i) = n_size (m_nodes ba ! i)) \<and> m_cur ba1 = m_cur ba \<and> m_position ba1 = m_position ba)"
proof -
  have chain: "chain_repr h0 as (pa_heap pa) (m_nodes ba)" and len: "c < length (m_nodes ba)"
    using r c by (auto simp: ba_repr_def chain_repr_def)
  let ?nd = "m_nodes ba ! c"
  let ?h = "(pa_heap pa)\<lparr>hp_arrays := (hp_arrays (pa_heap pa))(as ! c \<mapsto> overlay npos bs (n_ptr ?nd))\<rparr>"
    and ?ba = "ba\<lparr>m_nodes := (m_nodes ba)[c := ?nd\<lparr>n_ptr := overlay npos bs (n_ptr ?nd)\<rparr>]\<rparr>"
  have "ba_repr h0 as (pa\<lparr>pa_heap := ?h\<rparr>) ?ba"
    using r chain_store [OF chain c, of "overlay npos bs (n_ptr ?nd)"] by (simp add: ba_repr_def)
  moreover have "next_node ?ba = next_node ba" by (simp add: fun_eq_iff next_node_def)
  moreover have "n_size (m_nodes ?ba ! i) = n_size (m_nodes ba ! i)" for i
    using len by (cases "i = c") auto
  ultimately show ?thesis
    using chain_block [OF chain c] len by (simp add: block_store_def memcpy_to_def deref_node_def)
qed

lemma load_agree:
  assumes "ba_repr h0 as pa ba" and "c < length as"
  shows "block_load (Some (as ! c)) npos n (pa_heap pa) = memcpy_from c npos n ba"
proof -
  have chain: "chain_repr h0 as (pa_heap pa) (m_nodes ba)" and "c < length (m_nodes ba)"
    using assms by (auto simp: ba_repr_def chain_repr_def)
  with chain_block [OF chain assms(2)] show ?thesis by (simp add: block_load_def memcpy_from_def deref_node_def)
qed

section \<open>Each operation on pointers is the one on lists\<close>

lemma write_loop_agree:
  "ba_repr h0 as pa ba \<Longrightarrow> agree (ba_repr h0 as) (pointer_write_loop npos ncap bs pa) (write_loop npos ncap bs ba)"
proof (induction npos ncap bs ba arbitrary: pa rule: write_loop.induct)
  case (1 npos ncap bs ba)
  note r = 1(2) and cur = ba_repr_cur [OF 1(2)]
  have chain: "chain_repr h0 as (pa_heap pa) (m_nodes ba)" using r by (simp add: ba_repr_def)
  show ?case
  proof (cases "bs = [] \<or> m_cur ba = None")
    case True
    then show ?thesis using r cur by (auto simp: pointer_write_loop.simps write_loop.simps)
  next
    case False
    then obtain c where c: "m_cur ba = Some c" "bs \<noteq> []" by auto
    with r have at: "c < length as" "pa_cur pa = Some (as ! c)" "pa_position pa = m_position ba" by (auto simp: ba_repr_def)
    have b: "block_at (pa_heap pa) (Some (as ! c)) = Inr \<lparr>bk_ptr = Some (as ! c), bk_next = map_option ((!) as) (next_node ba c),
        bk_size = n_size (m_nodes ba ! c)\<rparr>" using cur(1) by (simp add: c at)
    show ?thesis
    proof (cases "length bs \<le> ncap")
      case True
      from store_agree [OF r at(1), of npos bs] show ?thesis
      proof (elim disjE exE conjE)
        fix h ba1
        assume s: "block_store (Some (as ! c)) npos bs (pa_heap pa) = Inr h" "memcpy_to c npos bs ba = Inr ba1"
          "ba_repr h0 as (pa\<lparr>pa_heap := h\<rparr>) ba1" "next_node ba1 = next_node ba" "m_position ba1 = m_position ba"
        let ?cur = "if n_size (m_nodes ba ! c) = npos + length bs then next_node ba1 c else Some c"
        have "\<And>c'. ?cur = Some c' \<Longrightarrow> c' < length as" using chain_next(2) [OF chain] at(1) by (auto simp: s(4) split: if_splits)
        from ba_repr_move [where cur = ?cur and n = "m_position ba + length bs", OF s(3) this] show ?thesis
          using s True by (simp add: pointer_write_loop.simps [of npos] write_loop.simps [of npos] c at b split: if_splits)
      qed (use True in \<open>simp add: pointer_write_loop.simps [of npos] write_loop.simps [of npos] c at b\<close>)
    next
      case False
      from store_agree [OF r at(1), of npos "take ncap bs"] show ?thesis
      proof (elim disjE exE conjE)
        fix h ba1
        assume s: "block_store (Some (as ! c)) npos (take ncap bs) (pa_heap pa) = Inr h" "memcpy_to c npos (take ncap bs) ba = Inr ba1"
          "ba_repr h0 as (pa\<lparr>pa_heap := h\<rparr>) ba1" "next_node ba1 = next_node ba" "m_position ba1 = m_position ba"
        show ?thesis
        proof (cases "next_node ba c")
          case None
          then show ?thesis
            using s False by (simp add: pointer_write_loop.simps [of npos] write_loop.simps [of npos] c at b)
        next
          case (Some c')
          then have c': "c' < length as" by (rule chain_next(2) [OF chain])
          have chain1: "chain_repr h0 as h (m_nodes ba1)" using s(3) by (simp add: ba_repr_def)
          have "ba_repr h0 as (pa\<lparr>pa_heap := h, pa_cur := Some (as ! c'), pa_position := m_position ba + ncap\<rparr>)
              (ba1\<lparr>m_cur := Some c', m_position := m_position ba + ncap\<rparr>)"
            using ba_repr_move [where cur = "Some c'" and n = "m_position ba + ncap", OF s(3)] c' by simp
          from 1(1) [OF _ c(1) False s(2), of c', OF _ _ this] show ?thesis
            using s False c Some chain_block(1) [OF chain1 c']
            by (simp add: pointer_write_loop.simps [of npos] write_loop.simps [of npos] at b)
        qed
      qed (use False in \<open>simp add: pointer_write_loop.simps [of npos] write_loop.simps [of npos] c at b\<close>)
    qed
  qed
qed

text \<open>The list model returns the cursor and the position; the pointers store them.\<close>

definition read_agree :: "heap \<Rightarrow> nat list \<Rightarrow> byte_array \<Rightarrow> bytes \<Rightarrow> bytes \<times> pointer_array \<Rightarrow> bytes \<times> nat option \<times> nat \<Rightarrow> bool" where
  "read_agree h0 as ba acc = (\<lambda>(out, pa) (bs, cur, position).
     out = acc @ bs \<and> ba_repr h0 as pa (ba\<lparr>m_cur := cur, m_position := position\<rparr>))"

lemma read_loop_agree:
  "ba_repr h0 as pa (ba\<lparr>m_cur := cur, m_position := position\<rparr>) \<Longrightarrow>
    agree (read_agree h0 as ba acc) (pointer_read_loop npos ncap sz acc pa) (read_loop ba npos ncap sz cur position)"
proof (induction ba npos ncap sz cur position arbitrary: pa acc rule: read_loop.induct)
  case (1 ba npos ncap sz cur position)
  let ?ba = "ba\<lparr>m_cur := cur, m_position := position\<rparr>"
  note r = 1(2)
  have chain: "chain_repr h0 as (pa_heap pa) (m_nodes ba)" using r by (simp add: ba_repr_def)
  have next_ba: "next_node (ba\<lparr>m_cur := x, m_position := y\<rparr>) = next_node ba" for x y by (simp add: fun_eq_iff next_node_def)
  note unfold = pointer_read_loop.simps [of npos] read_loop.simps [of ba npos]
  show ?case
  proof (cases "sz = 0 \<or> cur = None")
    case True
    then show ?thesis using r ba_repr_cur(1) [OF r] by (auto simp: unfold read_agree_def)
  next
    case False
    then obtain c where c: "cur = Some c" "sz \<noteq> 0" by auto
    with r have at: "c < length as" "pa_cur pa = Some (as ! c)" "pa_position pa = position" by (auto simp: ba_repr_def)
    have b: "block_at (pa_heap pa) (Some (as ! c)) = Inr \<lparr>bk_ptr = Some (as ! c), bk_next = map_option ((!) as) (next_node ba c),
        bk_size = n_size (m_nodes ba ! c)\<rparr>" using ba_repr_cur(1) [OF r] by (simp add: c at next_ba)
    have load: "block_load (Some (as ! c)) npos n (pa_heap pa) = memcpy_from c npos n ba" for n
      using load_agree [OF r at(1), of npos n] by (simp add: memcpy_from_def deref_node_def)
    have move: "ba_repr h0 as (pa\<lparr>pa_cur := map_option ((!) as) cur', pa_position := n\<rparr>) (ba\<lparr>m_cur := cur', m_position := n\<rparr>)"
      if "\<And>c'. cur' = Some c' \<Longrightarrow> c' < length as" for cur' n
      using ba_repr_move [OF r that] by simp
    show ?thesis
    proof (cases "sz \<le> ncap")
      case True
      show ?thesis
        using True move [of "next_node ba c" "position + sz"] move [of "Some c" "position + sz"] chain_next(2) [OF chain] at(1)
        by (cases "memcpy_from c npos sz ba") (auto simp: unfold c at b load read_agree_def)
    next
      case False
      show ?thesis
      proof (cases "memcpy_from c npos ncap ba")
        case (Inl f)
        then show ?thesis using False by (simp add: unfold c at b load)
      next
        case (Inr bs)
        show ?thesis
        proof (cases "next_node ba c")
          case None
          then show ?thesis using False Inr by (simp add: unfold c at b load)
        next
          case (Some c')
          then have c': "c' < length as" by (rule chain_next(2) [OF chain])
          have "ba_repr h0 as (pa\<lparr>pa_cur := Some (as ! c'), pa_position := position + ncap\<rparr>) (ba\<lparr>m_cur := Some c', m_position := position + ncap\<rparr>)"
            using move [of "Some c'" "position + ncap"] c' by simp
          from 1(1) [OF c(2,1) False Inr Some this, of "acc @ bs"] show ?thesis
            using False c Some Inr chain_block(1) [OF chain c']
            by (auto simp: unfold at b load read_agree_def agree_def split: sum.splits)
        qed
      qed
    qed
  qed
qed

lemma seek_loop_agree:
  "ba_repr h0 as pa ba \<Longrightarrow> c < length as \<Longrightarrow>
    agree (\<lambda>p cur. p = map_option ((!) as) cur \<and> (\<forall>c. cur = Some c \<longrightarrow> c < length as))
      (pointer_seek_loop v (Some (as ! c)) (pa_heap pa)) (seek_loop ba v c)"
proof (induction ba v c rule: seek_loop.induct)
  case (1 ba v c)
  have chain: "chain_repr h0 as (pa_heap pa) (m_nodes ba)" and len: "c < length (m_nodes ba)"
    using 1(2,3) by (auto simp: ba_repr_def chain_repr_def)
  have d: "deref_node ba (Some c) = Inr (m_nodes ba ! c)" using len by (simp add: deref_node_def)
  note b = chain_block(1) [OF chain 1(3), unfolded chain_next(1) [OF chain]]
  show ?case
  proof (cases "n_size (m_nodes ba ! c) < v")
    case True
    show ?thesis
    proof (cases "next_node ba c")
      case None
      then show ?thesis using True
        by (simp add: pointer_seek_loop.simps [of v] seek_loop.simps [of ba v] d b)
          (simp add: pointer_seek_loop.simps block_at_def)
    next
      case (Some c')
      from 1(1) [OF d True Some 1(2) chain_next(2) [OF chain Some]] show ?thesis
        using True Some by (simp add: pointer_seek_loop.simps [of v] seek_loop.simps [of ba v] d b)
    qed
  next
    case False
    then show ?thesis
      using chain_next(2) [OF chain, of c] 1(3) by (simp add: pointer_seek_loop.simps [of v] seek_loop.simps [of ba v] d b)
  qed
qed

lemma last_block_eq:
  "chain_repr h0 as h ns \<Longrightarrow> i < length as \<Longrightarrow> last_block h (Some (as ! i)) = Some (Inr (Some (last as)))"
proof (induction "length as - i" arbitrary: i rule: less_induct)
  case less
  note b = chain_block(1) [OF less.prems]
  show ?case
  proof (cases "Suc i < length as")
    case True
    with less.hyps [of "Suc i"] less.prems show ?thesis by (simp add: last_block.simps [of h "Some (as ! i)"] b)
  next
    case False
    then have "i = length as - 1" "as \<noteq> []" using less.prems by auto
    then have "as ! i = last as" by (simp add: last_conv_nth)
    moreover have "last_block h (Some (as ! i)) = Some (Inr (Some (as ! i)))"
      using False by (simp add: last_block.simps [of h "Some (as ! i)"] b)
    ultimately show ?thesis by simp
  qed
qed

text \<open>A new node at the end of the chain.\<close>

lemma chain_append:
  assumes "chain_repr h0 as h ns" and "new_block s h = (a, h1)"
  shows "\<exists>h2. set_next (Some (last as)) (Some a) h1 = Inr h2 \<and> chain_repr h0 (as @ [a]) h2 (ns @ [new_node (hp_fresh h0 a) s])
    \<and> hp_news h2 = Suc (hp_news h) \<and> a = hp_news h"
proof -
  let ?n = "length as - 1"
  have ne: "as \<noteq> []" and len: "length ns = length as" and dist: "distinct as" and rest: "\<And>i. i < length as \<Longrightarrow> chain_node as h ns i"
    "\<And>x. x \<notin> set as \<Longrightarrow> hp_blocks h x = hp_blocks h0 x \<and> hp_arrays h x = hp_arrays h0 x"
    "\<And>x. x \<in> set as \<Longrightarrow> hp_news h0 \<le> x \<and> x < hp_news h" "hp_fresh h = hp_fresh h0"
    using assms(1) by (auto simp: chain_repr_def)
  have a: "a = hp_news h" "a \<notin> set as" using assms(2) rest(3) by (auto simp: new_block_def Let_def)
  have lastn: "last as = as ! ?n" "?n < length as" using ne by (simp_all add: last_conv_nth)
  have below: "hp_news h0 \<le> a" using rest(3) [of "last as"] ne a(1) by simp
  have other: "as ! i \<noteq> a" if "i < length as" for i using a(2) that by auto
  have lna: "last as \<noteq> a" using a(2) ne by auto
  let ?b = "\<lparr>bk_ptr = Some (last as), bk_next = None, bk_size = n_size (ns ! ?n)\<rparr>"
  have lb: "hp_blocks h (last as) = Some ?b" using rest(1) [OF lastn(2)] ne by (simp add: chain_node_def lastn(1))
  let ?h2 = "h1\<lparr>hp_blocks := (hp_blocks h1)(last as \<mapsto> ?b\<lparr>bk_next := Some a\<rparr>)\<rparr>"
  have h1: "h1 = h\<lparr>hp_blocks := (hp_blocks h)(a \<mapsto> \<lparr>bk_ptr = Some a, bk_next = None, bk_size = s\<rparr>),
      hp_arrays := (hp_arrays h)(a \<mapsto> map (hp_fresh h a) [0..<s]), hp_news := Suc a\<rparr>" using assms(2) by (auto simp: new_block_def Let_def)
  have set: "set_next (Some (last as)) (Some a) h1 = Inr ?h2"
    using lna lb by (simp add: set_next_def block_at_def h1)
  have node: "chain_node (as @ [a]) ?h2 (ns @ [new_node (hp_fresh h0 a) s]) i" if "i < Suc (length as)" for i
  proof (cases "i = length as")
    case True
    then show ?thesis using lna by (simp add: chain_node_def h1 len new_node_def rest(4) nth_append)
  next
    case False
    then have i: "i < length as" using that by simp
    show ?thesis
    proof (cases "i = ?n")
      case True
      then show ?thesis using rest(1) [OF i] other [OF i] i len ne by (simp add: chain_node_def h1 nth_append lastn(1))
    next
      case False
      then have "Suc i < length as" "as ! i \<noteq> last as" using i lastn dist by (auto simp: nth_eq_iff_index_eq)
      then show ?thesis using rest(1) [OF i] other [OF i] i len by (simp add: chain_node_def h1 nth_append)
    qed
  qed
  have "chain_repr h0 (as @ [a]) ?h2 (ns @ [new_node (hp_fresh h0 a) s])"
    using node rest(2-4) dist a below ne len lastn(2) by (auto simp: chain_repr_def h1 less_Suc_eq)
  then show ?thesis using set a(1) by (auto simp: h1)
qed

lemma append_blocks_repr:
  "ba_repr h0 as pa ba \<Longrightarrow> \<exists>pa' more. append_blocks n (Some (last as)) first pa =
      Inr (if first = None \<and> more \<noteq> [] then Some (hd more) else first, pa')
    \<and> length more = n \<and> ba_repr h0 (as @ more) pa' (append_nodes n ba)"
proof (induction n arbitrary: as first pa ba)
  case (Suc n)
  have chain: "chain_repr h0 as (pa_heap pa) (m_nodes ba)" using Suc.prems by (simp add: ba_repr_def)
  then have ne: "as \<noteq> []" by (simp add: chain_repr_def)
  obtain a h1 where new: "new_block (pa_baseSize pa) (pa_heap pa) = (a, h1)" by fastforce
  obtain h2 where h2: "set_next (Some (last as)) (Some a) h1 = Inr h2" "hp_news h2 = Suc (hp_news (pa_heap pa))" "a = hp_news (pa_heap pa)"
    "chain_repr h0 (as @ [a]) h2 (m_nodes ba @ [new_node (hp_fresh h0 a) (pa_baseSize pa)])"
    using chain_append [OF chain new] by blast
  let ?pa = "pa\<lparr>pa_heap := h2, pa_capacity := pa_capacity pa + pa_baseSize pa\<rparr>"
  let ?ba = "ba\<lparr>m_nodes := m_nodes ba @ [new_node (m_fresh ba (m_news ba)) (m_baseSize ba)], m_news := Suc (m_news ba),
      m_capacity := m_capacity ba + m_baseSize ba\<rparr>"
  have "map_option ((!) as) (m_cur ba) = map_option ((!) (as @ [a])) (m_cur ba)" "\<forall>c. m_cur ba = Some c \<longrightarrow> c < Suc (length as)"
    using Suc.prems by (cases "m_cur ba"; auto simp: ba_repr_def nth_append)+
  then have "ba_repr h0 (as @ [a]) ?pa ?ba"
    using Suc.prems h2(2-4) ne by (simp add: ba_repr_def)
  from Suc.IH [OF this, of "if first = None then Some a else first"] obtain pa' more where
    "append_blocks n (Some a) (if first = None then Some a else first) ?pa = Inr (if first = None then Some a else first, pa')"
    "length more = n" "ba_repr h0 ((as @ [a]) @ more) pa' (append_nodes n ?ba)"
    by (auto split: if_splits)
  then show ?case
    by (intro exI [of _ pa'] exI [of _ "a # more"]) (simp add: new h2(1))
qed simp

definition repr_by :: "heap \<Rightarrow> pointer_array \<Rightarrow> byte_array \<Rightarrow> bool" where
  "repr_by h0 pa ba \<longleftrightarrow> (\<exists>as. ba_repr h0 as pa ba)"

lemma repr_by_sel:
  assumes "repr_by h0 pa ba"
  shows "pa_baseSize pa = m_baseSize ba" "pa_position pa = m_position ba" "pa_capacity pa = m_capacity ba" "pa_size pa = m_size ba"
  using assms by (auto simp: repr_by_def ba_repr_def)

lemma add_capacity_agree:
  assumes "repr_by h0 pa ba"
  shows "agree (repr_by h0) (pointer_add_capacity sz pa) (add_capacity sz ba)"
proof -
  obtain as where r: "ba_repr h0 as pa ba" using assms by (auto simp: repr_by_def)
  then have chain: "chain_repr h0 as (pa_heap pa) (m_nodes ba)" and root: "pa_root pa = Some (as ! 0)" and ne: "as \<noteq> []"
    and len: "length (m_nodes ba) = length as"
    by (auto simp: ba_repr_def chain_repr_def hd_conv_nth)
  note sel = repr_by_sel [OF assms]
  let ?old = "usub (m_capacity ba) (m_position ba)"
  let ?count = "(sz - ?old + m_baseSize ba - 1) div m_baseSize ba"
  show ?thesis
  proof (cases "sz = 0 \<or> sz \<le> ?old \<or> m_baseSize ba = 0")
    case True
    then show ?thesis using assms by (auto simp: pointer_add_capacity_def add_capacity_def get_capacity_def sel Let_def)
  next
    case False
    obtain pa' more where a: "append_blocks ?count (Some (last as)) None pa = Inr (if more \<noteq> [] then Some (hd more) else None, pa')"
      "length more = ?count" "ba_repr h0 (as @ more) pa' (append_nodes ?count ba)"
      using append_blocks_repr [OF r, of ?count None] by auto
    have l: "last_block (pa_heap pa) (pa_root pa) = Some (Inr (Some (last as)))"
      using last_block_eq [OF chain, of 0] ne by (simp add: root)
    have "ba_repr h0 (as @ more) (pa'\<lparr>pa_cur := if more \<noteq> [] then Some (hd more) else None\<rparr>)
        ((append_nodes ?count ba)\<lparr>m_cur := if ?count = 0 then None else Some (length (m_nodes ba))\<rparr>)"
      using a(2,3) by (cases more) (auto simp: ba_repr_def len nth_append)
    then show ?thesis
      using False a(1,3) l by (auto simp: pointer_add_capacity_def add_capacity_def get_capacity_def sel Let_def repr_by_def)
  qed
qed

lemma write_agree:
  assumes "repr_by h0 pa ba"
  shows "agree (repr_by h0) (pointer_write buf pa) (ba_write buf ba)"
proof (cases "buf = []")
  case False
  let ?f = "\<lambda>pa1. if pa_baseSize pa1 = 0 then Some (Inl DivideByZero)
      else let npos = pa_position pa1 mod pa_baseSize pa1 in
        case block_at (pa_heap pa1) (pa_cur pa1) of
          Inl f \<Rightarrow> Some (Inl f)
        | Inr b \<Rightarrow> map_option (\<lambda>r. rbind r (\<lambda>pa2.
              Inr (if pa_size pa2 < pa_position pa2 then pa2\<lparr>pa_size := pa_position pa2\<rparr> else pa2)))
            (pointer_write_loop npos (usub (bk_size b) npos) buf pa1)"
    and ?g = "\<lambda>ba1. if m_baseSize ba1 = 0 then Inl DivideByZero
        else let npos = m_position ba1 mod m_baseSize ba1 in
          rbind (deref_node ba1 (m_cur ba1)) (\<lambda>cur.
          rbind (write_loop npos (usub (n_size cur) npos) buf ba1) (\<lambda>ba2.
            Inr (if m_size ba2 < m_position ba2 then ba2\<lparr>m_size := m_position ba2\<rparr> else ba2)))"
  have "agree (repr_by h0) (?f pa1) (?g ba1)" if r1: "repr_by h0 pa1 ba1" for pa1 ba1
  proof -
    obtain as where r: "ba_repr h0 as pa1 ba1" using r1 by (auto simp: repr_by_def)
    note sel = repr_by_sel [OF r1] and cur = ba_repr_cur [OF r]
    have size: "repr_by h0 (if pa_size pa2 < pa_position pa2 then pa2\<lparr>pa_size := pa_position pa2\<rparr> else pa2)
        (if m_size ba2 < m_position ba2 then ba2\<lparr>m_size := m_position ba2\<rparr> else ba2)" if "ba_repr h0 as pa2 ba2" for pa2 ba2
      using that by (auto simp: repr_by_def ba_repr_def)
    show ?thesis
    proof (cases "m_cur ba1")
      case None
      then show ?thesis using cur by (simp add: sel Let_def)
    next
      case (Some c)
      have "agree (repr_by h0) (map_option (\<lambda>r. rbind r (\<lambda>pa2.
              Inr (if pa_size pa2 < pa_position pa2 then pa2\<lparr>pa_size := pa_position pa2\<rparr> else pa2)))
            (pointer_write_loop npos n buf pa1))
          (rbind (write_loop npos n buf ba1) (\<lambda>ba2. Inr (if m_size ba2 < m_position ba2 then ba2\<lparr>m_size := m_position ba2\<rparr> else ba2)))"
        for npos n
        by (rule agree_map [OF write_loop_agree [OF r]]) (use size in simp)
      then show ?thesis using cur Some by (simp add: sel Let_def)
    qed
  qed
  from agree_bind [OF add_capacity_agree [OF assms, of "length buf"] this] show ?thesis
    using False by (simp add: pointer_write_def ba_write_def)
qed (use assms in \<open>auto simp: pointer_write_def ba_write_def\<close>)

lemma read_agree:
  assumes "repr_by h0 pa ba"
  shows "agree (\<lambda>(out, pa') (bs, ba'). out = bs \<and> repr_by h0 pa' ba') (pointer_read sz pa) (ba_read sz ba)"
proof -
  obtain as where r: "ba_repr h0 as pa ba" using assms by (auto simp: repr_by_def)
  note sel = repr_by_sel [OF assms] and cur = ba_repr_cur [OF r]
  have "agree (read_agree h0 as ba []) (pointer_read_loop npos n sz [] pa) (read_loop ba npos n sz (m_cur ba) (m_position ba))" for npos n
    using r by (intro read_loop_agree) simp
  then have loop: "agree (\<lambda>(out, pa') (bs, ba'). out = bs \<and> repr_by h0 pa' ba') (pointer_read_loop npos n sz [] pa)
      (rbind (read_loop ba npos n sz (m_cur ba) (m_position ba)) (\<lambda>(bs, cur, position). Inr (bs, ba\<lparr>m_cur := cur, m_position := position\<rparr>)))" for npos n
    by (rule agree_cases [of _ "pointer_read_loop npos n sz [] pa" "read_loop ba npos n sz (m_cur ba) (m_position ba)"])
      (auto simp: read_agree_def repr_by_def)
  show ?thesis
    using cur loop by (auto simp: pointer_read_def ba_read_def get_read_size_def sel Let_def split: option.splits)
qed

lemma set_position_agree:
  assumes "repr_by h0 pa ba"
  shows "agree (repr_by h0) (pointer_set_position v pa) (set_position v ba)"
proof -
  obtain as where r: "ba_repr h0 as pa ba" using assms by (auto simp: repr_by_def)
  let ?ba = "ba\<lparr>m_position := v, m_size := (if m_size ba < v then v else m_size ba)\<rparr>"
    and ?pa = "pa\<lparr>pa_position := v, pa_size := (if pa_size pa < v then v else pa_size pa)\<rparr>"
  have r1: "ba_repr h0 as ?pa ?ba" and root: "pa_root pa = Some (as ! 0)" and ne: "as \<noteq> []"
    using r by (auto simp: ba_repr_def chain_repr_def hd_conv_nth)
  have "agree (\<lambda>p cur. p = map_option ((!) as) cur \<and> (\<forall>c. cur = Some c \<longrightarrow> c < length as))
      (pointer_seek_loop v (pa_root pa) (pa_heap pa)) (seek_loop ?ba v 0)"
    using seek_loop_agree [OF r1, of 0 v] ne by (simp add: root)
  then have "agree (repr_by h0) (map_option (\<lambda>r. rbind r (\<lambda>cur.
        Inr (pa\<lparr>pa_position := v, pa_size := (if pa_size pa < v then v else pa_size pa), pa_cur := cur\<rparr>)))
      (pointer_seek_loop v (pa_root pa) (pa_heap pa))) (rbind (seek_loop ?ba v 0) (\<lambda>cur. Inr (?ba\<lparr>m_cur := cur\<rparr>)))"
    by (rule agree_map) (use r in \<open>auto simp: repr_by_def ba_repr_def intro!: exI [of _ as]\<close>)
  then show ?thesis
    by (simp add: pointer_set_position_def set_position_def repr_by_sel [OF assms] Let_def)
qed

subsection \<open>Deleting\<close>

fun owned_chain :: "heap \<Rightarrow> nat list \<Rightarrow> bool" where
  "owned_chain h [] \<longleftrightarrow> True"
| "owned_chain h (x # xs) \<longleftrightarrow>
     (\<exists>b. hp_blocks h x = Some b \<and> bk_ptr b = Some x \<and> bk_next b = (case xs of [] \<Rightarrow> None | y # _ \<Rightarrow> Some y))
   \<and> hp_arrays h x \<noteq> None \<and> owned_chain h xs"

lemma owned_chain_cong:
  "(\<And>x. x \<in> set xs \<Longrightarrow> hp_blocks h' x = hp_blocks h x \<and> hp_arrays h' x = hp_arrays h x) \<Longrightarrow> owned_chain h' xs = owned_chain h xs"
  by (induction xs) auto

definition without :: "nat set \<Rightarrow> heap \<Rightarrow> heap" where
  "without A h = h\<lparr>hp_blocks := (\<lambda>a. if a \<in> A then None else hp_blocks h a),
     hp_arrays := (\<lambda>a. if a \<in> A then None else hp_arrays h a)\<rparr>"

lemma delete_owned:
  "owned_chain h xs \<Longrightarrow> distinct xs \<Longrightarrow>
    delete_chain (case xs of [] \<Rightarrow> None | y # _ \<Rightarrow> Some y) h = Some (Inr (without (set xs) h))"
proof (induction xs arbitrary: h)
  case Nil
  then show ?case by (simp add: delete_chain.simps without_def)
next
  case (Cons x xs)
  then obtain b bs where b: "hp_blocks h x = Some b" "bk_ptr b = Some x" "bk_next b = (case xs of [] \<Rightarrow> None | y # _ \<Rightarrow> Some y)"
    "hp_arrays h x = Some bs" by auto
  have d: "delete_block (Some x) h = Inr (without {x} h)"
    by (simp add: delete_block_def block_at_def array_at_def b without_def fun_eq_iff)
  have "owned_chain (without {x} h) xs"
    using Cons.prems by (subst owned_chain_cong [of _ _ h]) (auto simp: without_def)
  from Cons.IH [OF this] Cons.prems(2)
  have "delete_chain (bk_next b) (without {x} h) = Some (Inr (without (set xs) (without {x} h)))" by (simp add: b(3))
  moreover have "without (set xs) (without {x} h) = without (set (x # xs)) h" by (auto simp: without_def fun_eq_iff)
  ultimately show ?case using d by (simp add: delete_chain.simps [of "Some x"] block_at_def b(1))
qed

lemma chain_owned:
  assumes "chain_repr h0 as h ns"
  shows "i \<le> length as \<Longrightarrow> owned_chain h (drop i as)"
proof (induction "length as - i" arbitrary: i)
  case (Suc n)
  then have i: "i < length as" by simp
  have "owned_chain h (drop (Suc i) as)" using Suc i by simp
  moreover have "(case drop (Suc i) as of [] \<Rightarrow> None | y # _ \<Rightarrow> Some y) = (if Suc i < length as then Some (as ! Suc i) else None)"
    by (cases "Suc i < length as") (auto simp flip: Cons_nth_drop_Suc)
  ultimately show ?case
    using assms i by (simp add: chain_repr_def chain_node_def flip: Cons_nth_drop_Suc [OF i])
qed simp

lemma destroy_frees:
  assumes "repr_by h0 pa ba" and "heap_ok h0"
  shows "\<exists>h. pointer_destroy pa = Some (Inr h) \<and> hp_blocks h = hp_blocks h0 \<and> hp_arrays h = hp_arrays h0"
proof -
  obtain as where "ba_repr h0 as pa ba" using assms(1) by (auto simp: repr_by_def)
  then have chain: "chain_repr h0 as (pa_heap pa) (m_nodes ba)" and root: "pa_root pa = (case as of [] \<Rightarrow> None | y # _ \<Rightarrow> Some y)"
    by (auto simp: ba_repr_def chain_repr_def split: list.splits)
  have "pointer_destroy pa = Some (Inr (without (set as) (pa_heap pa)))"
    using delete_owned [of "pa_heap pa" as] chain_owned [OF chain, of 0] chain by (simp add: pointer_destroy_def root chain_repr_def)
  then show ?thesis
    using chain assms(2) by (auto simp: chain_repr_def heap_ok_def without_def fun_eq_iff)
qed

lemma clear_agree:
  assumes "repr_by h0 pa ba" and "heap_ok h0"
  shows "agree (repr_by h0) (pointer_clear pa) (Inr (ba_clear ba))"
proof -
  obtain as where r: "ba_repr h0 as pa ba" using assms(1) by (auto simp: repr_by_def)
  then have chain: "chain_repr h0 as (pa_heap pa) (m_nodes ba)" by (simp add: ba_repr_def)
  then obtain x xs where as: "as = x # xs" by (cases as) (auto simp: chain_repr_def)
  have root: "pa_root pa = Some x" using r as by (simp add: ba_repr_def)
  have own: "owned_chain (pa_heap pa) (x # xs)" using chain_owned [OF chain, of 0] as by simp
  have dist: "distinct (x # xs)" using chain as by (simp add: chain_repr_def)
  obtain n ns where ns: "m_nodes ba = n # ns" using chain as by (cases "m_nodes ba") (auto simp: chain_repr_def)
  have x: "hp_blocks (pa_heap pa) x = Some \<lparr>bk_ptr = Some x, bk_next = (case xs of [] \<Rightarrow> None | y # _ \<Rightarrow> Some y), bk_size = n_size n\<rparr>"
    "hp_arrays (pa_heap pa) x = Some (n_ptr n)"
    using chain as ns by (auto simp: chain_repr_def chain_node_def split: list.splits dest!: spec [of _ 0])
  let ?h = "without (set xs) (pa_heap pa)"
  let ?h1 = "?h\<lparr>hp_blocks := (hp_blocks ?h)(x \<mapsto> \<lparr>bk_ptr = Some x, bk_next = None, bk_size = n_size n\<rparr>)\<rparr>"
  have d: "delete_chain (case xs of [] \<Rightarrow> None | y # _ \<Rightarrow> Some y) (pa_heap pa) = Some (Inr ?h)"
    using delete_owned [of "pa_heap pa" xs] own dist by simp
  have s: "set_next (Some x) None ?h = Inr ?h1"
    using dist x by (simp add: set_next_def block_at_def without_def)
  have "chain_repr h0 [x] ?h1 [n]"
    using chain as ns dist x assms(2) by (auto simp: chain_repr_def chain_node_def without_def heap_ok_def)
  then have "ba_repr h0 [x] (pa\<lparr>pa_position := 0, pa_size := 0, pa_capacity := pa_baseSize pa, pa_cur := pa_root pa, pa_heap := ?h1\<rparr>) (ba_clear ba)"
    using r ns by (simp add: ba_repr_def ba_clear_def root without_def)
  then show ?thesis
    using d s by (auto simp: pointer_clear_def root block_at_def x(1) repr_by_def)
qed

lemma new_agree: "repr_by h0 (pointer_new base h0) (ba_new base (\<lambda>k. hp_fresh h0 (k + hp_news h0)))"
proof -
  have "ba_repr h0 [hp_news h0] (pointer_new base h0) (ba_new base (\<lambda>k. hp_fresh h0 (k + hp_news h0)))"
    by (simp add: ba_repr_def chain_repr_def chain_node_def pointer_new_def new_block_def ba_new_def new_node_def Let_def)
  then show ?thesis by (auto simp: repr_by_def)
qed

section \<open>Any sequence of calls\<close>

text \<open>A call returns bytes or throws \<^verbatim>\<open>std::out_of_range\<close>, after which the array is as before; any other fault is the end.\<close>

datatype array_call = Write bytes | Read nat | Seek nat | Clear

datatype array_result = Returned bytes | Threw

definition caught :: "'s \<Rightarrow> (array_result \<times> 's) res \<Rightarrow> (array_result \<times> 's) res" where
  "caught s r = (case r of Inl f \<Rightarrow> if f = OutOfRange then Inr (Threw, s) else Inl f | Inr x \<Rightarrow> Inr x)"

fun list_call :: "array_call \<Rightarrow> byte_array \<Rightarrow> (array_result \<times> byte_array) res" where
  "list_call (Write bs) ba = caught ba (rbind (ba_write bs ba) (\<lambda>ba1. Inr (Returned [], ba1)))"
| "list_call (Read n) ba = caught ba (rbind (ba_read n ba) (\<lambda>(bs, ba1). Inr (Returned bs, ba1)))"
| "list_call (Seek v) ba = caught ba (rbind (set_position v ba) (\<lambda>ba1. Inr (Returned [], ba1)))"
| "list_call Clear ba = Inr (Returned [], ba_clear ba)"

fun pointer_call :: "array_call \<Rightarrow> pointer_array \<Rightarrow> (array_result \<times> pointer_array) res option" where
  "pointer_call (Write bs) pa = map_option (\<lambda>r. caught pa (rbind r (\<lambda>pa1. Inr (Returned [], pa1)))) (pointer_write bs pa)"
| "pointer_call (Read n) pa = map_option (\<lambda>r. caught pa (rbind r (\<lambda>(bs, pa1). Inr (Returned bs, pa1)))) (pointer_read n pa)"
| "pointer_call (Seek v) pa = map_option (\<lambda>r. caught pa (rbind r (\<lambda>pa1. Inr (Returned [], pa1)))) (pointer_set_position v pa)"
| "pointer_call Clear pa = map_option (\<lambda>r. rbind r (\<lambda>pa1. Inr (Returned [], pa1))) (pointer_clear pa)"

fun list_run :: "array_call list \<Rightarrow> byte_array \<Rightarrow> (array_result list \<times> byte_array) res" where
  "list_run [] ba = Inr ([], ba)"
| "list_run (x # xs) ba = rbind (list_call x ba) (\<lambda>(r, ba1). rbind (list_run xs ba1) (\<lambda>(rs, ba2). Inr (r # rs, ba2)))"

fun pointer_run :: "array_call list \<Rightarrow> pointer_array \<Rightarrow> (array_result list \<times> pointer_array) res option" where
  "pointer_run [] pa = Some (Inr ([], pa))"
| "pointer_run (x # xs) pa =
     (case pointer_call x pa of
        None \<Rightarrow> None
      | Some (Inl f) \<Rightarrow> Some (Inl f)
      | Some (Inr (r, pa1)) \<Rightarrow> map_option (\<lambda>y. rbind y (\<lambda>(rs, pa2). Inr (r # rs, pa2))) (pointer_run xs pa1))"

lemma agree_caught:
  assumes "agree R m r" and "P (Threw, s) (Threw, s')" and "\<And>x y. R x y \<Longrightarrow> P (f x) (g y)"
  shows "agree P (map_option (\<lambda>r. caught s (rbind r (\<lambda>x. Inr (f x)))) m) (caught s' (rbind r (\<lambda>y. Inr (g y))))"
  using assms(1) by (cases rule: agree_cases) (auto simp: caught_def assms(2,3))

lemma call_agree:
  assumes "repr_by h0 pa ba" and "heap_ok h0"
  shows "agree (rel_prod (=) (repr_by h0)) (pointer_call x pa) (list_call x ba)"
proof (cases x)
  case (Write bs)
  show ?thesis unfolding Write pointer_call.simps list_call.simps
    by (rule agree_caught [OF write_agree [OF assms(1)]]) (use assms(1) in auto)
next
  case (Read n)
  show ?thesis unfolding Read pointer_call.simps list_call.simps split_def
    by (rule agree_caught [OF read_agree [OF assms(1)]]) (use assms(1) in auto)
next
  case (Seek v)
  show ?thesis unfolding Seek pointer_call.simps list_call.simps
    by (rule agree_caught [OF set_position_agree [OF assms(1)]]) (use assms(1) in auto)
next
  case Clear
  from clear_agree [OF assms] show ?thesis by (rule agree_cases) (auto simp: Clear)
qed

lemma run_agree:
  assumes "heap_ok h0"
  shows "repr_by h0 pa ba \<Longrightarrow> agree (rel_prod (=) (repr_by h0)) (pointer_run xs pa) (list_run xs ba)"
proof (induction xs arbitrary: pa ba)
  case (Cons x xs)
  from call_agree [OF Cons.prems assms, of x] show ?case
  proof (cases rule: agree_cases)
    case (result u v)
    then obtain r pa1 ba1 where 1: "u = (r, pa1)" "v = (r, ba1)" "repr_by h0 pa1 ba1" by (cases u, cases v) auto
    from Cons.IH [OF 1(3)] show ?thesis
      by (rule agree_cases) (use result 1 in auto)
  qed simp
qed simp

text \<open>
  C14: The chain of blocks in memory implements the list of blocks. Whatever is written, read, sought and cleared, the
  program on pointers returns and throws what the one on lists does, ends in the same fault if that ends in one, and never
  touches memory that it does not own; and when the array is destroyed, with its exceptions caught on the way, each of
  its nodes and arrays is deleted once and all other memory is as it was.
\<close>

theorem blocks_on_heap:
  assumes "heap_ok h0"
  shows "agree (\<lambda>(rs, pa) (rs', ba). rs = rs' \<and> (\<exists>h. pointer_destroy pa = Some (Inr h)
        \<and> hp_blocks h = hp_blocks h0 \<and> hp_arrays h = hp_arrays h0))
      (pointer_run xs (pointer_new base h0)) (list_run xs (ba_new base (\<lambda>k. hp_fresh h0 (k + hp_news h0))))"
  using run_agree [OF assms new_agree, of xs base] destroy_frees [OF _ assms]
  by (cases rule: agree_cases) auto

definition empty_heap :: heap where
  "empty_heap = \<lparr>hp_blocks = (\<lambda>_. None), hp_arrays = (\<lambda>_. None), hp_fresh = (\<lambda>_ _. 0), hp_news = 0\<rparr>"

theorem blocks_on_heap_witness:
  "\<exists>pa h. pointer_run [Write [1, 2, 3, 4, 5, 6], Seek 1, Read 4, Seek 99, Clear, Read 1] (pointer_new 4 empty_heap)
      = Some (Inr ([Returned [], Returned [], Returned [2, 3, 4, 5], Threw, Returned [], Threw], pa))
    \<and> pointer_destroy pa = Some (Inr h) \<and> hp_blocks h = (\<lambda>_. None) \<and> hp_arrays h = (\<lambda>_. None)"
proof -
  let ?xs = "[Write [1, 2, 3, 4, 5, 6], Seek 1, Read 4, Seek 99, Clear, Read 1]"
  have ok: "heap_ok empty_heap" by (simp add: heap_ok_def empty_heap_def)
  have run: "map_sum id fst (list_run ?xs (ba_new 4 (\<lambda>_ _. 0)))
      = Inr [Returned [], Returned [], Returned [2, 3, 4, 5], Threw, Returned [], Threw]" by code_simp
  show ?thesis
    using blocks_on_heap [OF ok, of ?xs 4] run
    by (cases "list_run ?xs (ba_new 4 (\<lambda>_ _. 0))") (auto simp: agree_def empty_heap_def)
qed

end
