(* ===== verification/Peer_Threads.thy ===== *)
theory Peer_Threads
  imports Controller_Effects "HOL-Library.Multiset"
begin

text \<open>
  \<^verbatim>\<open>NodeController::SendPeerEvent\<close> and \<^verbatim>\<open>AddPeer\<close> (\<^verbatim>\<open>src/core/node_controller.cc\<close>) called by several threads at once.
  What a call does between two places where another thread can come in is one step: each section
  under \<^verbatim>\<open>peers_lock_\<close>, each write to a channel (which takes the locks of the channel). \<^verbatim>\<open>DropPeer\<close> and the
  shutdown of a channel, which throw messages away on purpose, do not run here.
\<close>

section \<open>The two calls, section by section\<close>

datatype peer_phase =
    Idle
  | Looking node_name protocol                        \<comment> \<open>\<^verbatim>\<open>SendPeerEvent\<close>: before \<^verbatim>\<open>GetPeerChannel\<close>\<close>
  | Found node_name nat protocol                      \<comment> \<open>it has the channel\<close>
  | Missed node_name protocol                         \<comment> \<open>it got a null pointer\<close>
  | Adding node_name nat bool                         \<comment> \<open>\<^verbatim>\<open>AddPeer\<close>: at its start\<close>
  | Inserting node_name nat bool                      \<comment> \<open>before the locked section\<close>
  | Starting node_name nat bool "protocol list"       \<comment> \<open>after it, with what was pending\<close>
  | Flushing node_name nat "protocol list"

definition pend :: "node_name \<Rightarrow> protocol \<Rightarrow> controller \<Rightarrow> controller" where
  "pend nm p ct =
     (let (queue, queues) = um_index [] nm (ct_pending_peer_messages ct)
      in ct\<lparr>ct_pending_peer_messages := queues(nm \<mapsto> queue @ [p])\<rparr>)"

definition insert_peer :: "node_name \<Rightarrow> nat \<Rightarrow> controller \<Rightarrow> protocol list \<times> controller" where
  "insert_peer nm c ct =
     (let ct1 = ct\<lparr>ct_peers := (ct_peers ct)(nm \<mapsto> c)\<rparr>
      in case ct_pending_peer_messages ct1 nm of
           None \<Rightarrow> ([], ct1)
         | Some ps \<Rightarrow> (ps, ct1\<lparr>ct_pending_peer_messages := um_erase nm (ct_pending_peer_messages ct1)\<rparr>))"

fun send_section :: "peer_phase \<Rightarrow> controller \<Rightarrow> (peer_phase \<times> controller) res" where
  "send_section (Looking nm p) ct =
     (case get_peer_channel nm ct of Some c \<Rightarrow> Inr (Found nm c p, ct) | None \<Rightarrow> Inr (Missed nm p, ct))"
| "send_section (Found nm c p) ct =
     rbind (with_channel (Some c) (\<lambda>nc. Inr (send_channel_message p nc)) ct) (\<lambda>ct1. Inr (Idle, ct1))"
| "send_section (Missed nm p) ct =
     (case ct_peers ct nm of
        None \<Rightarrow> Inr (Idle, pend nm p ct)
      | Some c \<Rightarrow> rbind (with_channel (Some c) (\<lambda>nc. Inr (send_channel_message p nc)) ct) (\<lambda>ct1. Inr (Idle, ct1)))"
| "send_section ph ct = Inr (ph, ct)"

fun add_section :: "peer_phase \<Rightarrow> controller \<Rightarrow> (peer_phase \<times> controller) res" where
  "add_section (Adding nm c start) ct =
     rbind (with_channel (Some c) (\<lambda>nc. Inr (set_remote_node_name nm nc)) ct) (\<lambda>ct1. Inr (Inserting nm c start, ct1))"
| "add_section (Inserting nm c start) ct =
     (if ct_peers ct nm \<noteq> None then Inr (Idle, ct)
      else let (ps, ct1) = insert_peer nm c ct in Inr (Starting nm c start ps, ct1))"
| "add_section (Starting nm c start ps) ct =
     rbind (if start then start_channel_of (Some c) ct else Inr ct) (\<lambda>ct1. Inr (Flushing nm c ps, ct1))"
| "add_section (Flushing nm c []) ct = Inr (Idle, ct)"
| "add_section (Flushing nm c (p # ps)) ct =
     rbind (with_channel (Some c) (\<lambda>nc. Inr (send_channel_message p nc)) ct) (\<lambda>ct1. Inr (Flushing nm c ps, ct1))"
| "add_section ph ct = Inr (ph, ct)"

fun is_sending :: "peer_phase \<Rightarrow> bool" where
  "is_sending (Looking nm p) \<longleftrightarrow> True"
| "is_sending (Found nm c p) \<longleftrightarrow> True"
| "is_sending (Missed nm p) \<longleftrightarrow> True"
| "is_sending _ \<longleftrightarrow> False"

definition next_section :: "peer_phase \<Rightarrow> controller \<Rightarrow> (peer_phase \<times> controller) res" where
  "next_section ph ct = (if is_sending ph then send_section ph ct else add_section ph ct)"

lemma next_section_sends [simp]:
  "next_section (Looking nm p) = send_section (Looking nm p)" "next_section (Found nm c p) = send_section (Found nm c p)"
  "next_section (Missed nm p) = send_section (Missed nm p)"
  and next_section_adds [simp]: "next_section Idle = add_section Idle" "next_section (Adding nm c start) = add_section (Adding nm c start)"
  "next_section (Inserting nm c start) = add_section (Inserting nm c start)"
  "next_section (Starting nm c start ps) = add_section (Starting nm c start ps)"
  "next_section (Flushing nm c ps) = add_section (Flushing nm c ps)"
  by (simp_all add: fun_eq_iff next_section_def)

text \<open>A call that no other thread interrupts.\<close>

fun sections :: "nat \<Rightarrow> peer_phase \<Rightarrow> controller \<Rightarrow> (peer_phase \<times> controller) res" where
  "sections 0 ph ct = Inr (ph, ct)"
| "sections (Suc n) ph ct = rbind (next_section ph ct) (\<lambda>(ph1, ct1). sections n ph1 ct1)"

section \<open>Alone, they are the sequential calls\<close>

lemma flushing_alone: "sections (Suc (length ps)) (Flushing nm c ps) ct = rbind (send_all_to (Some c) ps ct) (\<lambda>ct1. Inr (Idle, ct1))"
  by (induction ps arbitrary: ct) (simp_all add: rbind_assoc)

lemma idle_stays [simp]: "sections n Idle ct = Inr (Idle, ct)"
  by (induction n) simp_all

lemma sending_alone:
  assumes "ev_message e = Some m" and "protocol_of fresh m = Inr p"
  shows "sections 2 (Looking nm p) ct = rbind (send_peer_event fresh nm e ct) (\<lambda>ct1. Inr (Idle, ct1))"
  using assms by (auto simp: numeral_2_eq_2 rbind_assoc send_peer_event_def get_peer_channel_def pend_def split: option.splits prod.splits)

lemma adding_alone:
  "\<exists>n. sections n (Adding nm c start) ct = rbind (add_peer nm (Some c) start ct) (\<lambda>ct1. Inr (Idle, ct1))"
proof (cases "with_channel (Some c) (\<lambda>nc. Inr (set_remote_node_name nm nc)) ct")
  case (Inl f)
  then show ?thesis by (intro exI [of _ 1]) (simp add: add_peer_def)
next
  case (Inr ct1)
  obtain ps ct2 where ins: "insert_peer nm c ct1 = (ps, ct2)" by force
  show ?thesis
  proof (cases "ct_peers ct1 nm")
    case None
    have "sections (3 + Suc (length ps)) (Adding nm c start) ct =
        rbind (if start then start_channel_of (Some c) ct2 else Inr ct2) (\<lambda>ct3. sections (Suc (length ps)) (Flushing nm c ps) ct3)"
      by (simp add: numeral_3_eq_3 Inr None ins rbind_assoc del: sections.simps(2)) (simp add: Inr None ins rbind_assoc)
    moreover have "add_peer nm (Some c) start ct =
        rbind (if start then start_channel_of (Some c) ct2 else Inr ct2) (send_all_to (Some c) ps)"
      using ins by (simp add: add_peer_def Inr None insert_peer_def Let_def split: option.splits)
    ultimately show ?thesis by (intro exI [of _ "3 + Suc (length ps)"]) (simp only: flushing_alone rbind_assoc)
  qed (use Inr in \<open>auto intro!: exI [of _ 2] simp: add_peer_def numeral_2_eq_2\<close>)
qed

section \<open>Threads\<close>

record peer_system =
  px_controller :: controller
  px_threads :: "peer_phase list"
  px_given :: "(node_name \<times> protocol) list"            \<comment> \<open>what was given to \<^verbatim>\<open>SendPeerEvent\<close>, in order\<close>
  px_written :: "(node_name \<times> nat \<times> protocol) list"    \<comment> \<open>what was written to channels, in order\<close>

fun writes :: "peer_phase \<Rightarrow> controller \<Rightarrow> (node_name \<times> nat \<times> protocol) list" where
  "writes (Found nm c p) ct = [(nm, c, p)]"
| "writes (Missed nm p) ct = (case ct_peers ct nm of None \<Rightarrow> [] | Some c \<Rightarrow> [(nm, c, p)])"
| "writes (Flushing nm c (p # ps)) ct = [(nm, c, p)]"
| "writes _ ct = []"

inductive peers_reach :: "controller \<Rightarrow> nat \<Rightarrow> peer_system \<Rightarrow> bool" for ct0 n where
  px_new: "peers_reach ct0 n \<lparr>px_controller = ct0, px_threads = replicate n Idle, px_given = [], px_written = []\<rparr>"
| px_send: "peers_reach ct0 n s \<Longrightarrow> t < n \<Longrightarrow> px_threads s ! t = Idle
    \<Longrightarrow> peers_reach ct0 n (s\<lparr>px_threads := (px_threads s)[t := Looking nm p], px_given := px_given s @ [(nm, p)]\<rparr>)"
| px_add: "peers_reach ct0 n s \<Longrightarrow> t < n \<Longrightarrow> px_threads s ! t = Idle \<Longrightarrow> c < length (ct_channels (px_controller s))
    \<Longrightarrow> peers_reach ct0 n (s\<lparr>px_threads := (px_threads s)[t := Adding nm c start]\<rparr>)"
| px_step: "peers_reach ct0 n s \<Longrightarrow> t < n \<Longrightarrow> next_section (px_threads s ! t) (px_controller s) = Inr (ph, ct)
    \<Longrightarrow> peers_reach ct0 n (s\<lparr>px_controller := ct, px_threads := (px_threads s)[t := ph],
          px_written := px_written s @ writes (px_threads s ! t) (px_controller s)\<rparr>)"

section \<open>Nothing is lost or doubled\<close>

fun in_hand :: "node_name \<Rightarrow> peer_phase \<Rightarrow> protocol list" where
  "in_hand nm (Looking nm' p) = (if nm' = nm then [p] else [])"
| "in_hand nm (Found nm' c p) = (if nm' = nm then [p] else [])"
| "in_hand nm (Missed nm' p) = (if nm' = nm then [p] else [])"
| "in_hand nm (Starting nm' c start ps) = (if nm' = nm then ps else [])"
| "in_hand nm (Flushing nm' c ps) = (if nm' = nm then ps else [])"
| "in_hand nm _ = []"

definition given_to :: "node_name \<Rightarrow> peer_system \<Rightarrow> protocol list" where
  "given_to nm s = map snd (filter (\<lambda>(x, p). x = nm) (px_given s))"

definition written_for :: "node_name \<Rightarrow> peer_system \<Rightarrow> protocol list" where
  "written_for nm s = map (\<lambda>(x, c, p). p) (filter (\<lambda>(x, c, p). x = nm) (px_written s))"

definition written_on :: "nat \<Rightarrow> peer_system \<Rightarrow> protocol list" where
  "written_on c s = map (\<lambda>(x, d, p). p) (filter (\<lambda>(x, d, p). d = c) (px_written s))"

definition all_in_hand :: "node_name \<Rightarrow> peer_system \<Rightarrow> protocol multiset" where
  "all_in_hand nm s = (\<Sum>ph \<leftarrow> px_threads s. mset (in_hand nm ph))"

lemma sum_list_change:
  fixes f :: "'a \<Rightarrow> 'b :: comm_monoid_add"
  shows "t < length xs \<Longrightarrow> sum_list (map f (xs[t := x])) + f (xs ! t) = sum_list (map f xs) + f x"
proof (induction xs arbitrary: t)
  case (Cons y xs)
  then show ?case by (cases t) (auto simp: ac_simps)
qed simp

lemma written_on_append [simp]: "written_on c (s\<lparr>px_controller := ct, px_threads := ts, px_written := px_written s @ ws\<rparr>)
    = written_on c s @ map (\<lambda>(x, d, p). p) (filter (\<lambda>(x, d, p). d = c) ws)"
  by (simp add: written_on_def)

text \<open>The channel a phase is going to use is the one its peer has.\<close>

fun phase_ok :: "controller \<Rightarrow> peer_phase \<Rightarrow> bool" where
  "phase_ok ct (Found nm c p) \<longleftrightarrow> ct_peers ct nm = Some c"
| "phase_ok ct (Starting nm c start ps) \<longleftrightarrow> ct_peers ct nm = Some c"
| "phase_ok ct (Flushing nm c ps) \<longleftrightarrow> ct_peers ct nm = Some c"
| "phase_ok ct (Adding nm c start) \<longleftrightarrow> c < length (ct_channels ct)"
| "phase_ok ct (Inserting nm c start) \<longleftrightarrow> c < length (ct_channels ct)"
| "phase_ok ct _ \<longleftrightarrow> True"

definition peers_ok :: "controller \<Rightarrow> bool" where
  "peers_ok ct \<longleftrightarrow> (\<forall>nm c. ct_peers ct nm = Some c \<longrightarrow> c < length (ct_channels ct) \<and> pending_for nm ct = [])
     \<and> list_all is_open (ct_channels ct)"

text \<open>What a section does to the controller.\<close>

definition advances :: "peer_phase \<Rightarrow> controller \<Rightarrow> peer_phase \<Rightarrow> controller \<Rightarrow> bool" where
  "advances ph ct ph' ct' \<longleftrightarrow> peers_ok ct' \<and> phase_ok ct' ph' \<and> length (ct_channels ct') = length (ct_channels ct)
     \<and> (\<forall>nm c. ct_peers ct nm = Some c \<longrightarrow> ct_peers ct' nm = Some c)
     \<and> (\<forall>(nm, c, p) \<in> set (writes ph ct). ct_peers ct nm = Some c)
     \<and> (\<forall>c < length (ct_channels ct). outbox (ct_channels ct' ! c)
          = outbox (ct_channels ct ! c) @ map (\<lambda>(x, d, p). p) (filter (\<lambda>(x, d, p). d = c) (writes ph ct)))
     \<and> (\<forall>nm. mset (in_hand nm ph) + mset (pending_for nm ct) =
          mset (in_hand nm ph') + mset (pending_for nm ct') + mset (map (\<lambda>(x, d, p). p) (filter (\<lambda>(x, d, p). x = nm) (writes ph ct))))"

lemma pending_with_channels [simp]: "pending_for nm (ct\<lparr>ct_channels := cs\<rparr>) = pending_for nm ct"
  "pending_for nm (ct\<lparr>ct_io_task_runner := io\<rparr>) = pending_for nm ct"
  by (simp_all add: pending_for_def)

lemma pend_sel [simp]:
  "ct_peers (pend nm p ct) = ct_peers ct" "ct_channels (pend nm p ct) = ct_channels ct"
  "pending_for nm' (pend nm p ct) = pending_for nm' ct @ (if nm' = nm then [p] else [])"
  by (auto simp: pend_def pending_for_def um_index_def split: option.splits)

lemma insert_peer_sel:
  assumes "insert_peer nm c ct = (ps, ct1)"
  shows "ps = pending_for nm ct" "ct_peers ct1 = (ct_peers ct)(nm \<mapsto> c)" "ct_channels ct1 = ct_channels ct"
    "pending_for nm' ct1 = (if nm' = nm then [] else pending_for nm' ct)"
  using assms by (auto simp: insert_peer_def pending_for_def um_erase_def Let_def split: option.splits)

lemma write_possible:
  assumes "peers_ok ct" and "ct_peers ct nm = Some c"
  shows "\<exists>ct1. with_channel (Some c) (\<lambda>nc. Inr (send_channel_message p nc)) ct = Inr ct1"
  using assms by (simp add: peers_ok_def effect_simps)

lemma write_effect:
  assumes "peers_ok ct" and "ct_peers ct nm = Some c" and "with_channel (Some c) (\<lambda>nc. Inr (send_channel_message p nc)) ct = Inr ct1"
  shows "peers_ok ct1" "ct_peers ct1 = ct_peers ct" "length (ct_channels ct1) = length (ct_channels ct)"
    "pending_for nm' ct1 = pending_for nm' ct"
    "d < length (ct_channels ct) \<Longrightarrow> outbox (ct_channels ct1 ! d) = outbox (ct_channels ct ! d) @ (if d = c then [p] else [])"
proof -
  have c: "c < length (ct_channels ct)" and op: "is_open (ct_channels ct ! c)"
    using assms(1,2) by (auto simp: peers_ok_def list_all_length)
  then have ct1: "ct1 = ct\<lparr>ct_channels := (ct_channels ct)[c := send_channel_message p (ct_channels ct ! c)]\<rparr>"
    using assms(3) by (simp add: effect_simps)
  show "peers_ok ct1" "ct_peers ct1 = ct_peers ct" "length (ct_channels ct1) = length (ct_channels ct)"
    "pending_for nm' ct1 = pending_for nm' ct"
    "d < length (ct_channels ct) \<Longrightarrow> outbox (ct_channels ct1 ! d) = outbox (ct_channels ct ! d) @ (if d = c then [p] else [])"
    using assms(1) c op by (auto simp: ct1 peers_ok_def list_all_length nth_list_update outbox_send)
qed

lemma write_advances:
  assumes "peers_ok ct" and "ct_peers ct nm = Some c" and "with_channel (Some c) (\<lambda>nc. Inr (send_channel_message p nc)) ct = Inr ct'"
    and "phase_ok ct ph' \<Longrightarrow> phase_ok ct' ph'" and "phase_ok ct ph'" and "writes ph ct = [(nm, c, p)]"
    and "\<And>x. mset (in_hand x ph) = mset (in_hand x ph') + (if x = nm then {#p#} else {#})"
  shows "advances ph ct ph' ct'"
  using assms(4-7) write_effect [OF assms(1-3)] assms(2) by (auto simp: advances_def)

lemma next_section_advances:
  assumes "peers_ok ct" and "phase_ok ct ph" and "next_section ph ct = Inr (ph', ct')"
  shows "advances ph ct ph' ct'"
proof (cases ph)
  case (Found nm c p)
  then have "ct_peers ct nm = Some c" using assms(2) by simp
  from write_advances [OF assms(1) this] assms(3) Found show ?thesis by (auto simp: rbind_eq_Inr_iff)
next
  case (Missed nm p)
  show ?thesis
  proof (cases "ct_peers ct nm")
    case None
    then show ?thesis using assms(1,3) Missed by (auto simp: advances_def peers_ok_def)
  next
    case (Some c)
    from write_advances [OF assms(1) this] assms(3) Missed Some show ?thesis by (auto simp: rbind_eq_Inr_iff)
  qed
next
  case (Inserting nm c start)
  show ?thesis
  proof (cases "ct_peers ct nm")
    case None
    then obtain ps where i: "insert_peer nm c ct = (ps, ct')" and ph': "ph' = Starting nm c start ps"
      using assms(3) Inserting by (auto split: prod.splits)
    show ?thesis using assms(1,2) None
      by (auto simp: advances_def peers_ok_def insert_peer_sel [OF i] ph' Inserting)
  qed (use assms Inserting in \<open>auto simp: advances_def\<close>)
next
  case (Starting nm c start ps)
  then have "\<exists>io. ct' = ct\<lparr>ct_io_task_runner := io\<rparr> \<or> ct' = ct"
    using assms(3) by (auto simp: start_channel_of_def rbind_eq_Inr_iff split: if_splits)
  then show ?thesis using assms Starting by (auto simp: advances_def peers_ok_def rbind_eq_Inr_iff)
next
  case (Flushing nm c ps)
  then have peer: "ct_peers ct nm = Some c" using assms(2) by simp
  show ?thesis
  proof (cases ps)
    case (Cons p qs)
    with Flushing assms(3) have w: "with_channel (Some c) (\<lambda>nc. Inr (send_channel_message p nc)) ct = Inr ct'"
      and ph': "ph' = Flushing nm c qs"
      by (auto simp: rbind_eq_Inr_iff)
    show ?thesis
      by (rule write_advances [OF assms(1) peer w])
         (use Flushing peer Cons ph' write_effect(2) [OF assms(1) peer w] in auto)
  qed (use assms Flushing in \<open>auto simp: advances_def\<close>)
qed (use assms in \<open>auto simp: advances_def get_peer_channel_def peers_ok_def effect_simps list_all_length nth_list_update
      split: option.splits\<close>)

definition peers_inv :: "controller \<Rightarrow> peer_system \<Rightarrow> bool" where
  "peers_inv ct0 s \<longleftrightarrow> peers_ok (px_controller s) \<and> list_all (phase_ok (px_controller s)) (px_threads s)
     \<and> length (ct_channels (px_controller s)) = length (ct_channels ct0)
     \<and> (\<forall>(nm, c, p) \<in> set (px_written s). ct_peers (px_controller s) nm = Some c)
     \<and> (\<forall>c < length (ct_channels ct0). outbox (ct_channels (px_controller s) ! c) = outbox (ct_channels ct0 ! c) @ written_on c s)
     \<and> (\<forall>nm. mset (pending_for nm ct0) + mset (given_to nm s)
          = mset (written_for nm s) + all_in_hand nm s + mset (pending_for nm (px_controller s)))"

lemma phase_ok_keeps:
  assumes "phase_ok ct ph" and "advances ph1 ct ph2 ct'"
  shows "phase_ok ct' ph"
  using assms by (cases ph) (auto simp: advances_def)

lemma all_in_hand_step:
  assumes "t < length (px_threads s)" and "in_hand nm (px_threads s ! t) = []"
  shows "(\<Sum>ph \<leftarrow> (px_threads s)[t := ph']. mset (in_hand nm ph)) = all_in_hand nm s + mset (in_hand nm ph')"
  using sum_list_change [OF assms(1), of "\<lambda>ph. mset (in_hand nm ph)" ph'] assms(2) by (simp add: all_in_hand_def)

lemma peers_reach_inv:
  assumes "peers_reach ct0 n s" and "peers_ok ct0"
  shows "peers_inv ct0 s \<and> length (px_threads s) = n"
  using assms(1)
proof (induction rule: peers_reach.induct)
  case px_new
  have "all_in_hand nm \<lparr>px_controller = ct0, px_threads = replicate n Idle, px_given = [], px_written = []\<rparr> = {#}" for nm
    by (induction n) (simp_all add: all_in_hand_def)
  then show ?case
    using assms(2) by (simp add: peers_inv_def written_on_def written_for_def given_to_def list_all_length)
next
  case (px_send s t nm p)
  then show ?case
    using all_in_hand_step [of t s] by (auto simp: peers_inv_def list_all_length nth_list_update written_on_def written_for_def given_to_def
        all_in_hand_def)
next
  case (px_add s t c nm start)
  then show ?case
    using all_in_hand_step [of t s] by (auto simp: peers_inv_def list_all_length nth_list_update written_on_def written_for_def given_to_def
        all_in_hand_def)
next
  case (px_step s t ph ct)
  let ?ph = "px_threads s ! t" and ?ct = "px_controller s"
  let ?s = "s\<lparr>px_controller := ct, px_threads := (px_threads s)[t := ph], px_written := px_written s @ writes ?ph ?ct\<rparr>"
  have t: "t < length (px_threads s)" and ok: "list_all (phase_ok ?ct) (px_threads s)" using px_step by (auto simp: peers_inv_def)
  have inv: "peers_inv ct0 s" using px_step by blast
  have adv: "advances ?ph ?ct ph ct"
    using next_section_advances [OF _ _ px_step(3)] inv t ok by (simp add: peers_inv_def list_all_length)
  have "mset (pending_for nm ct0) + mset (given_to nm ?s) = mset (written_for nm ?s) + all_in_hand nm ?s + mset (pending_for nm ct)" for nm
  proof -
    let ?w = "mset (map (\<lambda>(x, d, p). p) (filter (\<lambda>(x, d, p). x = nm) (writes ?ph ?ct)))"
    have 1: "all_in_hand nm ?s + mset (in_hand nm ?ph) = all_in_hand nm s + mset (in_hand nm ph)"
      using sum_list_change [OF t, of "\<lambda>ph. mset (in_hand nm ph)" ph] by (simp add: all_in_hand_def)
    have 2: "mset (in_hand nm ?ph) + mset (pending_for nm ?ct) = mset (in_hand nm ph) + mset (pending_for nm ct) + ?w"
      using adv unfolding advances_def by blast
    have 3: "mset (pending_for nm ct0) + mset (given_to nm s) = mset (written_for nm s) + all_in_hand nm s + mset (pending_for nm ?ct)"
      using inv by (simp add: peers_inv_def)
    have 4: "mset (written_for nm ?s) = mset (written_for nm s) + ?w" "given_to nm ?s = given_to nm s"
      by (simp_all add: written_for_def given_to_def)
    have "mset (pending_for nm ct0) + mset (given_to nm ?s) + mset (in_hand nm ph)
        = mset (written_for nm s) + (all_in_hand nm s + mset (in_hand nm ph)) + mset (pending_for nm ?ct)"
      by (simp add: 3 4 ac_simps)
    also have "\<dots> = mset (written_for nm s) + all_in_hand nm ?s + (mset (in_hand nm ?ph) + mset (pending_for nm ?ct))"
      by (simp only: 1 [symmetric] ac_simps)
    also have "\<dots> = (mset (written_for nm ?s) + all_in_hand nm ?s + mset (pending_for nm ct)) + mset (in_hand nm ph)"
      unfolding 2 4 by (simp add: ac_simps)
    finally show ?thesis by simp
  qed
  moreover have "list_all (phase_ok ct) (px_threads ?s)"
    using ok adv phase_ok_keeps [OF _ adv]
    by (auto simp: list_all_iff advances_def dest!: set_update_subset_insert [THEN subsetD])
  moreover have "\<forall>(nm, c, p) \<in> set (px_written ?s). ct_peers ct nm = Some c"
    using inv adv by (fastforce simp: peers_inv_def advances_def)
  moreover have "\<forall>c < length (ct_channels ct0). outbox (ct_channels ct ! c) = outbox (ct_channels ct0 ! c) @ written_on c ?s"
    using inv adv by (simp add: peers_inv_def advances_def)
  ultimately show ?case
    using inv adv px_step by (simp add: peers_inv_def advances_def)
qed

lemma all_idle_in_hand: "\<forall>ph \<in> set (px_threads s). ph = Idle \<Longrightarrow> all_in_hand nm s = {#}"
proof -
  have "\<forall>ph \<in> set phs. ph = Idle \<Longrightarrow> (\<Sum>ph \<leftarrow> phs. mset (in_hand nm ph)) = {#}" for phs
    by (induction phs) simp_all
  then show "\<forall>ph \<in> set (px_threads s). ph = Idle \<Longrightarrow> all_in_hand nm s = {#}" by (simp add: all_in_hand_def)
qed

lemma write_section:
  assumes "peers_ok ct" and "ct_peers ct nm = Some c"
  shows "\<exists>r. rbind (with_channel (Some c) (\<lambda>nc. Inr (send_channel_message p nc)) ct) (\<lambda>ct1. Inr (ph, ct1)) = Inr r"
  using assms by (simp add: peers_ok_def effect_simps)

lemma sections_total:
  assumes "peers_ok ct" and "phase_ok ct ph" and "\<forall>nm c ps. ph \<noteq> Starting nm c True ps"
  shows "\<exists>r. next_section ph ct = Inr r"
proof (cases ph)
  case (Found nm c p)
  then show ?thesis using write_section [OF assms(1)] assms(2) by (simp del: split_paired_Ex)
next
  case (Missed nm p)
  then show ?thesis using write_section [OF assms(1)] by (cases "ct_peers ct nm") (simp_all del: split_paired_Ex)
next
  case (Flushing nm c ps)
  then show ?thesis using write_section [OF assms(1)] assms(2) by (cases ps) (simp_all del: split_paired_Ex)
qed (use assms in \<open>auto simp: effect_simps split: option.splits prod.splits\<close>)

section \<open>Properties\<close>

text \<open>
  C24: However calls of \<^verbatim>\<open>SendPeerEvent\<close> and \<^verbatim>\<open>AddPeer\<close> interleave, every message given for a node, or pending for it at
  first, is at every moment in exactly one place: written, pending or in the hands of one call; each channel
  holds what it held and then what was written to it, and messages for a node are written only to the channel it is entered
  with. No section faults but the start of a channel. When all calls have returned, the messages for a node
  that is a peer have all been written, and those for one that is not are all pending.
\<close>

theorem peer_calls_lose_nothing:
  assumes "peers_reach ct0 n s" and "peers_ok ct0"
  shows "(\<forall>nm. mset (pending_for nm ct0) + mset (given_to nm s)
        = mset (written_for nm s) + all_in_hand nm s + mset (pending_for nm (px_controller s)))
    \<and> (\<forall>c < length (ct_channels ct0). outbox (ct_channels (px_controller s) ! c) = outbox (ct_channels ct0 ! c) @ written_on c s)
    \<and> (\<forall>(nm, c, p) \<in> set (px_written s). ct_peers (px_controller s) nm = Some c)
    \<and> (\<forall>ph \<in> set (px_threads s). (\<forall>nm c ps. ph \<noteq> Starting nm c True ps) \<longrightarrow> (\<exists>r. next_section ph (px_controller s) = Inr r))
    \<and> ((\<forall>ph \<in> set (px_threads s). ph = Idle) \<longrightarrow>
        (\<forall>nm. (ct_peers (px_controller s) nm = None \<longrightarrow> written_for nm s = []
              \<and> mset (pending_for nm (px_controller s)) = mset (pending_for nm ct0) + mset (given_to nm s))
          \<and> (\<forall>c. ct_peers (px_controller s) nm = Some c \<longrightarrow> pending_for nm (px_controller s) = []
              \<and> mset (written_for nm s) = mset (pending_for nm ct0) + mset (given_to nm s))))"
proof -
  have inv: "peers_inv ct0 s" using peers_reach_inv [OF assms] by blast
  have none: "written_for nm s = []" if "ct_peers (px_controller s) nm = None" for nm
    using inv that by (fastforce simp: peers_inv_def written_for_def filter_empty_conv)
  have "\<exists>r. next_section ph (px_controller s) = Inr r"
    if "ph \<in> set (px_threads s)" "\<forall>nm c ps. ph \<noteq> Starting nm c True ps" for ph
    using sections_total [of "px_controller s" ph] inv that by (simp add: peers_inv_def list_all_iff)
  then show ?thesis
    using inv none all_idle_in_hand [of s] unfolding peers_inv_def peers_ok_def by simp
qed

text \<open>
  A thread sends \<open>p\<close> to a node that is not a peer yet; another adds the peer; between its locked section and its
  flush the first thread sends \<open>q\<close>.
\<close>

lemma px_stepI:
  assumes "peers_reach ct0 n \<lparr>px_controller = ct, px_threads = ts, px_given = gs, px_written = ws\<rparr>" and "t < n"
    and "next_section (ts ! t) ct = Inr (ph, ct')"
  shows "peers_reach ct0 n \<lparr>px_controller = ct', px_threads = ts[t := ph], px_given = gs, px_written = ws @ writes (ts ! t) ct\<rparr>"
  using px_step [OF assms(1,2)] assms(3) by simp

lemma overtaking_run:
  assumes "peers_ok ct" and "ct_peers ct nm = None" and "pending_for nm ct = []" and "c < length (ct_channels ct)"
  shows "\<exists>ct'. peers_reach ct 2 \<lparr>px_controller = ct', px_threads = [Idle, Idle], px_given = [(nm, p), (nm, q)],
    px_written = [(nm, c, q), (nm, c, p)]\<rparr>"
proof -
  let ?S = "\<lambda>ct a b gs ws. \<lparr>px_controller = ct, px_threads = [a, b], px_given = gs, px_written = ws\<rparr>"
  let ?g = "[(nm, p)]" and ?w = "\<lambda>p. with_channel (Some c) (\<lambda>nc. Inr (send_channel_message p nc))"
  note step0 = px_stepI [where t = 0 and n = 2, simplified] and step1 = px_stepI [where t = 1 and n = 2, simplified]
  have 0: "peers_reach ct 2 (?S ct Idle Idle [] [])" using px_new [of ct 2] by (simp add: numeral_2_eq_2)
  have "peers_reach ct 2 (?S ct (Looking nm p) Idle ?g [])" using px_send [OF 0, of 0 nm p] by simp
  from step0 [OF this] have "peers_reach ct 2 (?S ct (Missed nm p) Idle ?g [])" using assms(2) by (simp add: get_peer_channel_def)
  from step0 [OF this] have 1: "peers_reach ct 2 (?S (pend nm p ct) Idle Idle ?g [])" using assms(2) by simp
  have "peers_reach ct 2 (?S (pend nm p ct) Idle (Adding nm c False) ?g [])" using px_add [OF 1, of 1 c nm False] assms(4) by simp
  then obtain ct2 where 2: "peers_reach ct 2 (?S ct2 Idle (Inserting nm c False) ?g [])" and ct2: "ct_peers ct2 nm = None" "pending_for nm ct2 = [p]"
    using step1 [of _ "pend nm p ct" "[Idle, Adding nm c False]" ?g "[]"] assms by (force simp: effect_simps)
  obtain ps ct3 where ins: "insert_peer nm c ct2 = (ps, ct3)" by force
  note ins' = insert_peer_sel [OF ins]
  from step1 [OF 2] have 3: "peers_reach ct 2 (?S ct3 Idle (Starting nm c False [p]) ?g [])" using ct2 ins ins'(1) by simp
  from step1 [OF 3] have 4: "peers_reach ct 2 (?S ct3 Idle (Flushing nm c [p]) ?g [])" by simp
  have ok: "peers_ok ct3" using peers_reach_inv [OF 4 assms(1)] by (simp add: peers_inv_def)
  have "peers_reach ct 2 (?S ct3 (Looking nm q) (Flushing nm c [p]) (?g @ [(nm, q)]) [])" using px_send [OF 4, of 0 nm q] by simp
  from step0 [OF this] have 5: "peers_reach ct 2 (?S ct3 (Found nm c q) (Flushing nm c [p]) (?g @ [(nm, q)]) [])"
    using ins'(2) by (simp add: get_peer_channel_def)
  obtain ct4 where w: "?w q ct3 = Inr ct4" using write_possible [OF ok, of nm c] ins'(2) by auto
  from step0 [OF 5] have 6: "peers_reach ct 2 (?S ct4 Idle (Flushing nm c [p]) (?g @ [(nm, q)]) [(nm, c, q)])" using w by simp
  obtain ct5 where w': "?w p ct4 = Inr ct5"
    using write_possible [OF write_effect(1) [OF ok _ w], of nm nm c] write_effect(2) [OF ok _ w, of nm] ins'(2) by auto
  from step1 [OF 6] have 7: "peers_reach ct 2 (?S ct5 Idle (Flushing nm c []) (?g @ [(nm, q)]) [(nm, c, q), (nm, c, p)])" using w' by simp
  from step1 [OF 7] show ?thesis by auto
qed

text \<open>
  C26: A message can overtake an earlier one of the same thread: when it is sent after \<^verbatim>\<open>AddPeer\<close> has entered the peer and
  before it has handed over what was pending, the channel gets the later message first. When
  \<^verbatim>\<open>AddPeer\<close> runs undisturbed, the order is kept.
\<close>

theorem sends_can_overtake:
  assumes "peers_ok ct" and "ct_peers ct nm = None" and "pending_for nm ct = []" and "c < length (ct_channels ct)"
  shows "(\<exists>s. peers_reach ct 2 s \<and> px_given s = [(nm, p), (nm, q)] \<and> px_threads s = [Idle, Idle]
      \<and> outbox (ct_channels (px_controller s) ! c) = outbox (ct_channels ct ! c) @ [q, p])
    \<and> (\<exists>n m ct1 ct2 ct3. sections n (Looking nm p) ct = Inr (Idle, ct1) \<and> sections m (Adding nm c False) ct1 = Inr (Idle, ct2)
      \<and> sections n (Looking nm q) ct2 = Inr (Idle, ct3)
      \<and> outbox (ct_channels ct3 ! c) = outbox (ct_channels ct ! c) @ [p, q])"
proof (rule conjI)
  obtain ct' where r: "peers_reach ct 2 \<lparr>px_controller = ct', px_threads = [Idle, Idle], px_given = [(nm, p), (nm, q)],
    px_written = [(nm, c, q), (nm, c, p)]\<rparr>"
    using overtaking_run [OF assms] by blast
  moreover have "outbox (ct_channels ct' ! c) = outbox (ct_channels ct ! c) @ [q, p]"
    using peers_reach_inv [OF r assms(1)] assms(4) by (simp add: peers_inv_def written_on_def)
  ultimately show "\<exists>s. peers_reach ct 2 s \<and> px_given s = [(nm, p), (nm, q)] \<and> px_threads s = [Idle, Idle]
      \<and> outbox (ct_channels (px_controller s) ! c) = outbox (ct_channels ct ! c) @ [q, p]"
    by (intro exI [of _ "\<lparr>px_controller = ct', px_threads = [Idle, Idle], px_given = [(nm, p), (nm, q)],
      px_written = [(nm, c, q), (nm, c, p)]\<rparr>"]) simp
next
  let ?ct1 = "pend nm p ct"
  have "sections 2 (Looking nm p) ct = Inr (Idle, ?ct1)"
    using assms(2) by (simp add: numeral_2_eq_2 get_peer_channel_def)
  moreover obtain m where "sections m (Adding nm c False) ?ct1 = rbind (add_peer nm (Some c) False ?ct1) (\<lambda>ct2. Inr (Idle, ct2))"
    using adding_alone by blast
  moreover have op: "is_open (ct_channels ct ! c)" using assms(1,4) by (simp add: peers_ok_def list_all_length)
  moreover obtain ct2 where "add_peer nm (Some c) False ?ct1 = Inr ct2" and ct2: "ct_peers ct2 nm = Some c"
    "outbox (ct_channels ct2 ! c) = outbox (ct_channels ct ! c) @ [p]" "is_open (ct_channels ct2 ! c)" "c < length (ct_channels ct2)"
    using assms op add_peer_new [of c ?ct1 nm] by (simp add: outbox_send)
  moreover have "sections 2 (Looking nm q) ct2 =
      Inr (Idle, ct2\<lparr>ct_channels := (ct_channels ct2)[c := send_channel_message q (ct_channels ct2 ! c)]\<rparr>)"
    using ct2 by (simp add: numeral_2_eq_2 get_peer_channel_def effect_simps)
  ultimately show "\<exists>n m ct1 ct2 ct3. sections n (Looking nm p) ct = Inr (Idle, ct1) \<and> sections m (Adding nm c False) ct1 = Inr (Idle, ct2)
      \<and> sections n (Looking nm q) ct2 = Inr (Idle, ct3)
      \<and> outbox (ct_channels ct3 ! c) = outbox (ct_channels ct ! c) @ [p, q]"
    by - (rule exI [of _ 2], rule exI [of _ m], rule exI [of _ ?ct1], rule exI [of _ ct2], simp add: outbox_send)
qed

text \<open>For the witnesses: the controller of one channel, and the two messages.\<close>

lemma sample_peers_ok: "peers_ok sample_controller" "pending_for nm sample_controller = []"
  by (simp_all add: peers_ok_def sample_sel pending_for_def is_open_def)

theorem sends_can_overtake_witness:
  "\<exists>s. peers_reach sample_controller 2 s \<and> px_threads s = [Idle, Idle]
    \<and> outbox (ct_channels (px_controller s) ! 0) = [protocol_create kUserMessage [2], protocol_create kUserMessage [1]]"
proof -
  have "outbox (ct_channels sample_controller ! 0) = []" by (simp add: sample_sel outbox_def channel_new_def)
  then show ?thesis
    using sends_can_overtake [OF sample_peers_ok(1) _ sample_peers_ok(2), of "Name 7 7" 0
      "protocol_create kUserMessage [1]" "protocol_create kUserMessage [2]"] by (auto simp: sample_sel)
qed

theorem peer_calls_lose_nothing_witness:
  "\<exists>s. peers_reach sample_controller 2 s
    \<and> mset (written_for (Name 7 7) s) = {#protocol_create kUserMessage [1], protocol_create kUserMessage [2]#}
    \<and> pending_for (Name 7 7) (px_controller s) = []"
proof -
  obtain ct' where s: "peers_reach sample_controller 2 \<lparr>px_controller = ct', px_threads = [Idle, Idle],
      px_given = [(Name 7 7, protocol_create kUserMessage [1]), (Name 7 7, protocol_create kUserMessage [2])],
      px_written = [(Name 7 7, 0, protocol_create kUserMessage [2]), (Name 7 7, 0, protocol_create kUserMessage [1])]\<rparr>"
    using overtaking_run [OF sample_peers_ok(1) _ sample_peers_ok(2), of "Name 7 7" 0
      "protocol_create kUserMessage [1]" "protocol_create kUserMessage [2]"] by (auto simp: sample_sel)
  from peer_calls_lose_nothing [OF s sample_peers_ok(1)] show ?thesis
    using s by (intro exI [of _ "\<lparr>px_controller = ct', px_threads = [Idle, Idle],
      px_given = [(Name 7 7, protocol_create kUserMessage [1]), (Name 7 7, protocol_create kUserMessage [2])],
      px_written = [(Name 7 7, 0, protocol_create kUserMessage [2]), (Name 7 7, 0, protocol_create kUserMessage [1])]\<rparr>"])
     (auto simp: written_for_def given_to_def sample_peers_ok(2))
qed

end
