(* ===== verification/Merge_Threads.thy ===== *)
theory Merge_Threads
  imports Peer_Threads "HOL-Library.Sublist"
begin

text \<open>
  A port merge and the answer to an invitation at the same time: any threads call \<^verbatim>\<open>MergePortIntoInviter\<close> while
  the event thread runs \<^verbatim>\<open>OnAcceptInvitee\<close> (\<^verbatim>\<open>src/core/node_controller.cc\<close>). A merge for an inviter that is not known
  yet is left for the event thread, which takes what was left under the same lock, \<^verbatim>\<open>pending_port_merges_lock_\<close>.
  A merge holds that lock over several steps; the other locks are held for one step.
\<close>

section \<open>The calls, section by section\<close>

datatype merge_phase =
    MIdle
  | Calling bytes port_ref               \<comment> \<open>\<^verbatim>\<open>MergePortIntoInviter\<close>: before the lock\<close>
  | Locked bytes port_ref                \<comment> \<open>with the lock\<close>
  | Named bytes port_ref node_name       \<comment> \<open>with the lock, and the name of the inviter read\<close>
  | Unfound bytes port_ref               \<comment> \<open>with the lock, and no channel found\<close>
  | Requesting nat bytes port_ref        \<comment> \<open>without the lock, with the channel\<close>

fun holds :: "merge_phase \<Rightarrow> bool" where
  "holds (Locked nm r) \<longleftrightarrow> True"
| "holds (Named nm r a) \<longleftrightarrow> True"
| "holds (Unfound nm r) \<longleftrightarrow> True"
| "holds _ \<longleftrightarrow> False"

fun merge_section :: "(nat \<Rightarrow> nat \<Rightarrow> byte) \<Rightarrow> merge_phase \<Rightarrow> controller \<Rightarrow> (merge_phase \<times> controller) res" where
  "merge_section fresh MIdle ct = Inr (MIdle, ct)"
| "merge_section fresh (Calling nm r) ct = Inr (Locked nm r, ct)"
| "merge_section fresh (Locked nm r) ct = Inr (Named nm r (ct_inviter_name ct), ct)"
| "merge_section fresh (Named nm r a) ct =
     (case get_peer_channel a ct of
        None \<Rightarrow> Inr (Unfound nm r, ct)
      | Some c \<Rightarrow> Inr (Requesting c nm r, ct))"
| "merge_section fresh (Unfound nm r) ct =
     Inr (MIdle, ct\<lparr>ct_pending_port_merges := ct_pending_port_merges ct @ [(nm, r)]\<rparr>)"
| "merge_section fresh (Requesting c nm r) ct =
     rbind (with_channel (Some c) (nc_request_port_merge fresh (pr_name r) nm) ct) (\<lambda>ct1. Inr (MIdle, ct1))"

datatype event_phase =
    Waiting
  | Naming node_name node_name           \<comment> \<open>\<^verbatim>\<open>OnAcceptInvitee\<close>: at its start, with the inviter's name and the token\<close>
  | Presenting node_name node_name       \<comment> \<open>the inviter's name is set\<close>
  | Answering node_name node_name        \<comment> \<open>the channel has the name too\<close>
  | Entering peer_phase                  \<comment> \<open>in \<^verbatim>\<open>AddPeer\<close>\<close>
  | Handling                             \<comment> \<open>\<^verbatim>\<open>HandlePendingMergePort\<close>: before its lock\<close>
  | Sending "(bytes \<times> port_ref) list"

fun accept_section :: "(nat \<Rightarrow> nat \<Rightarrow> byte) \<Rightarrow> event_phase \<Rightarrow> controller \<Rightarrow> (event_phase \<times> controller) res" where
  "accept_section fresh (Naming a token) ct = Inr (Presenting a token, ct\<lparr>ct_inviter_name := a\<rparr>)"
| "accept_section fresh (Presenting a token) ct =
     rbind (with_channel (ct_inviter_channel ct) (\<lambda>nc. Inr (set_remote_node_name a nc)) ct) (\<lambda>ct1.
       Inr (Answering a token, ct1))"
| "accept_section fresh (Answering a token) ct =
     rbind (with_channel (ct_inviter_channel ct) (nc_accept_invitation fresh token (ct_name ct)) ct) (\<lambda>ct1.
       Inr (Entering (Adding a (the (ct_inviter_channel ct1)) False), ct1))"
| "accept_section fresh (Entering ph) ct =
     rbind (add_section ph ct) (\<lambda>(ph1, ct1). Inr (if ph1 = Idle then Handling else Entering ph1, ct1))"
| "accept_section fresh ph ct = Inr (ph, ct)"

fun handle_section :: "(nat \<Rightarrow> nat \<Rightarrow> byte) \<Rightarrow> event_phase \<Rightarrow> controller \<Rightarrow> (event_phase \<times> controller) res" where
  "handle_section fresh Handling ct =
     Inr (Sending (ct_pending_port_merges ct), ct\<lparr>ct_pending_port_merges := []\<rparr>)"
| "handle_section fresh (Sending []) ct = Inr (Waiting, ct)"
| "handle_section fresh (Sending ((nm, r) # rs)) ct =
     rbind (with_channel (get_inviter_channel ct) (nc_request_port_merge fresh (pr_name r) nm) ct) (\<lambda>ct1.
       Inr (Sending rs, ct1))"
| "handle_section fresh ph ct = Inr (ph, ct)"

definition event_section :: "(nat \<Rightarrow> nat \<Rightarrow> byte) \<Rightarrow> event_phase \<Rightarrow> controller \<Rightarrow> (event_phase \<times> controller) res" where
  "event_section fresh ph ct =
     (case ph of Handling \<Rightarrow> handle_section fresh ph ct | Sending rs \<Rightarrow> handle_section fresh ph ct | _ \<Rightarrow> accept_section fresh ph ct)"

lemma event_section_accepts [simp]:
  "event_section fresh Waiting = accept_section fresh Waiting" "event_section fresh (Naming a token) = accept_section fresh (Naming a token)"
  "event_section fresh (Presenting a token) = accept_section fresh (Presenting a token)"
  "event_section fresh (Answering a token) = accept_section fresh (Answering a token)"
  "event_section fresh (Entering ph) = accept_section fresh (Entering ph)"
  and event_section_handles [simp]: "event_section fresh Handling = handle_section fresh Handling"
  "event_section fresh (Sending rs) = handle_section fresh (Sending rs)"
  by (simp_all add: fun_eq_iff event_section_def)

section \<open>Alone, they are the sequential calls\<close>

fun merge_alone :: "(nat \<Rightarrow> nat \<Rightarrow> byte) \<Rightarrow> nat \<Rightarrow> merge_phase \<Rightarrow> controller \<Rightarrow> (merge_phase \<times> controller) res" where
  "merge_alone fresh 0 ph ct = Inr (ph, ct)"
| "merge_alone fresh (Suc n) ph ct = rbind (merge_section fresh ph ct) (\<lambda>(ph1, ct1). merge_alone fresh n ph1 ct1)"

fun event_alone :: "(nat \<Rightarrow> nat \<Rightarrow> byte) \<Rightarrow> nat \<Rightarrow> event_phase \<Rightarrow> controller \<Rightarrow> (event_phase \<times> controller) res" where
  "event_alone fresh 0 ph ct = Inr (ph, ct)"
| "event_alone fresh (Suc n) ph ct = rbind (event_section fresh ph ct) (\<lambda>(ph1, ct1). event_alone fresh n ph1 ct1)"

lemma merge_alone_eq:
  "merge_alone fresh 4 (Calling nm r) ct = rbind (merge_port_into_inviter fresh nm r ct) (\<lambda>ct1. Inr (MIdle, ct1))"
  by (simp add: eval_nat_numeral merge_port_into_inviter_def get_inviter_channel_def rbind_assoc split: option.splits)

lemma event_alone_add:
  "event_alone fresh m ph ct = Inr (ph1, ct1) \<Longrightarrow> event_alone fresh (m + n) ph ct = event_alone fresh n ph1 ct1"
  by (induction m arbitrary: ph ct) (auto simp: rbind_eq_Inr_iff)

lemma sending_done:
  "request_merges fresh rs ct = Inr ct' \<Longrightarrow> event_alone fresh (Suc (length rs)) (Sending rs) ct = Inr (Waiting, ct')"
  by (induction fresh rs ct rule: request_merges.induct) (auto simp: rbind_eq_Inr_iff)

lemma add_section_phase: "\<not> is_sending ph \<Longrightarrow> add_section ph ct = Inr (ph1, ct1) \<Longrightarrow> \<not> is_sending ph1"
  by (induction ph ct rule: add_section.induct) (auto simp: rbind_eq_Inr_iff split: if_splits prod.splits)

lemma entering_done:
  assumes "sections n ph ct = Inr (Idle, ct')" and "\<not> is_sending ph" and "ph \<noteq> Idle"
  shows "\<exists>k. event_alone fresh k (Entering ph) ct = Inr (Handling, ct')"
  using assms
proof (induction n arbitrary: ph ct)
  case (Suc n)
  obtain ph1 ct1 where 1: "add_section ph ct = Inr (ph1, ct1)" "sections n ph1 ct1 = Inr (Idle, ct')"
    using Suc.prems by (auto simp: next_section_def rbind_eq_Inr_iff)
  show ?case
  proof (cases "ph1 = Idle")
    case True
    then show ?thesis using 1 by (intro exI [of _ 1]) simp
  next
    case False
    obtain k where "event_alone fresh k (Entering ph1) ct1 = Inr (Handling, ct')"
      using Suc.IH [OF 1(2) add_section_phase [OF Suc.prems(2) 1(1)] False] by blast
    then show ?thesis using 1(1) False by (intro exI [of _ "Suc k"]) simp
  qed
qed simp

lemma event_alone_eq:
  assumes "on_accept_invitee fresh from a token ct = Inr ct'"
  shows "\<exists>n. event_alone fresh n (Naming a token) ct = Inr (Waiting, ct')"
proof -
  obtain ct2 ct3 ct4 where
    2: "with_channel (ct_inviter_channel ct) (\<lambda>nc. Inr (set_remote_node_name a nc)) (ct\<lparr>ct_inviter_name := a\<rparr>) = Inr ct2"
    and 3: "with_channel (ct_inviter_channel ct) (nc_accept_invitation fresh token (ct_name ct2)) ct2 = Inr ct3"
    and 4: "add_peer a (ct_inviter_channel ct) False ct3 = Inr ct4" and 5: "handle_pending_merge_port fresh ct4 = Inr ct'"
    using assms by (auto simp: on_accept_invitee_def Let_def rbind_eq_Inr_iff)
  obtain c where c: "ct_inviter_channel ct = Some c" "ct_inviter_channel ct2 = Some c" "ct_inviter_channel ct3 = Some c"
    using 2 3 by (auto simp: with_channel_eq)
  have "event_alone fresh 3 (Naming a token) ct = Inr (Entering (Adding a c False), ct3)"
    using 2 3 c by (simp add: numeral_3_eq_3)
  moreover obtain n where "sections n (Adding a c False) ct3 = Inr (Idle, ct4)"
    using adding_alone [of a c False ct3] 4 c(1) by auto
  then obtain k where "event_alone fresh k (Entering (Adding a c False)) ct3 = Inr (Handling, ct4)"
    using entering_done by fastforce
  moreover have "event_alone fresh (Suc (Suc (length (ct_pending_port_merges ct4)))) Handling ct4 = Inr (Waiting, ct')"
    using sending_done [of fresh "ct_pending_port_merges ct4" "ct4\<lparr>ct_pending_port_merges := []\<rparr>" ct'] 5
    by (simp add: handle_pending_merge_port_def)
  ultimately show ?thesis using event_alone_add by metis
qed

section \<open>Threads\<close>

record merge_system =
  mg_controller :: controller
  mg_threads :: "merge_phase list"
  mg_event :: event_phase
  mg_given :: "(bytes \<times> port_ref) list"            \<comment> \<open>the merges called for, in order\<close>
  mg_sent :: "(nat \<times> bytes \<times> port_ref) list"      \<comment> \<open>the requests written to channels, in order\<close>

definition lock_free :: "merge_system \<Rightarrow> bool" where
  "lock_free s \<longleftrightarrow> (\<forall>ph \<in> set (mg_threads s). \<not> holds ph)"

fun requests :: "merge_phase \<Rightarrow> (nat \<times> bytes \<times> port_ref) list" where
  "requests (Requesting c nm r) = [(c, nm, r)]"
| "requests _ = []"

fun event_requests :: "event_phase \<Rightarrow> controller \<Rightarrow> (nat \<times> bytes \<times> port_ref) list" where
  "event_requests (Sending ((nm, r) # rs)) ct = [(the (get_inviter_channel ct), nm, r)]"
| "event_requests _ ct = []"

text \<open>Taking the lock, in \<open>Calling\<close> and \<open>Handling\<close>, waits until it is free.\<close>

inductive merges_reach :: "(nat \<Rightarrow> nat \<Rightarrow> byte) \<Rightarrow> controller \<Rightarrow> nat \<Rightarrow> merge_system \<Rightarrow> bool" for fresh ct0 n where
  mg_new: "merges_reach fresh ct0 n \<lparr>mg_controller = ct0, mg_threads = replicate n MIdle, mg_event = Waiting, mg_given = [], mg_sent = []\<rparr>"
| mg_call: "merges_reach fresh ct0 n s \<Longrightarrow> t < n \<Longrightarrow> mg_threads s ! t = MIdle
    \<Longrightarrow> merges_reach fresh ct0 n (s\<lparr>mg_threads := (mg_threads s)[t := Calling nm r], mg_given := mg_given s @ [(nm, r)]\<rparr>)"
| mg_accept: "merges_reach fresh ct0 n s \<Longrightarrow> mg_event s = Waiting \<Longrightarrow> merges_reach fresh ct0 n (s\<lparr>mg_event := Naming a token\<rparr>)"
| mg_merge: "merges_reach fresh ct0 n s \<Longrightarrow> t < n \<Longrightarrow> (\<forall>nm r. mg_threads s ! t = Calling nm r \<longrightarrow> lock_free s)
    \<Longrightarrow> merge_section fresh (mg_threads s ! t) (mg_controller s) = Inr (ph, ct)
    \<Longrightarrow> merges_reach fresh ct0 n (s\<lparr>mg_controller := ct, mg_threads := (mg_threads s)[t := ph],
          mg_sent := mg_sent s @ requests (mg_threads s ! t)\<rparr>)"
| mg_event: "merges_reach fresh ct0 n s \<Longrightarrow> (mg_event s = Handling \<longrightarrow> lock_free s)
    \<Longrightarrow> event_section fresh (mg_event s) (mg_controller s) = Inr (ph, ct)
    \<Longrightarrow> merges_reach fresh ct0 n (s\<lparr>mg_controller := ct, mg_event := ph,
          mg_sent := mg_sent s @ event_requests (mg_event s) (mg_controller s)\<rparr>)"

section \<open>What the sections keep\<close>

definition inviter_ok :: "controller \<Rightarrow> bool" where
  "inviter_ok ct \<longleftrightarrow> peers_ok ct \<and> (\<exists>c < length (ct_channels ct). ct_inviter_channel ct = Some c)"

definition merge_request_of :: "bytes \<Rightarrow> port_ref \<Rightarrow> protocol" where
  "merge_request_of nm r = protocol_create kRequestPortMerge (message_bytes (RequestPortMerge (pr_name r) nm))"

text \<open>A step adds messages to channels and changes nothing that a merge looks at but the tables named.\<close>

definition extends :: "controller \<Rightarrow> controller \<Rightarrow> bool" where
  "extends ct ct' \<longleftrightarrow> inviter_ok ct' \<and> length (ct_channels ct') = length (ct_channels ct)
     \<and> (\<forall>nm c. ct_peers ct nm = Some c \<longrightarrow> ct_peers ct' nm = Some c)
     \<and> (\<forall>d < length (ct_channels ct). \<exists>ps. outbox (ct_channels ct' ! d) = outbox (ct_channels ct ! d) @ ps)"

lemma inviter_ok_open: "inviter_ok ct \<Longrightarrow> c < length (ct_channels ct) \<Longrightarrow> is_open (ct_channels ct ! c)"
  by (simp add: inviter_ok_def peers_ok_def list_all_length)

lemma inviter_ok_peer: "inviter_ok ct \<Longrightarrow> ct_peers ct a = Some c \<Longrightarrow> c < length (ct_channels ct)"
  by (simp add: inviter_ok_def peers_ok_def)

lemma set_channel_ok:
  "inviter_ok ct \<Longrightarrow> is_open nc \<Longrightarrow> inviter_ok (ct\<lparr>ct_channels := (ct_channels ct)[c := nc]\<rparr>)"
  by (auto simp: inviter_ok_def peers_ok_def list_all_iff dest!: set_update_subset_insert [THEN subsetD])

lemma request_step:
  assumes "inviter_ok ct" and "c < length (ct_channels ct)"
  shows "with_channel (Some c) (nc_request_port_merge fresh (pr_name r) nm) ct =
      Inr (ct\<lparr>ct_channels := (ct_channels ct)[c := send_channel_message (merge_request_of nm r) (ct_channels ct ! c)]\<rparr>)"
    and "extends ct (ct\<lparr>ct_channels := (ct_channels ct)[c := send_channel_message p (ct_channels ct ! c)]\<rparr>)"
    and "outbox (send_channel_message p (ct_channels ct ! c)) = outbox (ct_channels ct ! c) @ [p]"
  using assms inviter_ok_open [OF assms]
  by (auto simp: effect_simps merge_request_of_def extends_def set_channel_ok nth_list_update outbox_send)

lemma merge_section_total: "inviter_ok ct \<Longrightarrow> (\<And>c nm r. ph = Requesting c nm r \<Longrightarrow> c < length (ct_channels ct))
    \<Longrightarrow> \<exists>ph1 ct1. merge_section fresh ph ct = Inr (ph1, ct1)"
  by (cases ph) (auto simp: request_step split: option.splits)

text \<open>A phase in the middle of entering the node \<open>a\<close>.\<close>

fun enters :: "node_name \<Rightarrow> peer_phase \<Rightarrow> bool" where
  "enters a (Adding nm c start) \<longleftrightarrow> nm = a \<and> \<not> start"
| "enters a (Inserting nm c start) \<longleftrightarrow> nm = a \<and> \<not> start"
| "enters a (Starting nm c start ps) \<longleftrightarrow> nm = a \<and> \<not> start"
| "enters a (Flushing nm c ps) \<longleftrightarrow> nm = a"
| "enters a _ \<longleftrightarrow> False"

lemma add_section_same:
  assumes "add_section ph ct = Inr (ph1, ct1)" and "enters a ph"
  shows "ct_inviter_channel ct1 = ct_inviter_channel ct" "ct_inviter_name ct1 = ct_inviter_name ct"
    "ct_pending_port_merges ct1 = ct_pending_port_merges ct"
  using assms
  by (induction ph ct rule: add_section.induct)
     (auto simp: with_channel_eq rbind_eq_Inr_iff insert_peer_def Let_def split: if_splits prod.splits option.splits)

lemma add_section_enters:
  assumes "peers_ok ct" and "phase_ok ct ph" and "enters a ph" and "add_section ph ct = Inr (ph1, ct1)"
  shows "advances ph ct ph1 ct1" and "if ph1 = Idle then ct_peers ct1 a \<noteq> None else enters a ph1"
proof -
  have step: "next_section ph ct = Inr (ph1, ct1)" using assms(3,4) by (cases ph) (simp_all add: next_section_def)
  show adv: "advances ph ct ph1 ct1" by (rule next_section_advances [OF assms(1,2) step])
  show "if ph1 = Idle then ct_peers ct1 a \<noteq> None else enters a ph1"
  proof (cases ph)
    case (Inserting nm c start)
    then show ?thesis using assms(3,4) by (auto split: if_splits prod.splits)
  next
    case (Flushing nm c ps)
    then show ?thesis using assms(2-4) by (cases ps) (auto simp: rbind_eq_Inr_iff)
  qed (use assms(3,4) in \<open>auto simp: rbind_eq_Inr_iff\<close>)
qed

fun merge_ok :: "controller \<Rightarrow> merge_phase \<Rightarrow> bool" where
  "merge_ok ct (Requesting c nm r) \<longleftrightarrow> c < length (ct_channels ct)"
| "merge_ok ct _ \<longleftrightarrow> True"

fun event_ok :: "controller \<Rightarrow> event_phase \<Rightarrow> bool" where
  "event_ok ct Waiting \<longleftrightarrow> True"
| "event_ok ct (Naming a token) \<longleftrightarrow> True"
| "event_ok ct (Presenting a token) \<longleftrightarrow> ct_inviter_name ct = a"
| "event_ok ct (Answering a token) \<longleftrightarrow> ct_inviter_name ct = a"
| "event_ok ct (Entering ph) \<longleftrightarrow> enters (ct_inviter_name ct) ph \<and> phase_ok ct ph"
| "event_ok ct Handling \<longleftrightarrow> ct_peers ct (ct_inviter_name ct) \<noteq> None"
| "event_ok ct (Sending rs) \<longleftrightarrow> ct_peers ct (ct_inviter_name ct) \<noteq> None"

fun carried :: "merge_phase \<Rightarrow> (bytes \<times> port_ref) list" where
  "carried MIdle = []"
| "carried (Calling nm r) = [(nm, r)]"
| "carried (Locked nm r) = [(nm, r)]"
| "carried (Named nm r a) = [(nm, r)]"
| "carried (Unfound nm r) = [(nm, r)]"
| "carried (Requesting c nm r) = [(nm, r)]"

fun event_carried :: "event_phase \<Rightarrow> (bytes \<times> port_ref) list" where
  "event_carried (Sending rs) = rs"
| "event_carried _ = []"

definition sent_on :: "nat \<Rightarrow> (nat \<times> bytes \<times> port_ref) list \<Rightarrow> protocol list" where
  "sent_on d xs = map (\<lambda>(c, nm, r). merge_request_of nm r) (filter (\<lambda>(c, x). c = d) xs)"

text \<open>What one section does, with the requests \<open>reqs\<close> it writes.\<close>

definition sends :: "controller \<Rightarrow> controller \<Rightarrow> (nat \<times> bytes \<times> port_ref) list \<Rightarrow> bool" where
  "sends ct ct' reqs \<longleftrightarrow> extends ct ct'
     \<and> (\<forall>d < length (ct_channels ct). \<exists>ps. outbox (ct_channels ct' ! d) = outbox (ct_channels ct ! d) @ ps \<and> subseq (sent_on d reqs) ps)"

lemma sends_nothing: "extends ct ct' \<Longrightarrow> sends ct ct' []"
  by (auto simp: sends_def extends_def sent_on_def)

lemma sends_one:
  assumes "inviter_ok ct" and "c < length (ct_channels ct)"
  shows "sends ct (ct\<lparr>ct_channels := (ct_channels ct)[c := send_channel_message (merge_request_of nm r) (ct_channels ct ! c)]\<rparr>) [(c, nm, r)]"
proof -
  have "\<exists>ps. outbox ((ct_channels ct)[c := send_channel_message (merge_request_of nm r) (ct_channels ct ! c)] ! d) = outbox (ct_channels ct ! d) @ ps
      \<and> subseq (sent_on d [(c, nm, r)]) ps" if "d < length (ct_channels ct)" for d
  proof (cases "d = c")
    case True
    then show ?thesis
      using request_step(3) [OF assms] that
      by (intro exI [of _ "[merge_request_of nm r]"]) (simp add: sent_on_def)
  qed (simp add: sent_on_def)
  then show ?thesis using request_step(2) [OF assms] by (simp add: sends_def)
qed

lemma extends_refl: "inviter_ok ct \<Longrightarrow> extends ct ct"
  by (auto simp: extends_def)

lemma merge_section_effect:
  assumes "inviter_ok ct" and "merge_ok ct ph" and "merge_section fresh ph ct = Inr (ph', ct')"
  shows "sends ct ct' (requests ph)" and "merge_ok ct' ph'"
    and "ct_peers ct' = ct_peers ct" and "ct_inviter_name ct' = ct_inviter_name ct"
    and "ct_pending_port_merges ct' = ct_pending_port_merges ct @ (case ph of Unfound nm r \<Rightarrow> [(nm, r)] | _ \<Rightarrow> [])"
    and "mset (carried ph) = mset (map snd (requests ph)) + mset (carried ph') + mset (case ph of Unfound nm r \<Rightarrow> [(nm, r)] | _ \<Rightarrow> [])"
proof -
  have same: "extends ct (ct\<lparr>ct_pending_port_merges := x\<rparr>)" for x
    using assms(1) by (auto simp: extends_def inviter_ok_def peers_ok_def pending_for_def)
  show "sends ct ct' (requests ph)"
    using assms same by (cases ph) (auto simp: request_step sends_one sends_nothing extends_refl split: option.splits)
  show "merge_ok ct' ph'"
    using assms inviter_ok_peer [OF assms(1)] by (cases ph) (auto simp: get_peer_channel_def rbind_eq_Inr_iff split: option.splits)
  show "ct_peers ct' = ct_peers ct" "ct_inviter_name ct' = ct_inviter_name ct"
    "ct_pending_port_merges ct' = ct_pending_port_merges ct @ (case ph of Unfound nm r \<Rightarrow> [(nm, r)] | _ \<Rightarrow> [])"
    "mset (carried ph) = mset (map snd (requests ph)) + mset (carried ph') + mset (case ph of Unfound nm r \<Rightarrow> [(nm, r)] | _ \<Rightarrow> [])"
    using assms by (cases ph; auto simp: request_step split: option.splits)+
qed

text \<open>When the event thread is not between the start of a handler and the lock of its last part.\<close>

fun settled :: "event_phase \<Rightarrow> bool" where
  "settled Waiting \<longleftrightarrow> True"
| "settled (Sending rs) \<longleftrightarrow> True"
| "settled _ \<longleftrightarrow> False"

definition event_effect :: "event_phase \<Rightarrow> controller \<Rightarrow> event_phase \<Rightarrow> controller \<Rightarrow> bool" where
  "event_effect ph ct ph' ct' \<longleftrightarrow> sends ct ct' (event_requests ph ct) \<and> event_ok ct' ph'
     \<and> mset (event_carried ph) + mset (ct_pending_port_merges ct)
         = mset (map snd (event_requests ph ct)) + mset (event_carried ph') + mset (ct_pending_port_merges ct')
     \<and> (settled ph' \<longrightarrow> ct_peers ct' = ct_peers ct \<and> ct_inviter_name ct' = ct_inviter_name ct
         \<and> (if ph = Handling then ct_pending_port_merges ct' = []
            else settled ph \<and> ct_pending_port_merges ct' = ct_pending_port_merges ct))"

lemma event_section_effect:
  assumes "inviter_ok ct" and "event_ok ct ph"
  shows "\<exists>ph' ct'. event_section fresh ph ct = Inr (ph', ct') \<and> event_effect ph ct ph' ct'"
proof -
  have pend: "extends ct (ct\<lparr>ct_pending_port_merges := x\<rparr>)" "extends ct (ct\<lparr>ct_inviter_name := a\<rparr>)" for x a
    using assms(1) by (auto simp: extends_def inviter_ok_def peers_ok_def pending_for_def)
  obtain c where c: "c < length (ct_channels ct)" "ct_inviter_channel ct = Some c" using assms(1) by (auto simp: inviter_ok_def)
  show ?thesis
  proof (cases ph)
    case (Presenting a token)
    have "extends ct (ct\<lparr>ct_channels := (ct_channels ct)[c := set_remote_node_name a (ct_channels ct ! c)]\<rparr>)"
      using assms(1) c(1) inviter_ok_open [OF assms(1) c(1)] set_channel_ok [OF assms(1)]
      by (auto simp: extends_def nth_list_update)
    then show ?thesis using assms(2) Presenting c by (simp add: effect_simps sends_nothing event_effect_def)
  next
    case (Answering a token)
    then show ?thesis using assms c by (simp add: effect_simps sends_nothing event_effect_def request_step(2))
  next
    case (Entering ph1)
    have ok: "peers_ok ct" "phase_ok ct ph1" "enters (ct_inviter_name ct) ph1" using assms Entering by (simp_all add: inviter_ok_def)
    have "\<exists>r. next_section ph1 ct = Inr r"
      by (rule sections_total [OF ok(1,2)]) (use ok(3) in auto)
    then obtain ph2 ct' where s: "add_section ph1 ct = Inr (ph2, ct')"
      using ok(3) by (cases ph1) (auto simp: next_section_def)
    note same = add_section_same [OF s ok(3)] and adv = add_section_enters [OF ok s]
    have "extends ct ct'" using adv(1) same(1) c by (auto simp: advances_def extends_def inviter_ok_def)
    then show ?thesis
      using s adv same Entering by (auto simp: sends_nothing advances_def event_effect_def split: if_splits)
  next
    case (Sending rs)
    then obtain d where d: "ct_peers ct (ct_inviter_name ct) = Some d" "d < length (ct_channels ct)"
      using assms inviter_ok_peer by auto
    show ?thesis
    proof (cases rs)
      case (Cons x xs)
      obtain nm r where x: "x = (nm, r)" by force
      show ?thesis
        using Sending d sends_one [OF assms(1) d(2), of nm r]
        by (simp add: Cons x request_step(1) [OF assms(1) d(2)] get_inviter_channel_def get_peer_channel_def event_effect_def)
    qed (use assms Sending in \<open>simp add: sends_nothing extends_refl event_effect_def\<close>)
  qed (use assms pend in \<open>simp_all add: sends_nothing extends_refl event_effect_def\<close>)
qed

section \<open>Invariant\<close>

text \<open>A merge that will not leave its request for the event thread, unless the inviter changes.\<close>

definition finds_peer :: "controller \<Rightarrow> merge_phase \<Rightarrow> bool" where
  "finds_peer ct ph \<longleftrightarrow> (\<forall>nm r a. ph = Named nm r a \<longrightarrow> ct_peers ct a \<noteq> None) \<and> (\<forall>nm r. ph \<noteq> Unfound nm r)"

definition no_merge_left :: "controller \<Rightarrow> merge_phase list \<Rightarrow> bool" where
  "no_merge_left ct phs \<longleftrightarrow> ct_pending_port_merges ct = [] \<and> list_all (finds_peer ct) phs"

definition merges_inv :: "controller \<Rightarrow> merge_system \<Rightarrow> bool" where
  "merges_inv ct0 s \<longleftrightarrow> inviter_ok (mg_controller s) \<and> event_ok (mg_controller s) (mg_event s)
     \<and> list_all (merge_ok (mg_controller s)) (mg_threads s)
     \<and> length (ct_channels (mg_controller s)) = length (ct_channels ct0)
     \<and> (settled (mg_event s) \<and> ct_peers (mg_controller s) (ct_inviter_name (mg_controller s)) \<noteq> None
         \<longrightarrow> no_merge_left (mg_controller s) (mg_threads s))
     \<and> mset (ct_pending_port_merges ct0) + mset (mg_given s)
         = mset (map snd (mg_sent s)) + (\<Sum>ph \<leftarrow> mg_threads s. mset (carried ph)) + mset (event_carried (mg_event s))
           + mset (ct_pending_port_merges (mg_controller s))
     \<and> (\<forall>d < length (ct_channels ct0). subseq (sent_on d (mg_sent s)) (outbox (ct_channels (mg_controller s) ! d)))"

lemma sent_on_append: "sent_on d (xs @ ys) = sent_on d xs @ sent_on d ys"
  by (simp add: sent_on_def)

lemma sends_keeps_order:
  assumes "sends ct ct' reqs" and "d < length (ct_channels ct)" and "subseq (sent_on d xs) (outbox (ct_channels ct ! d))"
  shows "subseq (sent_on d (xs @ reqs)) (outbox (ct_channels ct' ! d))"
proof -
  obtain ps where "outbox (ct_channels ct' ! d) = outbox (ct_channels ct ! d) @ ps" "subseq (sent_on d reqs) ps"
    using assms(1,2) unfolding sends_def by blast
  then show ?thesis using assms(3) by (simp add: sent_on_append list_emb_append_mono)
qed

lemma merge_ok_keeps: "length (ct_channels ct') = length (ct_channels ct) \<Longrightarrow> merge_ok ct' ph = merge_ok ct ph"
  by (cases ph) simp_all

lemma event_ok_keeps:
  assumes "event_ok ct ph" and "ct_peers ct' = ct_peers ct" and "ct_inviter_name ct' = ct_inviter_name ct"
    and "length (ct_channels ct') = length (ct_channels ct)"
  shows "event_ok ct' ph"
proof (cases ph)
  case (Entering ph1)
  then show ?thesis using assms by (cases ph1) auto
qed (use assms in auto)

lemma finds_peer_step:
  assumes "merge_section fresh ph ct = Inr (ph', ct')" and "finds_peer ct ph" and "ct_peers ct (ct_inviter_name ct) \<noteq> None"
  shows "finds_peer ct ph'"
proof (cases ph)
  case (Named nm r a)
  then obtain c where "ct_peers ct a = Some c" using assms(2) by (auto simp: finds_peer_def)
  then show ?thesis using assms(1) Named by (auto simp: finds_peer_def get_peer_channel_def)
qed (use assms in \<open>auto simp: finds_peer_def rbind_eq_Inr_iff\<close>)

lemma merge_conserves:
  assumes inv: "merges_inv ct0 s" and t: "t < length (mg_threads s)"
    and step: "merge_section fresh (mg_threads s ! t) (mg_controller s) = Inr (ph, ct)"
  shows "mset (ct_pending_port_merges ct0) + mset (mg_given s)
      = mset (map snd (mg_sent s @ requests (mg_threads s ! t))) + (\<Sum>ph \<leftarrow> (mg_threads s)[t := ph]. mset (carried ph))
        + mset (event_carried (mg_event s)) + mset (ct_pending_port_merges ct)"
proof -
  let ?ph = "mg_threads s ! t" and ?ct = "mg_controller s"
  have ok: "inviter_ok ?ct" "merge_ok ?ct ?ph" using inv t by (auto simp: merges_inv_def list_all_length)
  note e = merge_section_effect [OF ok step]
  have 1: "(\<Sum>ph \<leftarrow> (mg_threads s)[t := ph]. mset (carried ph)) + mset (carried ?ph)
      = (\<Sum>ph \<leftarrow> mg_threads s. mset (carried ph)) + mset (carried ph)"
    by (rule sum_list_change [OF t])
  have 2: "mset (ct_pending_port_merges ct0) + mset (mg_given s)
    = mset (map snd (mg_sent s)) + (\<Sum>ph \<leftarrow> mg_threads s. mset (carried ph)) + mset (event_carried (mg_event s))
      + mset (ct_pending_port_merges ?ct)"
    using inv unfolding merges_inv_def by blast
  have "mset (ct_pending_port_merges ct0) + mset (mg_given s) + mset (carried ph)
      = mset (map snd (mg_sent s)) + (mset (carried ?ph) + (\<Sum>ph \<leftarrow> (mg_threads s)[t := ph]. mset (carried ph)))
        + mset (event_carried (mg_event s)) + mset (ct_pending_port_merges ?ct)"
    using 1 2 by (simp add: ac_simps)
  also have "\<dots> = (mset (map snd (mg_sent s @ requests ?ph)) + (\<Sum>ph \<leftarrow> (mg_threads s)[t := ph]. mset (carried ph))
        + mset (event_carried (mg_event s)) + mset (ct_pending_port_merges ct)) + mset (carried ph)"
    unfolding e(5,6) by (simp add: ac_simps)
  finally show ?thesis by simp
qed

lemma merges_inv_merge:
  assumes inv: "merges_inv ct0 s" and t: "t < length (mg_threads s)"
    and step: "merge_section fresh (mg_threads s ! t) (mg_controller s) = Inr (ph, ct)"
  shows "merges_inv ct0 (s\<lparr>mg_controller := ct, mg_threads := (mg_threads s)[t := ph],
          mg_sent := mg_sent s @ requests (mg_threads s ! t)\<rparr>)"
proof -
  let ?ph = "mg_threads s ! t" and ?ct = "mg_controller s"
  have ok: "inviter_ok ?ct" "merge_ok ?ct ?ph" using inv t by (auto simp: merges_inv_def list_all_length)
  note e = merge_section_effect [OF ok step]
  have ext: "extends ?ct ct" using e(1) by (simp add: sends_def)
  then have len: "length (ct_channels ct) = length (ct_channels ?ct)" by (simp add: extends_def)
  note conserve = merge_conserves [OF inv t step]
  have "no_merge_left ct ((mg_threads s)[t := ph])"
    if "settled (mg_event s)" "ct_peers ct (ct_inviter_name ct) \<noteq> None"
  proof -
    have left: "no_merge_left ?ct (mg_threads s)" using inv that e(3,4) by (simp add: merges_inv_def)
    then have cur: "finds_peer ?ct ?ph" using t by (simp add: no_merge_left_def list_all_length)
    have "finds_peer ?ct ph" by (rule finds_peer_step [OF step cur]) (use that(2) e(3,4) in simp)
    moreover have "ct_pending_port_merges ct = []"
      using left cur e(5) by (auto simp: no_merge_left_def finds_peer_def split: merge_phase.splits)
    moreover have "finds_peer ct = finds_peer ?ct" by (simp add: fun_eq_iff finds_peer_def e(3))
    ultimately show ?thesis
      using left unfolding no_merge_left_def by (auto simp: list_all_iff dest!: set_update_subset_insert [THEN subsetD])
  qed
  moreover have "list_all (merge_ok ct) ((mg_threads s)[t := ph])"
    using inv e(2) merge_ok_keeps [OF len] by (auto simp: merges_inv_def list_all_iff dest!: set_update_subset_insert [THEN subsetD])
  moreover have "event_ok ct (mg_event s)"
    using inv event_ok_keeps [OF _ e(3,4) len] by (simp add: merges_inv_def)
  moreover have "\<forall>d < length (ct_channels ct0). subseq (sent_on d (mg_sent s @ requests ?ph)) (outbox (ct_channels ct ! d))"
    using inv sends_keeps_order [OF e(1)] by (simp add: merges_inv_def)
  ultimately show ?thesis
    using inv ext len conserve unfolding merges_inv_def by (simp add: extends_def)
qed

lemma merges_inv_event:
  assumes inv: "merges_inv ct0 s" and free: "mg_event s = Handling \<longrightarrow> lock_free s"
    and step: "event_section fresh (mg_event s) (mg_controller s) = Inr (ph, ct)"
  shows "merges_inv ct0 (s\<lparr>mg_controller := ct, mg_event := ph,
          mg_sent := mg_sent s @ event_requests (mg_event s) (mg_controller s)\<rparr>)"
proof -
  let ?ev = "mg_event s" and ?ct = "mg_controller s"
  have e: "event_effect ?ev ?ct ph ct"
    using event_section_effect [of ?ct ?ev fresh] inv step by (auto simp: merges_inv_def)
  then have snd': "sends ?ct ct (event_requests ?ev ?ct)" by (simp add: event_effect_def)
  then have ext: "extends ?ct ct" by (simp add: sends_def)
  then have len: "length (ct_channels ct) = length (ct_channels ?ct)" by (simp add: extends_def)
  have left: "no_merge_left ct (mg_threads s)" if "settled ph" "ct_peers ct (ct_inviter_name ct) \<noteq> None"
  proof (cases "?ev = Handling")
    case True
    have "\<forall>ph \<in> set (mg_threads s). \<not> holds ph" using free True by (simp add: lock_free_def)
    then have "list_all (finds_peer ct) (mg_threads s)" by (fastforce simp: list_all_iff finds_peer_def)
    then show ?thesis using e that True by (simp add: event_effect_def no_merge_left_def)
  next
    case False
    have "no_merge_left ?ct (mg_threads s)" using e that inv False by (auto simp: event_effect_def merges_inv_def)
    moreover have "finds_peer ct = finds_peer ?ct" using e that(1) by (simp add: fun_eq_iff finds_peer_def event_effect_def)
    ultimately show ?thesis using e that False by (simp add: event_effect_def no_merge_left_def)
  qed
  have 1: "list_all (merge_ok ct) (mg_threads s)"
    using inv merge_ok_keeps [OF len] by (simp add: merges_inv_def list_all_iff)
  have 2: "\<forall>d < length (ct_channels ct0). subseq (sent_on d (mg_sent s @ event_requests ?ev ?ct)) (outbox (ct_channels ct ! d))"
    using inv sends_keeps_order [OF snd'] by (simp add: merges_inv_def)
  have 3: "mset (ct_pending_port_merges ct0) + mset (mg_given s)
      = mset (map snd (mg_sent s @ event_requests ?ev ?ct)) + (\<Sum>ph \<leftarrow> mg_threads s. mset (carried ph)) + mset (event_carried ph)
        + mset (ct_pending_port_merges ct)"
  proof -
    have "mset (ct_pending_port_merges ct0) + mset (mg_given s)
      = mset (map snd (mg_sent s)) + (\<Sum>ph \<leftarrow> mg_threads s. mset (carried ph)) + (mset (event_carried ?ev) + mset (ct_pending_port_merges ?ct))"
      using inv by (simp add: merges_inv_def ac_simps)
    also have "mset (event_carried ?ev) + mset (ct_pending_port_merges ?ct)
      = mset (map snd (event_requests ?ev ?ct)) + mset (event_carried ph) + mset (ct_pending_port_merges ct)"
      using e unfolding event_effect_def by blast
    finally show ?thesis by (simp add: ac_simps)
  qed
  have 4: "inviter_ok ct" "event_ok ct ph" "length (ct_channels ct) = length (ct_channels ct0)"
    using ext e len inv by (simp_all add: extends_def event_effect_def merges_inv_def)
  show ?thesis unfolding merges_inv_def using left 1 2 3 4 by simp
qed

lemma merges_reach_inv:
  assumes "merges_reach fresh ct0 n s" and "inviter_ok ct0" and "ct_peers ct0 (ct_inviter_name ct0) = None"
  shows "merges_inv ct0 s \<and> length (mg_threads s) = n"
  using assms(1)
proof (induction rule: merges_reach.induct)
  case mg_new
  have "(\<Sum>ph \<leftarrow> replicate n MIdle. mset (carried ph)) = {#}" by (induction n) simp_all
  then show ?case using assms(2,3) by (simp add: merges_inv_def list_all_length sent_on_def)
next
  case (mg_call s t nm r)
  have "(\<Sum>ph \<leftarrow> (mg_threads s)[t := Calling nm r]. mset (carried ph)) = (\<Sum>ph \<leftarrow> mg_threads s. mset (carried ph)) + {#(nm, r)#}"
    using sum_list_change [of t "mg_threads s" "\<lambda>ph. mset (carried ph)" "Calling nm r"] mg_call by simp
  moreover have "no_merge_left ct phs \<Longrightarrow> no_merge_left ct (phs[t := Calling nm r])" for ct phs
    by (auto simp: no_merge_left_def finds_peer_def list_all_iff dest!: set_update_subset_insert [THEN subsetD])
  ultimately show ?case
    using mg_call by (auto simp: merges_inv_def list_all_iff dest!: set_update_subset_insert [THEN subsetD])
next
  case (mg_accept s a token)
  then show ?case by (auto simp: merges_inv_def)
next
  case (mg_merge s t ph ct)
  then show ?case using merges_inv_merge by simp
next
  case (mg_event s ph ct)
  then show ?case using merges_inv_event by simp
qed

lemma merges_progress:
  assumes "merges_inv ct0 s" and "mg_event s \<noteq> Waiting \<or> (\<exists>ph \<in> set (mg_threads s). ph \<noteq> MIdle)"
  shows "(\<exists>t < length (mg_threads s). mg_threads s ! t \<noteq> MIdle \<and> ((\<exists>nm r. mg_threads s ! t = Calling nm r) \<longrightarrow> lock_free s))
    \<or> mg_event s \<noteq> Waiting \<and> (mg_event s = Handling \<longrightarrow> lock_free s)"
proof (cases "lock_free s")
  case True
  then show ?thesis using assms(2) by (auto simp: in_set_conv_nth)
next
  case False
  then obtain t where "t < length (mg_threads s)" "holds (mg_threads s ! t)" by (auto simp: lock_free_def in_set_conv_nth)
  then show ?thesis by (intro disjI1 exI [of _ t]) auto
qed

section \<open>Property\<close>

text \<open>
  C23: However merges and the handling of an accepted invitee interleave, every merge called for is at every moment
  in exactly one place: sent, left for the event thread or in hand; each channel carries the requests written to it in their
  order. No section faults, and while a call is unfinished some thread can go on. When all have returned and the inviter is a
  peer, no merge is left behind: each has been requested once.
\<close>

theorem merges_never_stranded:
  assumes "merges_reach fresh ct0 n s" and "inviter_ok ct0" and "ct_peers ct0 (ct_inviter_name ct0) = None"
  shows "mset (ct_pending_port_merges ct0) + mset (mg_given s)
      = mset (map snd (mg_sent s)) + (\<Sum>ph \<leftarrow> mg_threads s. mset (carried ph)) + mset (event_carried (mg_event s))
        + mset (ct_pending_port_merges (mg_controller s))
    \<and> (\<forall>d < length (ct_channels ct0). subseq (sent_on d (mg_sent s)) (outbox (ct_channels (mg_controller s) ! d)))
    \<and> (\<exists>x. event_section fresh (mg_event s) (mg_controller s) = Inr x)
    \<and> (\<forall>ph \<in> set (mg_threads s). \<exists>x. merge_section fresh ph (mg_controller s) = Inr x)
    \<and> (mg_event s \<noteq> Waiting \<or> (\<exists>ph \<in> set (mg_threads s). ph \<noteq> MIdle) \<longrightarrow>
        (\<exists>t < n. mg_threads s ! t \<noteq> MIdle \<and> ((\<exists>nm r. mg_threads s ! t = Calling nm r) \<longrightarrow> lock_free s))
        \<or> mg_event s \<noteq> Waiting \<and> (mg_event s = Handling \<longrightarrow> lock_free s))
    \<and> (mg_event s = Waiting \<and> (\<forall>ph \<in> set (mg_threads s). ph = MIdle)
        \<and> ct_peers (mg_controller s) (ct_inviter_name (mg_controller s)) \<noteq> None \<longrightarrow>
        ct_pending_port_merges (mg_controller s) = []
        \<and> mset (map snd (mg_sent s)) = mset (ct_pending_port_merges ct0) + mset (mg_given s))"
proof -
  have inv: "merges_inv ct0 s" and len: "length (mg_threads s) = n" using merges_reach_inv [OF assms] by blast+
  have ok: "inviter_ok (mg_controller s)" "event_ok (mg_controller s) (mg_event s)"
    "list_all (merge_ok (mg_controller s)) (mg_threads s)" using inv by (simp_all add: merges_inv_def)
  have event: "\<exists>x. event_section fresh (mg_event s) (mg_controller s) = Inr x" using event_section_effect [OF ok(1,2)] by blast
  have merge: "\<exists>x. merge_section fresh ph (mg_controller s) = Inr x" if "ph \<in> set (mg_threads s)" for ph
    using merge_section_total [OF ok(1), of ph fresh] ok(3) that by (fastforce simp: list_all_iff)
  have idle: "(\<Sum>ph \<leftarrow> mg_threads s. mset (carried ph)) = {#}" if "\<forall>ph \<in> set (mg_threads s). ph = MIdle"
  proof -
    have "\<forall>ph \<in> set phs. ph = MIdle \<Longrightarrow> (\<Sum>ph \<leftarrow> phs. mset (carried ph)) = {#}" for phs by (induction phs) simp_all
    then show ?thesis using that by blast
  qed
  have left: "ct_pending_port_merges (mg_controller s) = []
      \<and> mset (map snd (mg_sent s)) = mset (ct_pending_port_merges ct0) + mset (mg_given s)"
    if "mg_event s = Waiting \<and> (\<forall>ph \<in> set (mg_threads s). ph = MIdle)
      \<and> ct_peers (mg_controller s) (ct_inviter_name (mg_controller s)) \<noteq> None"
    using inv that idle by (simp add: merges_inv_def no_merge_left_def)
  show ?thesis
    using inv event merge merges_progress [OF inv] left unfolding merges_inv_def len by blast
qed

text \<open>Calls that run alone, as steps of the system; for the witness, one after the other.\<close>

lemma event_alone_reach:
  assumes "merges_reach fresh ct0 n s" and "lock_free s" and "event_alone fresh k (mg_event s) (mg_controller s) = Inr (ph, ct)"
  shows "\<exists>sent. merges_reach fresh ct0 n (s\<lparr>mg_controller := ct, mg_event := ph, mg_sent := sent\<rparr>)"
  using assms
proof (induction k arbitrary: s)
  case 0
  then show ?case by (intro exI [of _ "mg_sent s"]) (cases s, auto)
next
  case (Suc k)
  obtain ph1 ct1 where 1: "event_section fresh (mg_event s) (mg_controller s) = Inr (ph1, ct1)" "event_alone fresh k ph1 ct1 = Inr (ph, ct)"
    using Suc.prems(3) by (auto simp: rbind_eq_Inr_iff)
  let ?s = "s\<lparr>mg_controller := ct1, mg_event := ph1, mg_sent := mg_sent s @ event_requests (mg_event s) (mg_controller s)\<rparr>"
  have "merges_reach fresh ct0 n ?s" using mg_event [OF Suc.prems(1) _ 1(1)] Suc.prems(2) by blast
  moreover have "lock_free ?s" using Suc.prems(2) by (simp add: lock_free_def)
  ultimately show ?case using Suc.IH [of ?s] 1(2) by simp
qed

lemma merge_alone_reach:
  assumes "merges_reach fresh ct0 1 s" and "mg_threads s = [ph0]" and "\<not> holds ph0" and "merge_alone fresh k ph0 (mg_controller s) = Inr (ph, ct)"
  shows "\<exists>sent. merges_reach fresh ct0 1 (s\<lparr>mg_controller := ct, mg_threads := [ph], mg_sent := sent\<rparr>)"
proof -
  have "\<exists>sent. merges_reach fresh ct0 1 (s\<lparr>mg_controller := ct, mg_threads := [ph], mg_sent := sent\<rparr>)"
    if "merges_reach fresh ct0 1 s" "mg_threads s = [ph0]" "merge_alone fresh k ph0 (mg_controller s) = Inr (ph, ct)" for s ph0
    using that
  proof (induction k arbitrary: s ph0)
    case 0
    then show ?case by (intro exI [of _ "mg_sent s"]) (cases s, simp)
  next
    case (Suc k)
    obtain ph1 ct1 where 1: "merge_section fresh ph0 (mg_controller s) = Inr (ph1, ct1)" "merge_alone fresh k ph1 ct1 = Inr (ph, ct)"
      using Suc.prems(3) by (auto simp: rbind_eq_Inr_iff)
    let ?s = "s\<lparr>mg_controller := ct1, mg_threads := [ph1], mg_sent := mg_sent s @ requests ph0\<rparr>"
    have "merges_reach fresh ct0 1 ?s"
      using mg_merge [OF Suc.prems(1), of 0 ph1 ct1] 1(1) Suc.prems(2) by (auto simp: lock_free_def)
    then show ?case using Suc.IH [of ?s ph1] 1(2) by simp
  qed
  with assms show ?thesis by blast
qed

text \<open>The merge finds no inviter and is left behind; the handling of the accepted invitee requests it.\<close>

definition waiting_controller :: controller where
  "waiting_controller = sample_controller\<lparr>ct_inviter_channel := Some 0\<rparr>"

lemma waiting_sel:
  "ct_peers waiting_controller = (\<lambda>_. None)" "ct_pending_port_merges waiting_controller = []" "ct_inviter_channel waiting_controller = Some 0"
  "ct_channels waiting_controller = ct_channels sample_controller" "length (ct_channels waiting_controller) = 1"
  by (simp_all add: waiting_controller_def sample_sel)
     (simp add: sample_controller_def controller_new_def Let_def split: prod.splits)

lemma waiting_ok: "inviter_ok waiting_controller"
  by (auto simp: inviter_ok_def peers_ok_def waiting_controller_def sample_sel pending_for_def is_open_def)

lemma waiting_accepts:
  "\<exists>ct'. on_accept_invitee fresh from (Name 7 7) token (waiting_controller\<lparr>ct_pending_port_merges := [m]\<rparr>) = Inr ct'
    \<and> ct_peers ct' = [Name 7 7 \<mapsto> 0] \<and> ct_inviter_name ct' = Name 7 7"
  by (cases m) (simp add: on_accept_invitee_def Let_def waiting_sel sample_sel effect_simps add_peer_new handle_pending_merge_port_def
      get_inviter_channel_def get_peer_channel_def)

theorem merges_never_stranded_witness:
  "\<exists>s. merges_reach (\<lambda>_ _. 0) waiting_controller 1 s \<and> mg_given s = [([112], port_ref_default)]
    \<and> mset (map snd (mg_sent s)) = {#([112], port_ref_default)#} \<and> ct_pending_port_merges (mg_controller s) = []"
proof -
  let ?f = "\<lambda>_ _. 0" and ?ct = waiting_controller and ?m = "([112], port_ref_default)"
  have 1: "merges_reach ?f ?ct 1 \<lparr>mg_controller = ?ct, mg_threads = [MIdle], mg_event = Waiting, mg_given = [], mg_sent = []\<rparr>"
    using mg_new [of ?f ?ct 1] by simp
  let ?s2 = "\<lparr>mg_controller = ?ct, mg_threads = [Calling [112] port_ref_default], mg_event = Waiting, mg_given = [?m], mg_sent = []\<rparr>"
  have 2: "merges_reach ?f ?ct 1 ?s2" using mg_call [OF 1, of 0 "[112]" port_ref_default] by simp
  have "merge_alone ?f 4 (Calling [112] port_ref_default) ?ct = Inr (MIdle, ?ct\<lparr>ct_pending_port_merges := [?m]\<rparr>)"
    by (simp only: merge_alone_eq) (simp add: merge_port_into_inviter_def get_inviter_channel_def get_peer_channel_def waiting_sel)
  then have "\<exists>sent. merges_reach ?f ?ct 1 (?s2\<lparr>mg_controller := ?ct\<lparr>ct_pending_port_merges := [?m]\<rparr>, mg_threads := [MIdle], mg_sent := sent\<rparr>)"
    by (intro merge_alone_reach [OF 2, of "Calling [112] port_ref_default" 4]) simp_all
  then obtain sent1 where
    3: "merges_reach ?f ?ct 1 (?s2\<lparr>mg_controller := ?ct\<lparr>ct_pending_port_merges := [?m]\<rparr>, mg_threads := [MIdle], mg_sent := sent1\<rparr>)" (is "merges_reach _ _ _ ?s3")
    by blast
  have 4: "merges_reach ?f ?ct 1 (?s3\<lparr>mg_event := Naming (Name 7 7) (Name 8 8)\<rparr>)" (is "merges_reach _ _ _ ?s4")
    by (rule mg_accept [OF 3]) simp
  obtain ct' where ct': "on_accept_invitee ?f (Name 0 0) (Name 7 7) (Name 8 8) (?ct\<lparr>ct_pending_port_merges := [?m]\<rparr>) = Inr ct'"
    "ct_peers ct' = [Name 7 7 \<mapsto> 0]" "ct_inviter_name ct' = Name 7 7"
    using waiting_accepts by blast
  obtain k where k: "event_alone ?f k (Naming (Name 7 7) (Name 8 8)) (?ct\<lparr>ct_pending_port_merges := [?m]\<rparr>) = Inr (Waiting, ct')"
    using event_alone_eq [OF ct'(1)] by blast
  have "\<exists>sent. merges_reach ?f ?ct 1 (?s4\<lparr>mg_controller := ct', mg_event := Waiting, mg_sent := sent\<rparr>)"
    by (rule event_alone_reach [OF 4, of k]) (simp add: lock_free_def, simp add: k)
  then obtain sent where
    5: "merges_reach ?f ?ct 1 (?s4\<lparr>mg_controller := ct', mg_event := Waiting, mg_sent := sent\<rparr>)" (is "merges_reach _ _ _ ?s5")
    by blast
  have "ct_pending_port_merges (mg_controller ?s5) = [] \<and> mset (map snd (mg_sent ?s5)) = mset (ct_pending_port_merges ?ct) + mset (mg_given ?s5)"
  proof (rule merges_never_stranded [OF 5 waiting_ok, THEN conjunct2, THEN conjunct2, THEN conjunct2, THEN conjunct2, THEN conjunct2, rule_format])
    show "ct_peers ?ct (ct_inviter_name ?ct) = None" by (simp add: waiting_sel)
  qed (simp add: ct'(2,3))
  then show ?thesis using 5 by (intro exI [of _ ?s5]) (auto simp: waiting_sel)
qed

end
