(* ===== verification/Channel_Threads.thy ===== *)
theory Channel_Threads
  imports Channel
begin

text \<open>
  The outgoing queue of a channel under threads (\<^verbatim>\<open>ChannelPosix::Write\<close> and \<^verbatim>\<open>OnFdWriteable\<close> in
  \<^verbatim>\<open>src/core/channel_posix.cc\<close>): any thread writes, under \<^verbatim>\<open>writing_protocol_lock_\<close>, while the event thread swaps the
  queue with a local one under the same lock and then sends what it took, one message at a time and without the
  lock. A section under the lock is one step (\<open>Locks\<close> shows that the guards exclude each other).
\<close>

section \<open>Steps of the threads\<close>

record writer_system =
  ws_channel :: channel
  ws_local :: "protocol list option"     \<comment> \<open>the local queue, while the event thread is in \<^verbatim>\<open>OnFdWriteable\<close>\<close>
  ws_out :: bytes                        \<comment> \<open>what the socket has taken\<close>
  ws_history :: "protocol list"          \<comment> \<open>all that was ever queued, in order\<close>
  ws_sent :: "(protocol \<times> bytes) list"   \<comment> \<open>what has been sent, with the bytes of each the socket took\<close>

definition writers_new :: "channel \<Rightarrow> writer_system" where
  "writers_new ch = \<lparr>ws_channel = ch, ws_local = None, ws_out = [], ws_history = ch_writing_protocol ch, ws_sent = []\<rparr>"

inductive flusher_step :: "(nat \<Rightarrow> nat \<Rightarrow> byte) \<Rightarrow> writer_system \<Rightarrow> writer_system \<Rightarrow> bool" for fresh where
  fl_swap: "ws_local s = None
    \<Longrightarrow> flusher_step fresh s (s\<lparr>ws_channel := (ws_channel s)\<lparr>ch_writing_protocol := []\<rparr>,
          ws_local := Some (ch_writing_protocol (ws_channel s))\<rparr>)"
| fl_send: "ws_local s = Some (p # ps) \<Longrightarrow> serialize_protocol fresh p = Inr data \<Longrightarrow> sock_send q data = Some (r, out, q')
    \<Longrightarrow> flusher_step fresh s (s\<lparr>ws_local := Some ps, ws_out := ws_out s @ out, ws_sent := ws_sent s @ [(p, out)]\<rparr>)"
| fl_return: "ws_local s = Some [] \<Longrightarrow> flusher_step fresh s (s\<lparr>ws_local := None\<rparr>)"

inductive writers_reach :: "(nat \<Rightarrow> nat \<Rightarrow> byte) \<Rightarrow> channel \<Rightarrow> writer_system \<Rightarrow> bool" for fresh ch where
  wr_new: "writers_reach fresh ch (writers_new ch)"
| wr_write: "writers_reach fresh ch s
    \<Longrightarrow> writers_reach fresh ch (s\<lparr>ws_channel := channel_write p (ws_channel s), ws_history := ws_history s @ [p]\<rparr>)"
| wr_flush: "writers_reach fresh ch s \<Longrightarrow> flusher_step fresh s s' \<Longrightarrow> writers_reach fresh ch s'"

inductive_cases flusher_stepE: "flusher_step fresh s s'"

section \<open>Invariant\<close>

definition taken :: "writer_system \<Rightarrow> protocol list" where
  "taken s = (case ws_local s of None \<Rightarrow> [] | Some ps \<Rightarrow> ps)"

definition writers_inv :: "writer_system \<Rightarrow> bool" where
  "writers_inv s \<longleftrightarrow> ws_history s = map fst (ws_sent s) @ taken s @ ch_writing_protocol (ws_channel s)
     \<and> ws_out s = concat (map snd (ws_sent s))
     \<and> (\<forall>(p, out) \<in> set (ws_sent s). \<exists>k. out = take k (protocol_bytes p))"

lemma sock_send_prefix:
  assumes "serialize_protocol fresh p = Inr data" and "sock_send q data = Some (r, out, q')"
  shows "\<exists>k. out = take k (protocol_bytes p)"
  using assms send_loop_outcome [of q "length data" "[]" data r out q']
  by (auto simp: sock_send_def serialize_protocol_bytes)

lemma writers_reach_inv: "writers_reach fresh ch s \<Longrightarrow> writers_inv s"
proof (induction rule: writers_reach.induct)
  case (wr_flush s s')
  from wr_flush(2,3) show ?case
    by cases (auto simp: writers_inv_def taken_def dest: sock_send_prefix)
qed (auto simp: writers_inv_def writers_new_def taken_def channel_write_def)

section \<open>The event thread alone\<close>

abbreviation flusher_runs :: "(nat \<Rightarrow> nat \<Rightarrow> byte) \<Rightarrow> writer_system \<Rightarrow> writer_system \<Rightarrow> bool" where
  "flusher_runs fresh \<equiv> (flusher_step fresh)\<^sup>*\<^sup>*"

lemma flusher_sends:
  assumes "flush fresh ps q = Some (Inr (out, q'))" and "ws_local s = Some ps"
  shows "\<exists>sent. flusher_runs fresh s (s\<lparr>ws_local := Some [], ws_out := ws_out s @ out, ws_sent := ws_sent s @ sent\<rparr>) \<and> map fst sent = ps"
  using assms
proof (induction ps arbitrary: q out s)
  case Nil
  then have "s\<lparr>ws_local := Some [], ws_out := ws_out s @ out, ws_sent := ws_sent s @ []\<rparr> = s" by simp
  then show ?case by (intro exI [of _ "[]"]) simp
next
  case (Cons p ps)
  obtain data r o1 q1 o2 where 1: "serialize_protocol fresh p = Inr data" "sock_send q data = Some (r, o1, q1)"
    and 2: "flush fresh ps q1 = Some (Inr (o2, q'))" and out: "out = o1 @ o2"
    using Cons.prems(1) by (auto split: option.splits sum.splits)
  let ?s = "s\<lparr>ws_local := Some ps, ws_out := ws_out s @ o1, ws_sent := ws_sent s @ [(p, o1)]\<rparr>"
  have "flusher_step fresh s ?s" by (rule fl_send [OF Cons.prems(2) 1])
  moreover obtain sent where
    "flusher_runs fresh ?s (s\<lparr>ws_local := Some [], ws_out := ws_out s @ out, ws_sent := ws_sent s @ (p, o1) # sent\<rparr>)" "map fst sent = ps"
    using Cons.IH [OF 2, of ?s] by (auto simp: out)
  ultimately show ?case
    by (intro exI [of _ "(p, o1) # sent"]) (auto intro: converse_rtranclp_into_rtranclp)
qed

lemma flusher_alone:
  assumes "on_fd_writeable fresh (ws_channel s) q = Some (Inr (ch', out, q'))" and "ws_local s = None"
  shows "\<exists>sent. flusher_runs fresh s (s\<lparr>ws_channel := ch', ws_out := ws_out s @ out, ws_sent := ws_sent s @ sent\<rparr>)
    \<and> map fst sent = ch_writing_protocol (ws_channel s)"
proof -
  let ?ps = "ch_writing_protocol (ws_channel s)"
  have f: "flush fresh ?ps q = Some (Inr (out, q'))" and ch': "ch' = (ws_channel s)\<lparr>ch_writing_protocol := []\<rparr>"
    using assms(1) by (auto simp: on_fd_writeable_def split: option.splits sum.splits)
  let ?s = "s\<lparr>ws_channel := ch', ws_local := Some ?ps\<rparr>"
  have "flusher_step fresh s ?s" using fl_swap [OF assms(2)] by (simp add: ch')
  moreover obtain sent where
    "flusher_runs fresh ?s (?s\<lparr>ws_local := Some [], ws_out := ws_out s @ out, ws_sent := ws_sent s @ sent\<rparr>)" "map fst sent = ?ps"
    using flusher_sends [OF f, of ?s] by auto
  moreover have "flusher_step fresh (?s\<lparr>ws_local := Some [], ws_out := ws_out s @ out, ws_sent := ws_sent s @ sent\<rparr>)
      (s\<lparr>ws_channel := ch', ws_out := ws_out s @ out, ws_sent := ws_sent s @ sent\<rparr>)"
    using fl_return [of "?s\<lparr>ws_local := Some [], ws_out := ws_out s @ out, ws_sent := ws_sent s @ sent\<rparr>" fresh] assms(2)
    by (cases s) simp
  ultimately show ?thesis
    by (intro exI [of _ sent]) (auto intro: converse_rtranclp_into_rtranclp rtranclp.rtrancl_into_rtrancl)
qed

text \<open>What the event thread still has in hand it can send, and then it returns.\<close>

lemma flusher_finishes:
  assumes "ws_local s = Some ps"
  shows "\<exists>sent. flusher_runs fresh s (s\<lparr>ws_local := None, ws_out := ws_out s @ concat (map protocol_bytes ps), ws_sent := ws_sent s @ sent\<rparr>)
    \<and> map fst sent = ps"
proof -
  obtain sent where sent: "flusher_runs fresh s (s\<lparr>ws_local := Some [], ws_out := ws_out s @ concat (map protocol_bytes ps), ws_sent := ws_sent s @ sent\<rparr>)"
    "map fst sent = ps"
    using flusher_sends [OF flush_all [of fresh ps "[]"] assms] by blast
  let ?s = "s\<lparr>ws_local := Some [], ws_out := ws_out s @ concat (map protocol_bytes ps), ws_sent := ws_sent s @ sent\<rparr>"
  have "flusher_step fresh ?s (s\<lparr>ws_local := None, ws_out := ws_out s @ concat (map protocol_bytes ps), ws_sent := ws_sent s @ sent\<rparr>)"
    using fl_return [of ?s fresh] by (cases s) simp
  from rtranclp.rtrancl_into_rtrancl [OF sent(1) this] sent(2) show ?thesis by blast
qed

lemma flusher_empties:
  "\<exists>s'. flusher_runs fresh s s' \<and> ws_local s' = None \<and> ch_writing_protocol (ws_channel s') = [] \<and> ws_history s' = ws_history s
    \<and> ws_out s' = ws_out s @ concat (map protocol_bytes (taken s @ ch_writing_protocol (ws_channel s)))"
proof -
  obtain s1 where 1: "flusher_runs fresh s s1" "ws_local s1 = None" "ws_channel s1 = ws_channel s" "ws_history s1 = ws_history s"
    "ws_out s1 = ws_out s @ concat (map protocol_bytes (taken s))"
  proof (cases "ws_local s")
    case (Some ps)
    obtain sent where "flusher_runs fresh s (s\<lparr>ws_local := None, ws_out := ws_out s @ concat (map protocol_bytes ps), ws_sent := ws_sent s @ sent\<rparr>)"
      using flusher_finishes [OF Some] by blast
    from that [OF this] show thesis by (simp add: taken_def Some)
  qed (use that [of s] in \<open>simp add: taken_def\<close>)
  let ?ps = "ch_writing_protocol (ws_channel s)"
  have "on_fd_writeable fresh (ws_channel s1) (map (\<lambda>p. TOk (length (protocol_bytes p))) ?ps)
      = Some (Inr ((ws_channel s)\<lparr>ch_writing_protocol := []\<rparr>, concat (map protocol_bytes ?ps), []))"
    using flush_all [of fresh ?ps "[]"] by (simp add: on_fd_writeable_def 1(3))
  from flusher_alone [OF this 1(2)] obtain sent where
    "flusher_runs fresh s1 (s1\<lparr>ws_channel := (ws_channel s)\<lparr>ch_writing_protocol := []\<rparr>,
        ws_out := ws_out s1 @ concat (map protocol_bytes ?ps), ws_sent := ws_sent s1 @ sent\<rparr>)" by blast
  from rtranclp_trans [OF 1(1) this] show ?thesis
    by (intro exI conjI, assumption) (simp_all add: 1(2,4,5))
qed

section \<open>Property\<close>

text \<open>
  C25: Whatever threads write to a channel while the event thread sends, no message is lost, doubled
  or overtaken: at every moment those sent, those the event thread has in hand and those queued make up all that were
  written, in the order of the writes, and the socket has been given a prefix of the bytes of each message sent. From every
  moment the event thread, undisturbed and with a socket that takes its bytes, sends all the rest whole
  and returns; its steps undisturbed do what the sequential handler does.
\<close>

theorem concurrent_writes_in_order:
  assumes "writers_reach fresh ch s"
  shows "ws_history s = map fst (ws_sent s) @ taken s @ ch_writing_protocol (ws_channel s)
    \<and> ws_out s = concat (map snd (ws_sent s)) \<and> (\<forall>(p, out) \<in> set (ws_sent s). \<exists>k. out = take k (protocol_bytes p))
    \<and> (\<exists>s'. flusher_runs fresh s s' \<and> ws_local s' = None \<and> ch_writing_protocol (ws_channel s') = []
        \<and> ws_history s' = ws_history s
        \<and> ws_out s' = ws_out s @ concat (map protocol_bytes (taken s @ ch_writing_protocol (ws_channel s))))
    \<and> (\<forall>q ch' out q'. ws_local s = None \<and> on_fd_writeable fresh (ws_channel s) q = Some (Inr (ch', out, q')) \<longrightarrow>
        (\<exists>s'. flusher_runs fresh s s' \<and> ws_local s' = None \<and> ws_channel s' = ch' \<and> ws_out s' = ws_out s @ out))"
proof (intro conjI allI impI)
  show "ws_history s = map fst (ws_sent s) @ taken s @ ch_writing_protocol (ws_channel s)"
    "ws_out s = concat (map snd (ws_sent s))" "\<forall>(p, out) \<in> set (ws_sent s). \<exists>k. out = take k (protocol_bytes p)"
    using writers_reach_inv [OF assms] unfolding writers_inv_def by blast+
  show "\<exists>s'. flusher_runs fresh s s' \<and> ws_local s' = None \<and> ch_writing_protocol (ws_channel s') = []
      \<and> ws_history s' = ws_history s
      \<and> ws_out s' = ws_out s @ concat (map protocol_bytes (taken s @ ch_writing_protocol (ws_channel s)))"
    using flusher_empties by blast
next
  fix q ch' out q'
  assume h: "ws_local s = None \<and> on_fd_writeable fresh (ws_channel s) q = Some (Inr (ch', out, q'))"
  then obtain sent where
    "flusher_runs fresh s (s\<lparr>ws_channel := ch', ws_out := ws_out s @ out, ws_sent := ws_sent s @ sent\<rparr>)"
    using flusher_alone by blast
  then show "\<exists>s'. flusher_runs fresh s s' \<and> ws_local s' = None \<and> ws_channel s' = ch' \<and> ws_out s' = ws_out s @ out"
    by (intro exI conjI, assumption) (simp_all add: h)
qed

text \<open>A message written between the swap and the return is queued behind the one in hand.\<close>

theorem concurrent_writes_in_order_witness:
  "\<exists>s. writers_reach (\<lambda>_ _. 0) (channel_new 3) s \<and> ws_history s = [protocol_create kUserMessage [1], protocol_create kUserMessage [2]]
    \<and> taken s = [protocol_create kUserMessage [1]]
    \<and> (\<exists>s'. flusher_runs (\<lambda>_ _. 0) s s' \<and> ws_out s' = protocol_bytes (protocol_create kUserMessage [1]) @ protocol_bytes (protocol_create kUserMessage [2]))"
proof -
  let ?p = "protocol_create kUserMessage [1]" and ?q = "protocol_create kUserMessage [2]"
  let ?w = "\<lambda>p s. s\<lparr>ws_channel := channel_write p (ws_channel s), ws_history := ws_history s @ [p]\<rparr>"
  let ?s1 = "?w ?p (writers_new (channel_new 3))"
  have 1: "writers_reach (\<lambda>_ _. 0) (channel_new 3) ?s1" by (intro wr_write wr_new)
  have "ws_local ?s1 = None" by (simp add: writers_new_def)
  from wr_write [OF wr_flush [OF 1 fl_swap [OF this]], of ?q]
  obtain s where s: "writers_reach (\<lambda>_ _. 0) (channel_new 3) s" "ws_history s = [?p, ?q]" "taken s = [?p]" "ws_out s = []"
    "ch_writing_protocol (ws_channel s) = [?q]"
    by (force simp: writers_new_def channel_new_def channel_write_def taken_def)
  from concurrent_writes_in_order [OF s(1)] show ?thesis
    using s by (intro exI [of _ s]) auto
qed

end
