(* ===== verification/Serializer_Types.thy ===== *)
theory Serializer_Types
  imports Serializer
begin

text \<open>
  The stream operators respect types: whatever bytes they are given, a value that is read has the type it
  was read at, its containers are in the order their class keeps and free of duplicate keys by the
  \<^verbatim>\<open>operator==\<close> of their keys, and so it can be written and read again. \<open>has_ty\<close> is the typing of values.
\<close>

section \<open>Scalars\<close>

lemma memcpy_from_length: "memcpy_from c npos n ba = Inr bs \<Longrightarrow> length bs = n"
  by (auto simp: memcpy_from_def rbind_eq_Inr_iff split: if_splits)

lemma read_loop_length: "read_loop ba npos ncap sz cur position = Inr (bs, r) \<Longrightarrow> length bs = sz"
proof (induction ba npos ncap sz cur position arbitrary: bs r rule: read_loop.induct)
  case (1 ba npos ncap sz cur position)
  show ?case
  proof (cases "sz = 0 \<or> cur = None \<or> sz \<le> ncap")
    case True
    with "1.prems" show ?thesis
      unfolding read_loop.simps [of ba npos ncap sz cur position]
      by (auto simp: rbind_eq_Inr_iff split: if_splits option.splits dest!: memcpy_from_length)
  next
    case False
    then obtain c where c: "cur = Some c" "0 < sz" "\<not> sz \<le> ncap" by auto
    with "1.prems" obtain xs d ys q where m: "memcpy_from c npos ncap ba = Inr xs" "next_node ba c = Some d"
      "read_loop ba 0 (n_size (m_nodes ba ! d)) (sz - ncap) (Some d) (position + ncap) = Inr (ys, q)" "bs = xs @ ys"
      unfolding read_loop.simps [of ba npos ncap sz cur position]
      by (auto simp: rbind_eq_Inr_iff split: option.splits)
    have "length ys = sz - ncap" using "1.IH" [of c xs d ys q] c m by auto
    with m(1,4) c show ?thesis by (simp add: memcpy_from_length)
  qed
qed

lemma ba_read_length: "ba_read sz ba = Inr (bs, ba') \<Longrightarrow> length bs = sz"
  by (auto simp: ba_read_def rbind_eq_Inr_iff Let_def split: if_splits dest: read_loop_length)

lemma read_string_vint_length: "read_string_vint s = Inr (str, s') \<Longrightarrow> length str < 2 ^ 64"
proof -
  assume "read_string_vint s = Inr (str, s')"
  then obtain n :: u64 where "length str = unat n"
    by (auto simp: read_string_vint_def rbind_eq_Inr_iff dest!: ba_read_length)
  then show ?thesis using unsigned_less [of n] by simp
qed

lemma ser_read_type: "ser_read c s = Inr (x, s') \<Longrightarrow> ctype_of x = Some c"
  by (cases c) (auto simp: tagged_def rbind_eq_Inr_iff dest: read_string_vint_length)

section \<open>Containers\<close>

text \<open>
  What \<^verbatim>\<open>std::set\<close> and \<^verbatim>\<open>std::map\<close> require of a comparison: a strict weak ordering. (The \<^verbatim>\<open><\<close> of floating point
  numbers is none where there are NaNs; the containers are undefined then.)
\<close>

definition strict_order :: "('a \<Rightarrow> 'a \<Rightarrow> bool) \<Rightarrow> bool" where
  "strict_order lt \<longleftrightarrow> (\<forall>x y. lt x y \<longrightarrow> \<not> lt y x) \<and> (\<forall>x y z. lt x y \<longrightarrow> lt y z \<longrightarrow> lt x z)
     \<and> (\<forall>x y z. lt x z \<longrightarrow> lt x y \<or> lt y z)"

lemma set_ins_unique: "set (ins_unique lt key x xs) \<subseteq> insert x (set xs)"
  by (induction xs) auto

lemma set_ins_upper: "set (ins_upper lt key x xs) = insert x (set xs)"
  by (induction xs) auto

lemma sorted_ins_unique:
  assumes "strict_order lt" and "sorted_wrt (\<lambda>x y. lt (key x) (key y) \<and> \<not> lt (key y) (key x)) xs"
  shows "sorted_wrt (\<lambda>x y. lt (key x) (key y) \<and> \<not> lt (key y) (key x)) (ins_unique lt key x xs)"
  using assms(2)
proof (induction xs)
  case (Cons y ys)
  have asym: "lt a b \<Longrightarrow> \<not> lt b a" and trans: "lt a b \<Longrightarrow> lt b c \<Longrightarrow> lt a c" for a b c
    using assms(1) unfolding strict_order_def by blast+
  show ?case
  proof (cases "lt (key x) (key y)")
    case True
    have "lt (key x) (key z) \<and> \<not> lt (key z) (key x)" if "z \<in> set ys" for z
      using Cons.prems that trans [OF True, of "key z"] asym [of "key x" "key z"] by auto
    with True Cons.prems asym [OF True] show ?thesis by simp
  next
    case False
    with Cons set_ins_unique [of lt key x ys] show ?thesis by auto
  qed
qed simp

lemma sorted_ins_upper:
  assumes "strict_order lt" and "sorted_wrt (\<lambda>x y. \<not> lt (key y) (key x)) xs"
  shows "sorted_wrt (\<lambda>x y. \<not> lt (key y) (key x)) (ins_upper lt key x xs)"
  using assms(2)
proof (induction xs)
  case (Cons y ys)
  have asym: "lt a b \<Longrightarrow> \<not> lt b a" and trans: "lt a b \<Longrightarrow> lt b c \<Longrightarrow> lt a c" for a b c
    using assms(1) unfolding strict_order_def by blast+
  show ?case
  proof (cases "lt (key x) (key y)")
    case True
    have "\<not> lt (key z) (key x)" if "z \<in> set ys" for z
      using Cons.prems that trans [OF _ True, of "key z"] by auto
    with True Cons.prems asym [OF True] show ?thesis by simp
  next
    case False
    with Cons show ?thesis by (auto simp: set_ins_upper)
  qed
qed simp

lemma set_emplace: "set (emplace lt k x xs) \<subseteq> insert x (set xs)"
  using set_ins_unique [of lt id x xs] set_ins_unique [of lt vfst x xs]
  by (cases k) (auto simp: set_ins_upper ins_absent_def)

lemma length_emplace: "length (emplace lt k x xs) \<le> Suc (length xs)"
proof -
  have "length (ins_unique lt key x xs) \<le> Suc (length xs)" for key :: "sval \<Rightarrow> sval" by (induction xs) auto
  moreover have "length (ins_upper lt key x xs) = Suc (length xs)" for key :: "sval \<Rightarrow> sval" by (induction xs) auto
  ultimately show ?thesis by (cases k) (simp_all add: ins_absent_def)
qed

lemma ordered_emplace: "strict_order lt \<Longrightarrow> ordered lt k xs \<Longrightarrow> ordered lt k (emplace lt k x xs)"
  using sorted_ins_unique [of lt id xs x] sorted_ins_unique [of lt vfst xs x]
    sorted_ins_upper [of lt id xs x] sorted_ins_upper [of lt vfst xs x]
  by (cases k) (auto simp: ins_absent_def list_ex_iff sorted_wrt_append)

lemma read_n_types:
  assumes "strict_order lt" and "\<And>s y s'. rd s = Inr (y, s') \<Longrightarrow> P y"
    and "read_n rd (emplace lt k) n xs s = Inr (ys, s')" and "list_all P xs" and "ordered lt k xs"
  shows "list_all P ys \<and> ordered lt k ys \<and> length ys \<le> length xs + n"
  using assms(3-5)
proof (induction n arbitrary: xs s)
  case (Suc n)
  obtain y s1 where y: "rd s = Inr (y, s1)" "read_n rd (emplace lt k) n (emplace lt k y xs) s1 = Inr (ys, s')"
    using Suc.prems(1) by (auto simp: rbind_eq_Inr_iff)
  have "list_all P (emplace lt k y xs)"
    using Suc.prems(2) assms(2) [OF y(1)] set_emplace [of lt k y xs] by (auto simp: list_all_iff)
  from Suc.IH [OF y(2) this ordered_emplace [OF assms(1) Suc.prems(3)]] length_emplace [of lt k y xs]
  show ?case by linarith
qed simp

lemma ordered_Nil [simp]: "ordered lt k []"
  by (cases k) simp_all

lemma vfst_vsnd_dflt [simp]: "vfst (dflt (TPair a b)) = dflt a" "vsnd (dflt (TPair a b)) = dflt b"
  by simp_all

lemma shr_has_ty:
  assumes "strict_order lt" and "readable ty" and "shr lt ty (dflt ty) s = Inr (v, s')"
  shows "has_ty lt ty v"
  using assms(2,3)
proof (induction ty arbitrary: s v s')
  case (TPrim c)
  then show ?case by (auto simp: tagged_def rbind_eq_Inr_iff dest: ser_read_type)
next
  case (TPair a b)
  then show ?case by (auto simp: rbind_eq_Inr_iff)
next
  case (TSeq k a)
  let ?rd = "\<lambda>s2. if is_map k then shr lt a (dflt a) s2 else read_elem a s2"
  obtain n :: u64 and s1 where r: "read_uint64 s = Inr (n, s1)"
    using TSeq.prems(2) by (cases "read_uint64 s") auto
  obtain xs where n: "read_n ?rd (emplace lt k) (unat n) [] s1 = Inr (xs, s')" "v = VSeq k xs"
    using TSeq.prems(2) r by (cases "read_n ?rd (emplace lt k) (unat n) [] s1") (auto simp: tagged_def)
  have elem: "has_ty lt a y" if "?rd s2 = Inr (y, s3)" for s2 y s3
  proof (cases a)
    case (TPrim c)
    with that show ?thesis by (auto simp: tagged_def rbind_eq_Inr_iff split: if_splits dest: ser_read_type)
  qed (use TSeq that in \<open>auto split: if_splits\<close>)
  have "list_all (has_ty lt a) xs \<and> ordered lt k xs \<and> length xs \<le> length ([] :: sval list) + unat n"
    by (rule read_n_types [OF assms(1) elem n(1)]) simp_all
  moreover have "unat n < 2 ^ 64" using unsigned_less [of n] by simp
  ultimately show ?case by (simp add: n(2))
qed

section \<open>Property\<close>

text \<open>
  C22: Whatever bytes the stream holds, the truncated and the hostile included, a value that an
  \<^verbatim>\<open>operator>>\<close> returns has the type it was read at: each scalar its type, each ordered container
  sorted by the comparison of its elements, which has to be a strict weak ordering, and no two keys of a set or map
  equal: by that comparison in the ordered ones, by \<^verbatim>\<open>operator==\<close> in the unordered ones, where a NaN equals nothing
  and the two zeros are equal. So the value can be written to the end of another stream and is read from there
  unchanged, but for the one case in which that read crashes: the last thing in the value is an empty string and the
  data end with the last block.
\<close>

theorem reading_respects_types:
  assumes "strict_order lt" and "readable ty" and "shr lt ty (dflt ty) s = Inr (v, s')"
  shows "has_ty lt ty v
    \<and> (\<forall>t. ba_wf t \<and> m_position t = m_size t \<longrightarrow>
        (\<exists>t'. shl v t = Inr t' \<and> rbind (set_position (m_size t) t') (shr lt ty (dflt ty)) =
          (if m_size t' = m_capacity t' \<and> \<not> vfull v then Inl NullDeref else Inr (v, t'))))"
proof -
  have ty: "has_ty lt ty v" by (rule shr_has_ty [OF assms])
  then show ?thesis using cshr.write_then_read_exact [of ty lt v] assms(2) by blast
qed

text \<open>
  A set of bytes read from an encoding that is neither sorted nor free of duplicates, and an unordered set of doubles
  read from a NaN, twice, and the two zeros: both NaNs are kept, and one zero.
\<close>

definition byte_lt :: "sval \<Rightarrow> sval \<Rightarrow> bool" where
  "byte_lt x y \<longleftrightarrow> (case x of VPrim (CUint8 a) \<Rightarrow> unat a | _ \<Rightarrow> 0) < (case y of VPrim (CUint8 b) \<Rightarrow> unat b | _ \<Rightarrow> 0)"

lemma byte_lt_order: "strict_order byte_lt"
  by (auto simp: strict_order_def byte_lt_def)

definition source_of :: "bytes \<Rightarrow> byte_array" where
  "source_of bs = (case ba_write bs (ba_new 64 (\<lambda>_ _. 0)) of Inr s \<Rightarrow> projr (set_position 0 s))"

definition nan64 :: u64 where
  "nan64 = 0x7FF8000000000000"

definition zeros_and_nans :: byte_array where
  "zeros_and_nans = source_of (4 # le_enc 8 nan64 @ le_enc 8 (0 :: u64) @ le_enc 8 nan64 @ le_enc 8 (0x8000000000000000 :: u64))"

lemma sources_read:
  "map_sum id fst (shr byte_lt (TSeq KSet (TPrim TUint8)) (VSeq KSet []) (source_of [3, 2, 1, 2]))
     = Inr (VSeq KSet [VPrim (CUint8 1), VPrim (CUint8 2)])"
  "map_sum id fst (shr byte_lt (TSeq KUset (TPrim TDouble)) (VSeq KUset []) zeros_and_nans)
     = Inr (VSeq KUset [VPrim (CDouble nan64), VPrim (CDouble 0), VPrim (CDouble nan64)])"
  by code_simp+

theorem reading_respects_types_witness:
  "map_sum id fst (shr byte_lt (TSeq KSet (TPrim TUint8)) (dflt (TSeq KSet (TPrim TUint8))) (source_of [3, 2, 1, 2]))
     = Inr (VSeq KSet [VPrim (CUint8 1), VPrim (CUint8 2)])
   \<and> has_ty byte_lt (TSeq KSet (TPrim TUint8)) (VSeq KSet [VPrim (CUint8 1), VPrim (CUint8 2)])
   \<and> map_sum id fst (shr byte_lt (TSeq KUset (TPrim TDouble)) (dflt (TSeq KUset (TPrim TDouble))) zeros_and_nans)
     = Inr (VSeq KUset [VPrim (CDouble nan64), VPrim (CDouble 0), VPrim (CDouble nan64)])
   \<and> has_ty byte_lt (TSeq KUset (TPrim TDouble)) (VSeq KUset [VPrim (CDouble nan64), VPrim (CDouble 0), VPrim (CDouble nan64)])"
proof -
  have read: "\<exists>s'. r = Inr (v, s')" if "map_sum id fst r = Inr v" for r :: "(sval \<times> byte_array) res" and v
    using that by (cases r) auto
  obtain s1 where 1: "shr byte_lt (TSeq KSet (TPrim TUint8)) (dflt (TSeq KSet (TPrim TUint8))) (source_of [3, 2, 1, 2])
      = Inr (VSeq KSet [VPrim (CUint8 1), VPrim (CUint8 2)], s1)"
    using read [OF sources_read(1)] by auto
  obtain s2 where 2: "shr byte_lt (TSeq KUset (TPrim TDouble)) (dflt (TSeq KUset (TPrim TDouble))) zeros_and_nans
      = Inr (VSeq KUset [VPrim (CDouble nan64), VPrim (CDouble 0), VPrim (CDouble nan64)], s2)"
    using read [OF sources_read(2)] by auto
  from reading_respects_types [OF byte_lt_order _ 1] reading_respects_types [OF byte_lt_order _ 2] sources_read show ?thesis
    by (simp del: shr.simps has_ty.simps)
qed

end
