(* ===== verification/Local_Pipes.thy ===== *)
theory Local_Pipes
  imports Conversation
begin

text \<open>
  Pipes that never leave the process: attaching under a name that is taken, and a pipe both ends of
  which are in one process.
\<close>

lemma core_port_pair_frame:
  assumes "core_port_pair r0 r1 co = Inr (s0, s1, co')"
  shows "co_dispatchers co' = co_dispatchers co \<and> co_handle_table co' = co_handle_table co"
  using assms by (auto simp: core_port_pair_def rbind_eq_Inr_iff)

lemma get_after:
  assumes "handle_of (length ds) \<noteq> 0"
  shows "ht_get_dispatcher (handle_of (length ds)) (ht_after (ds @ [d])) = Some d"
    and "ht_get_dispatcher h (ht_after ds) = Some e \<Longrightarrow> ht_get_dispatcher h (ht_after (ds @ [d])) = Some e"
proof -
  have u: "unat (handle_of (length ds)) = Suc (length ds)" using assms by (intro unat_handle_of) (simp add: handle_of_eq_0)
  then show "ht_get_dispatcher (handle_of (length ds)) (ht_after (ds @ [d])) = Some d"
    using assms by (simp add: ht_get_dispatcher_def ht_after_def)
  assume "ht_get_dispatcher h (ht_after ds) = Some e"
  then have h: "h \<noteq> 0" "unat h \<le> length ds" "ds ! (unat h - 1) = e"
    by (auto simp: ht_get_dispatcher_def ht_after_def split: if_splits)
  then have "unat h - 1 < length ds" using unat_gt_0 [of h] by linarith
  with h show "ht_get_dispatcher h (ht_after (ds @ [d])) = Some e"
    by (simp add: ht_get_dispatcher_def ht_after_def nth_append)
qed

text \<open>
  C37: Attaching a pipe to an invitation under a name that is already attached fails only after the pipe
  has been made: the call returns ALREADY_EXISTS, does not write the handle it is to return and leaves
  the invitation as it was, but a new handle is bound to one end of the new pipe, and its two ports stay
  in the node. Under a free name the same pipe is attached and its handle returned.
\<close>

theorem duplicate_attachment_leaks:
  assumes "co_handle_table co = ht_after ds" and "handle_of (length ds) \<noteq> 0"
    and "get_dispatcher h co = Some (i, InvitationDispatcher m closed)"
    and "core_port_pair port_ref_default port_ref_default co = Inr (r0, r1, co1)"
  shows "\<exists>co2. get_dispatcher (handle_of (length ds)) co2 = Some (length (co_dispatchers co), MessagePipeDispatcher r0)
    \<and> co_controller co2 = co_controller co1 \<and>
    (if om_find nm m = None
     then attach_message_pipe_to_invitation h nm out co = Inr (MOJO_RESULT_OK, handle_of (length ds), co2)
       \<and> get_dispatcher h co2 = Some (i, InvitationDispatcher (om_emplace nm r1 m) closed)
     else attach_message_pipe_to_invitation h nm out co = Inr (MOJO_RESULT_ALREADY_EXISTS, out, co2)
       \<and> get_dispatcher h co2 = Some (i, InvitationDispatcher m closed))"
proof -
  let ?n = "length (co_dispatchers co)"
  note frame = core_port_pair_frame [OF assms(4)]
  obtain d where d: "ht_get_dispatcher h (ht_after ds) = Some i" "i < ?n" "co_dispatchers co ! i = InvitationDispatcher m closed"
    using assms(1,3) by (auto simp: get_dispatcher_def split: option.splits if_splits)
  define co2 where "co2 = update_dispatcher i (InvitationDispatcher (if om_find nm m = None then om_emplace nm r1 m else m) closed)
    (co1\<lparr>co_handle_table := ht_after (ds @ [?n]), co_dispatchers := co_dispatchers co @ [MessagePipeDispatcher r0]\<rparr>)"
  have add: "add_dispatcher (MessagePipeDispatcher r0) co1 = (handle_of (length ds),
      co1\<lparr>co_handle_table := ht_after (ds @ [?n]), co_dispatchers := co_dispatchers co @ [MessagePipeDispatcher r0]\<rparr>)"
    using frame assms(1) by (simp add: add_dispatcher_def ht_add_after)
  have same: "(co_dispatchers co @ [MessagePipeDispatcher r0])[i := InvitationDispatcher m closed] = co_dispatchers co @ [MessagePipeDispatcher r0]"
    using d by (simp add: list_update_append list_update_same_conv)
  have "get_dispatcher (handle_of (length ds)) co2 = Some (?n, MessagePipeDispatcher r0)"
    "get_dispatcher h co2 = Some (i, InvitationDispatcher (if om_find nm m = None then om_emplace nm r1 m else m) closed)"
    using d get_after [OF assms(2)] by (simp_all add: get_dispatcher_def co2_def update_dispatcher_def nth_list_update)
  moreover have "co_controller co2 = co_controller co1" by (simp add: co2_def update_dispatcher_def)
  moreover have "attach_message_pipe_to_invitation h nm out co =
      (if om_find nm m = None then Inr (MOJO_RESULT_OK, handle_of (length ds), co2) else Inr (MOJO_RESULT_ALREADY_EXISTS, out, co2))"
    using assms(2,3) d
    by (simp add: attach_message_pipe_to_invitation_def create_partial_message_pipe_def assms(4) add MOJO_HANDLE_INVALID_def
        co2_def nth_append MOJO_RESULT_OK_def MOJO_RESULT_ALREADY_EXISTS_def)
  ultimately show ?thesis by (intro exI [of _ co2]) simp
qed

text \<open>A new process with an invitation to which the name \<open>nm\<close> is attached already.\<close>

definition sample_inviter :: "bytes \<Rightarrow> core" where
  "sample_inviter nm = (started (sample_names 1))\<lparr>co_handle_table := ht_after [0],
     co_dispatchers := [InvitationDispatcher [(nm, port_ref_default)] False]\<rparr>"

theorem duplicate_attachment_leaks_witness:
  "\<exists>co2. attach_message_pipe_to_invitation 1 [112] 0 (sample_inviter [112]) = Inr (MOJO_RESULT_ALREADY_EXISTS, 0, co2)"
proof -
  have node: "ct_node (co_controller (sample_inviter [112])) = ct_node (controller_new (sample_names 1))"
    by (simp add: sample_inviter_def started_def core_set_io_task_runner_def core_new_def set_io_task_runner_def)
  have pair: "core_port_pair port_ref_default port_ref_default (sample_inviter [112]) =
      Inr (port_ref_make (sample_names 1 1 0) (Some 0), port_ref_make (sample_names 1 1 1) (Some 1),
        (sample_inviter [112])\<lparr>co_controller := (co_controller (sample_inviter [112]))\<lparr>ct_node := paired_node (sample_names 1)\<rparr>\<rparr>)"
    by (simp add: core_port_pair_def node first_pair [OF sample_names_good(1)])
  have "co_handle_table (sample_inviter [112]) = ht_after [0]" "handle_of (length [0 :: nat]) \<noteq> 0"
    "get_dispatcher 1 (sample_inviter [112]) = Some (0, InvitationDispatcher [([112], port_ref_default)] False)"
    by (simp_all add: sample_inviter_def handle_of_def get_dispatcher_def two_handles)
  from duplicate_attachment_leaks [OF this pair, of "[112]" 0] show ?thesis by auto
qed

lemma three_handles:
  "ht_add_dispatcher f (ht_after [d, e]) = (3, ht_after [d, e, f])"
  "ht_get_dispatcher 2 (ht_after [d, e, f]) = Some e" "ht_get_dispatcher 3 (ht_after [d, e, f]) = Some f"
proof -
  show "ht_add_dispatcher f (ht_after [d, e]) = (3, ht_after [d, e, f])"
    using ht_add_after [of f "[d, e]"] by (simp add: handle_of_def)
qed (simp_all add: ht_get_dispatcher_def ht_after_def)

text \<open>
  C38: A pipe attached to an invitation and extracted from the same invitation has both its ends in one
  process, and nothing written to it ever arrives: the write changes nothing, and reading the other
  end returns OK with an empty message.
\<close>

theorem pipe_within_process_discards:
  assumes "good_names src"
  shows "\<exists>co1 co2 ev. attach_message_pipe_to_invitation 1 nm out (snd (snd (create_invitation (started src)))) = Inr (MOJO_RESULT_OK, 2, co1)
    \<and> extract_message_pipe_from_invitation fresh 1 nm out co1 = Inr (MOJO_RESULT_OK, 3, co2)
    \<and> write_message fresh 2 str co2 = Inr (None, co2)
    \<and> read_message 3 event_create co2 = Inr (MOJO_RESULT_OK, ev, co2)
    \<and> get_user_message ev = Some user_message_default"
proof -
  note pair = first_pair [OF assms]
  let ?r0 = "port_ref_make (src 1 0) (Some 0)" and ?r1 = "port_ref_make (src 1 1) (Some 1)"
  let ?ct = "paired_controller src"
  have one: "ct_node (set_io_task_runner io c) = ct_node c" for io c by (simp add: set_io_task_runner_def)
  have ct: "ct_node ?ct = paired_node src" "ct_name ?ct = src 0 0"
    by (simp_all add: paired_controller_def set_io_task_runner_def new_sel)
  define co1 where "co1 = \<lparr>co_handle_table = ht_after [0, 1],
      co_dispatchers = [InvitationDispatcher [(nm, ?r1)] False, MessagePipeDispatcher ?r0], co_controller = ?ct\<rparr>"
  define co2 where "co2 = \<lparr>co_handle_table = ht_after [0, 1, Suc 1],
      co_dispatchers = [InvitationDispatcher [] False, MessagePipeDispatcher ?r0, MessagePipeDispatcher ?r1], co_controller = ?ct\<rparr>"
  have attach: "attach_message_pipe_to_invitation 1 nm out (snd (snd (create_invitation (started src)))) = Inr (MOJO_RESULT_OK, 2, co1)"
    by (simp add: pair started_def core_set_io_task_runner_def core_new_def create_invitation_def add_dispatcher_def
        two_handles MOJO_HANDLE_INVALID_def attach_message_pipe_to_invitation_def get_dispatcher_def invitation_create_def
        create_partial_message_pipe_def core_port_pair_def one update_dispatcher_def MOJO_RESULT_OK_def co1_def paired_controller_def)
  have taken: "extract_message_pipe_from_invitation fresh 1 nm out co1 = Inr (MOJO_RESULT_OK, 3, co2)"
    by (simp add: extract_message_pipe_from_invitation_def extract_message_pipe_def co1_def co2_def get_dispatcher_def
        two_handles three_handles update_dispatcher_def create_partial_message_pipe_for_def add_dispatcher_def
        om_erase_def MOJO_HANDLE_INVALID_def MOJO_RESULT_OK_def)
  have disp: "get_dispatcher 2 co2 = Some (1, MessagePipeDispatcher ?r0)" "get_dispatcher 3 co2 = Some (2, MessagePipeDispatcher ?r1)"
    by (simp_all add: co2_def get_dispatcher_def three_handles)
  let ?ev = "attach_message (UserMessage (user_message_default\<lparr>um_data := str\<rparr>)) event_create"
  have "\<exists>ev'. send_user_message fresh ?r0 ?ev ?ct = Inr (None, ev', ?ct)"
    using send_user_message_eq [of ?r0 0 ?ct ?ev "user_message_default\<lparr>um_data := str\<rparr>" "linked_port (src 0 0) (src 1 1)" fresh]
    by (simp add: ct pair(3) port_ref_make_sel attach_message_def linked_port_def)
  then have wr: "write_message fresh 2 str co2 = Inr (None, co2)"
    by (auto simp: write_message_def disp pipe_write_message_def) (simp_all add: co2_def)
  let ?rd = "attach_message (UserMessage user_message_default) event_create"
  have "ct_get_user_message ?r1 ?rd ?ct = Inr (node_OK, ?rd, ?ct)"
    by (simp add: ct_get_user_message_def node_get_message_def ct deref_port_def pair(3) port_ref_make_sel linked_port_def
        port_create_def mq_new_def mq_from_def has_next_message_def)
  then have rd: "read_message 3 event_create co2 = Inr (MOJO_RESULT_OK, ?rd, co2)"
    by (simp add: read_message_def disp pipe_read_message_def) (simp add: co2_def)
  have "get_user_message ?rd = Some user_message_default" by (simp add: attach_message_def get_user_message_def)
  then show ?thesis using attach taken wr rd by blast
qed

theorem pipe_within_process_discards_witness:
  "\<exists>co1. attach_message_pipe_to_invitation 1 [112] 0 (snd (snd (create_invitation (started (sample_names 1))))) = Inr (MOJO_RESULT_OK, 2, co1)"
  using pipe_within_process_discards [OF sample_names_good(1), of "[112]" 0] by blast

end
