(* ===== verification/Spec2Isabelle.thy ===== *)
theory Spec2Isabelle
  imports Programs Process_Locks Block_Chain Merge_Threads Channel_Threads Descriptors Serializer_Types Local_Pipes Message_Text Base_Objects
begin

text \<open>
  A verification development for the inter-process message library in \<^verbatim>\<open>src/\<close>, a C++ program
  in which two processes connected by a socket agree on named message pipes and exchange messages
  over them. The theories follow its layers from the bottom up; the file of each definition is named
  in the opening text of its theory.

  \<^bold>\<open>Parts and theories.\<close>

  \<^item> \<open>Prelude\<close>: faults, fallible calls, machine arithmetic. A C++ exception, a null dereference, an
    access outside an object, a division by zero and the call of a pure virtual function are the left summand of a result; a call that
    has not returned is \<open>None\<close>, and so is a value the code forgets to return.
  \<^item> \<open>Byte_Array\<close>, \<open>Byte_Array_Spec\<close>, \<open>Byte_Array_IO\<close> (\<^verbatim>\<open>core/byte_array\<close>): a chain of blocks with a cursor.
    Its abstraction is the flat list of its bytes: a write is an overlay, a read is a slice, and
    every reachable array is well-formed.
  \<^item> \<open>Block_Chain\<close>: the same array as nodes in memory that point to each other. The pointers implement
    the list, use no memory that is not theirs and are deleted completely.
  \<^item> \<open>Codec\<close>, \<open>Varint\<close>, \<open>Byte_Strings\<close>: the typed writes and reads. The locale \<open>codec\<close> is what a
    writer and its reader promise each other where the data do not end with a block, and \<open>exact_codec\<close>, which extends it,
    what they do everywhere: reading the empty string that ends the last block dereferences a null pointer, and nothing
    else of what was written does. Every pair of the code interprets it.
  \<^item> \<open>Serializer\<close>, \<open>Serializer_Types\<close> (\<^verbatim>\<open>core/serializer.h\<close>): the stream operators at scalars, pairs and containers;
    what they read has its type, whatever the bytes. The keys of an unordered container are compared by the
    \<^verbatim>\<open>operator==\<close> of their type, by which a NaN is not equal to itself and the two zeros are equal. The comparison of an
    ordered one is a parameter and has to be a strict weak ordering, as C++ requires; that of floating point numbers is
    one only where no NaN is compared.
  \<^item> \<open>Names\<close>: names, their hash and order, and the associative containers.
  \<^item> \<open>Protocol\<close>, \<open>Protocol_Spec\<close>, \<open>Message_Text\<close> (\<^verbatim>\<open>core/protocol.h\<close>, \<^verbatim>\<open>core/protocols/\<close>, \<^verbatim>\<open>core/channel.h\<close>):
    the envelope, the six message bodies, their round trips and their text.
  \<^item> \<open>Sock_Ops\<close>, \<open>Io_Runner\<close>, \<open>Channel\<close>, \<open>Descriptors\<close>: receiving and sending over the outcomes of system calls, the
    delegates of the event loop, the channel that queues, flushes, reassembles and dispatches, and the
    modes of the descriptors below it.
  \<^item> \<open>Message_Queue\<close>, \<open>Ports_Node\<close>, \<open>Ports_Node_Spec\<close> (\<^verbatim>\<open>core/ports/\<close>): ports in an explicit store, their
    pairing, merging and queues, and the invariant of a node.
  \<^item> \<open>Node_Controller\<close>, \<open>Node_Controller_Spec\<close>, \<open>Controller_Effects\<close>, \<open>Controller_Faults\<close>: the hub of a
    process. Its state is a record of its tables; every handler is a function of it. Where a handler gives up a
    reference to a channel, \<open>release_channel\<close> destroys the channel if it was the last one, and the destructor aborts the
    process unless the channel has been shut down. The invariant
    holds in every reachable state; each step has its effect; and the messages that crash a process are
    characterised exactly.
  \<^item> \<open>Core_Api\<close>, \<open>Core_Spec\<close>, \<open>Local_Pipes\<close>: handles, dispatchers and the public calls.
  \<^item> \<open>Link\<close>, \<open>Handshake\<close>, \<open>Conversation\<close>, \<open>Pipe_Refinement\<close>, \<open>Wiring\<close>, \<open>Wire_Pipe\<close>: two processes together. An exchange carries all that one
    channel has queued to the other process and runs the handlers there; \<open>Link\<close> shows that the channel
    code implements it over bytes in any pieces. \<open>Handshake\<close> runs the calls of the inviting and of the
    invited process in the order of the programs in \<^verbatim>\<open>test/\<close>, and \<open>Conversation\<close> what is written and
    read afterwards. \<open>Pipe_Refinement\<close> states what a pipe is to its users, two lists and two stacks, and
    shows that the connected processes implement it under any sequence of calls and exchanges;
    \<open>Wire_Pipe\<close> replaces each exchange by the events of the two loops: one that flushes the channel and, at the other
    end, as many as there are messages to read. \<open>Wiring\<close> shows that the delegates stay where they were set,
    so that each event finds its channel and its controller.
  \<^item> \<open>Programs\<close> (\<^verbatim>\<open>test/core.cc\<close>): both programs from their command lines to what they return, through
    the pair of sockets, the new process and its arguments, the handshake and one message. The parser of the
    command line is declared only; what it returns in the two processes is an input of the theorem.
  \<^item> \<open>Channel_Threads\<close>, \<open>Peer_Threads\<close>, \<open>Merge_Threads\<close>: the places where threads meet. Writers and the event
    thread share the outgoing queue of a channel; calls that send to a node and the call that adds it as a peer share
    the tables of the controller; merges and the handling of the answer to an invitation share the merges left for later.
    A section under a lock is one step; alone, the steps are the sequential operations.
  \<^item> \<open>Lock_Order\<close>, \<open>Process_Locks\<close>: the mutexes that every function takes, with the extent of its guards. The locale
    \<open>lock_order\<close> shows that threads whose functions take their locks in the order of a rank never deadlock; the
    functions of a process are such.
  \<^item> \<open>Locks\<close>, \<open>Base_Objects\<close>, \<open>Log_Stream\<close>: the mutex and its guards under interleaved threads, atomic
    counters, singletons and processes, and the buffer behind the log messages.

  \<^bold>\<open>How they interact.\<close> A public call looks its dispatcher up in the handle table and calls the node
  controller, which asks its node for the ports and queues envelopes on a node channel. The event loop
  finds the channel by its descriptor and lets it flush its queue, or read one envelope and hand it, by
  its type, to a handler of the controller; a user message ends in the queue of a port, from which the
  other process reads it.

  \<^bold>\<open>Bounds.\<close> A body is decoded correctly up to 127 bytes, because the length prefix of the string is
  taken to be one byte long. This is the bound of the theorems on messages: 91 bytes of user data and
  103 bytes of a pipe name; user messages from there to 16347 bytes are shown to fail. A body on a
  channel is shorter than 65536 bytes, the range of the length that \<^verbatim>\<open>ReadFixBufFromSocket\<close> takes. No
  definition runs on fuel: loops over a byte array, over the outcomes of system calls and over queues
  recurse on what they consume, and the loops of the byte array that may overrun end in a fault.

  \<^bold>\<open>Parameters.\<close> The contents of new memory (\<open>fresh\<close>, \<open>junk\<close>), the names that \<^verbatim>\<open>base::RandBytes\<close>
  draws (\<open>good_names\<close>: within the calls used they are different and not the invalid name), the answers of the parser of the command line, and the
  outcomes of \<^verbatim>\<open>recv\<close>, \<^verbatim>\<open>send\<close>, \<^verbatim>\<open>socketpair\<close> and \<^verbatim>\<open>fork\<close>. No theorem constrains the first.

  \<^bold>\<open>Not modelled.\<close> Threads are started by code that is not in the repository. Apart from
  \<open>Locks\<close>, \<open>Process_Locks\<close> and the three theories on threads, an operation is one atomic step, which is right where the code
  holds its lock throughout or runs on the thread of the event loop. libuv is outside: its callbacks are functions of what it passes.
  The life time of objects is modelled where a destructor does something: the nodes of a byte array, and the channels
  that a controller refers to. The destruction of what is left when a process ends is not, nor are
  destructors that only release memory. \<^verbatim>\<open>addCapacity\<close> divides as a \<^verbatim>\<open>double\<close> and rounds up; the model rounds the exact quotient,
  which is the same for sizes below \<open>2^53\<close>. A function that ends without its return statement yields \<open>None\<close>, an unknown number.
  The formatting of numbers in the log and the destinations of log messages are declared only.
\<close>

end
